(* ===== verification/Hic_Prelude.thy ===== *)
theory Hic_Prelude
  imports Main "HOL-Library.Word"
begin

text \<open>
  Shared vocabulary of the development: the fixed-width integer types and status codes of
  \<^verbatim>\<open>Core-0/types.h\<close>, the result type of fallible kernel operations, the bounded loops in
  which the C sources walk their tables, and the interfaces (locales) that several
  components implement: a bitmap, and a table from which free slots are taken.
\<close>

unbundle bit_operations_syntax

section \<open>Collections of facts\<close>

named_theorems hic_consts \<open>the numeric constants of the headers\<close>
named_theorems loop_simps \<open>unfolding of the bounded search and iteration loops\<close>
named_theorems bitmap_simps \<open>observations of bitmap updates\<close>
named_theorems cap_ops \<open>definitions of the capability operations\<close>

section \<open>Integers and status codes\<close>

type_synonym u8 = "8 word"
type_synonym u16 = "16 word"
type_synonym u32 = "32 word"
type_synonym u64 = "64 word"

text \<open>
  \<open>hic_status_t\<close> is a \<open>u32\<close> with one \<^verbatim>\<open>#define\<close> per code. \<open>HIC_ERROR_PERMISSION_DENIED\<close> is
  a second name for the code of \<open>HIC_ERROR_PERMISSION\<close>.
\<close>

datatype hic_status =
    HIC_SUCCESS
  | HIC_ERROR_GENERIC
  | HIC_ERROR_INVALID_PARAM
  | HIC_ERROR_NO_MEMORY
  | HIC_ERROR_PERMISSION
  | HIC_ERROR_NOT_FOUND
  | HIC_ERROR_TIMEOUT
  | HIC_ERROR_BUSY
  | HIC_ERROR_NOT_SUPPORTED
  | HIC_ERROR_CAP_INVALID
  | HIC_ERROR_CAP_REVOKED
  | HIC_ERROR_INVALID_DOMAIN
  | HIC_ERROR_QUOTA_EXCEEDED
  | HIC_ERROR_INVALID_STATE
  | HIC_ERROR_NO_RESOURCE
  | HIC_ERROR_ALREADY_EXISTS
  | HIC_ERROR_BUFFER_TOO_SMALL
  | HIC_ERROR_DEPENDENCY_NOT_MET
  | HIC_ERROR_CIRCULAR_DEPENDENCY

abbreviation HIC_ERROR_PERMISSION_DENIED :: hic_status where
  "HIC_ERROR_PERMISSION_DENIED \<equiv> HIC_ERROR_PERMISSION"

text \<open>
  An operation that returns a status and fills an output pointer yields \<open>Inl e\<close> for the
  error status \<open>e\<close> (the output is not written) and \<open>Inr x\<close> for \<open>HIC_SUCCESS\<close> with output \<open>x\<close>.
\<close>

type_synonym 'a hic_result = "hic_status + 'a"

fun status_of :: "'a hic_result \<Rightarrow> hic_status" where
  "status_of (Inl e) = e"
| "status_of (Inr _) = HIC_SUCCESS"

abbreviation is_ok :: "'a hic_result \<Rightarrow> bool" where
  "is_ok r \<equiv> \<not> isl r"

lemma if_Inl_eq_Inr [simp]: "((if c then Inl e else x) = Inr u) \<longleftrightarrow> \<not> c \<and> x = Inr u"
  by simp

lemma if_Inl_pair_eq_Inr [simp]:
  "((if c then (Inl e, t) else x) = (Inr u, t')) \<longleftrightarrow> \<not> c \<and> x = (Inr u, t')"
  by simp

definition HIC_CAP_INVALID :: u32 where [hic_consts]: "HIC_CAP_INVALID = 0"
definition INVALID_CAP_ID :: u32 where [hic_consts]: "INVALID_CAP_ID = 0xFFFFFFFF"
definition HIC_DOMAIN_CORE :: u32 where [hic_consts]: "HIC_DOMAIN_CORE = 0"
definition HIC_DOMAIN_MAX :: u32 where [hic_consts]: "HIC_DOMAIN_MAX = 256"
definition HIC_INVALID_DOMAIN :: u32 where [hic_consts]: "HIC_INVALID_DOMAIN = 0xFFFFFFFF"
definition MAX_DOMAINS :: u32 where [hic_consts]: "MAX_DOMAINS = 128"
definition MAX_THREADS :: u32 where [hic_consts]: "MAX_THREADS = 256"
definition INVALID_THREAD :: u32 where [hic_consts]: "INVALID_THREAD = 0xFFFFFFFF"
definition MAX_LOGICAL_CORES :: u32 where [hic_consts]: "MAX_LOGICAL_CORES = 1024"
definition INVALID_LOGICAL_CORE :: u32 where [hic_consts]: "INVALID_LOGICAL_CORE = 0xFFFFFFFF"
definition PAGE_SIZE :: u64 where [hic_consts]: "PAGE_SIZE = 4096"

section \<open>Conversions between widths\<close>

lemma unat_ucast_widen:
  fixes w :: "'a::len word"
  assumes "LENGTH('a) \<le> LENGTH('b::len)"
  shows "unat (ucast w :: 'b word) = unat w"
proof -
  have "unat w < 2 ^ LENGTH('a)" by (rule unsigned_less)
  also have "\<dots> \<le> 2 ^ LENGTH('b)" using assms by simp
  finally show ?thesis by (simp add: unsigned_ucast_eq take_bit_nat_eq_self_iff)
qed

lemma unat_ucast_u32_u64 [simp]: "unat (ucast (w :: u32) :: u64) = unat w"
  by (rule unat_ucast_widen) simp

lemma unat_ucast_u8_u32 [simp]: "unat (ucast (w :: u8) :: u32) = unat w"
  by (rule unat_ucast_widen) simp

lemma unat_ucast_u8_u64 [simp]: "unat (ucast (w :: u8) :: u64) = unat w"
  by (rule unat_ucast_widen) simp

lemma unat_u32_lt [simp]: "unat (w :: u32) < 4294967296"
  using unsigned_less [of w] by simp

lemma and_not_mask_eq: "(x :: 'a::len word) AND NOT (mask n) = push_bit n (drop_bit n x)"
  by (rule bit_eqI) (auto simp: bit_simps)
lemma unat_and_not_mask: "unat ((x :: 'a::len word) AND NOT (mask n)) = unat x div 2^n * 2^n"
proof -
  have less: "unat x div 2^n * 2^n < 2 ^ LENGTH('a)"
    using unsigned_less[of x] by (meson div_times_less_eq_dividend le_less_trans)
  have "unat (push_bit n (drop_bit n x)) = take_bit LENGTH('a) (push_bit n (drop_bit n (unat x)))"
    by (simp only: unsigned_push_bit_eq unat_drop_bit_eq)
  also have "\<dots> = unat x div 2^n * 2^n"
    using less by (simp add: push_bit_eq_mult drop_bit_eq_div take_bit_nat_eq_self_iff)
  finally show ?thesis by (simp only: and_not_mask_eq)
qed

section \<open>Bounded loops\<close>

text \<open>
  \<open>find_first p i n\<close> is the search \<^verbatim>\<open>for (k = i; k < i + n; k++) if (p(k)) break;\<close>: the first
  index that satisfies \<open>p\<close>, or \<open>None\<close> when the loop runs to its end.
\<close>

primrec find_first :: "(nat \<Rightarrow> bool) \<Rightarrow> nat \<Rightarrow> nat \<Rightarrow> nat option" where
  "find_first p i 0 = None"
| "find_first p i (Suc n) = (if p i then Some i else find_first p (Suc i) n)"

lemma find_first_numeral [loop_simps]:
  "find_first p i (numeral k) =
     (if p i then Some i else find_first p (Suc i) (pred_numeral k))"
  by (simp add: numeral_eq_Suc)

lemma all_ge_Suc_split: "(\<forall>k::nat. i \<le> k \<longrightarrow> P k) \<longleftrightarrow> P i \<and> (\<forall>k. Suc i \<le> k \<longrightarrow> P k)"
proof -
  have "P k" if "P i" and "\<forall>k. Suc i \<le> k \<longrightarrow> P k" and "i \<le> k" for k
    using that by (cases "i = k") auto
  then show ?thesis by auto
qed

lemma find_first_Some_iff:
  "find_first p i n = Some j \<longleftrightarrow>
     i \<le> j \<and> j < i + n \<and> p j \<and> (\<forall>k. i \<le> k \<longrightarrow> k < j \<longrightarrow> \<not> p k)"
proof (induction n arbitrary: i)
  case 0
  then show ?case by auto
next
  case (Suc n)
  show ?case
    using Suc.IH [of "Suc i"] unfolding all_ge_Suc_split [where i = i]
    by (cases "i = j") (auto simp: Suc_le_eq)
qed

lemma find_first_None_iff:
  "find_first p i n = None \<longleftrightarrow> (\<forall>k. i \<le> k \<longrightarrow> k < i + n \<longrightarrow> \<not> p k)"
proof (induction n arbitrary: i)
  case 0
  then show ?case by simp
next
  case (Suc n)
  then show ?case unfolding all_ge_Suc_split [where i = i] by simp
qed

lemma find_first_SomeD:
  assumes "find_first p i n = Some j"
  shows "i \<le> j" and "j < i + n" and "p j"
  using assms by (auto simp: find_first_Some_iff)

lemma find_first_is_Some:
  assumes "p k" and "i \<le> k" and "k < i + n"
  shows "\<exists>j. find_first p i n = Some j \<and> j \<le> k"
proof -
  from assms have "find_first p i n \<noteq> None" by (auto simp: find_first_None_iff)
  then obtain j where "find_first p i n = Some j" by auto
  moreover from this assms have "j \<le> k"
    by (auto simp: find_first_Some_iff not_less [symmetric])
  ultimately show ?thesis by blast
qed

lemma find_first_cong:
  assumes "\<And>k. i \<le> k \<Longrightarrow> k < i + n \<Longrightarrow> p k = q k"
  shows "find_first p i n = find_first q i n"
  using assms
proof (induction n arbitrary: i)
  case 0
  then show ?case by simp
next
  case (Suc n)
  from Suc.prems have "p i = q i" by simp
  moreover from Suc.prems have "find_first p (Suc i) n = find_first q (Suc i) n"
    by (intro Suc.IH) simp
  ultimately show ?case by simp
qed

text \<open>
  \<open>for_range f i n s\<close> is the loop \<^verbatim>\<open>for (k = i; k < i + n; k++) s = f(k, s);\<close>.
\<close>

primrec for_range :: "(nat \<Rightarrow> 's \<Rightarrow> 's) \<Rightarrow> nat \<Rightarrow> nat \<Rightarrow> 's \<Rightarrow> 's" where
  "for_range f i 0 s = s"
| "for_range f i (Suc n) s = for_range f (Suc i) n (f i s)"

lemma for_range_numeral [loop_simps]:
  "for_range f i (numeral k) s = for_range f (Suc i) (pred_numeral k) (f i s)"
  by (simp add: numeral_eq_Suc)

lemma for_range_snoc: "for_range f i (Suc n) s = f (i + n) (for_range f i n s)"
  by (induction n arbitrary: i s) simp_all

lemma for_range_invariant:
  assumes "I s" and "\<And>k t. i \<le> k \<Longrightarrow> k < i + n \<Longrightarrow> I t \<Longrightarrow> I (f k t)"
  shows "I (for_range f i n s)"
  using assms
proof (induction n arbitrary: i s)
  case 0
  then show ?case by simp
next
  case (Suc n)
  then show ?case by (auto intro!: Suc.IH)
qed

lemma for_range_induct:
  assumes "I 0 s" and "\<And>k t. k < n \<Longrightarrow> I k t \<Longrightarrow> I (Suc k) (f (i + k) t)"
  shows "I n (for_range f i n s)"
  using assms
proof (induction n)
  case 0
  then show ?case by simp
next
  case (Suc n)
  then show ?case unfolding for_range_snoc by simp
qed

section \<open>Bitmaps\<close>

text \<open>
  The interface of a bitmap: a membership test and the two updates. The kernel has four: the
  frame bitmap of the physical memory manager, the privileged-domain bitmap, the thread slot
  bitmap and the authorization bitmap of an IPC 3.0 entry page. Loops that set or clear a run
  of bits are reasoned about here once.
\<close>

locale bitset =
  fixes tst :: "'b \<Rightarrow> nat \<Rightarrow> bool"
    and st :: "nat \<Rightarrow> 'b \<Rightarrow> 'b"
    and cl :: "nat \<Rightarrow> 'b \<Rightarrow> 'b"
  assumes tst_st: "tst (st i b) j \<longleftrightarrow> j = i \<or> tst b j"
    and tst_cl: "tst (cl i b) j \<longleftrightarrow> j \<noteq> i \<and> tst b j"
begin

lemma tst_st_range: "tst (for_range st i n b) j \<longleftrightarrow> (i \<le> j \<and> j < i + n) \<or> tst b j"
  by (induction n arbitrary: i b) (auto simp: tst_st Suc_le_eq order_le_less)

lemma tst_cl_range: "tst (for_range cl i n b) j \<longleftrightarrow> \<not> (i \<le> j \<and> j < i + n) \<and> tst b j"
  by (induction n arbitrary: i b) (auto simp: tst_cl Suc_le_eq order_le_less)

lemma set_then_clear_range:
  assumes "\<And>j. i \<le> j \<Longrightarrow> j < i + n \<Longrightarrow> \<not> tst b j"
  shows "tst (for_range cl i n (for_range st i n b)) j \<longleftrightarrow> tst b j"
  using assms by (auto simp: tst_st_range tst_cl_range)

lemma card_clear_after_st_range:
  assumes "\<And>j. i \<le> j \<Longrightarrow> j < i + n \<Longrightarrow> \<not> tst b j" and "i + n \<le> N"
  shows "card {j. j < N \<and> \<not> tst (for_range st i n b) j} + n = card {j. j < N \<and> \<not> tst b j}"
proof -
  let ?F = "{j. j < N \<and> \<not> tst b j}"
  have "{j. j < N \<and> \<not> tst (for_range st i n b) j} = ?F - {i..<i + n}"
    by (auto simp: tst_st_range)
  moreover have "{i..<i + n} \<subseteq> ?F" using assms by auto
  moreover from this have "n \<le> card ?F"
    using card_mono [of ?F "{i..<i + n}"] by simp
  ultimately show ?thesis by (simp add: card_Diff_subset)
qed

lemma card_clear_after_cl_range:
  assumes "\<And>j. i \<le> j \<Longrightarrow> j < i + n \<Longrightarrow> tst b j" and "i + n \<le> N"
  shows "card {j. j < N \<and> \<not> tst (for_range cl i n b) j} = card {j. j < N \<and> \<not> tst b j} + n"
proof -
  let ?F = "{j. j < N \<and> \<not> tst b j}"
  have "{j. j < N \<and> \<not> tst (for_range cl i n b) j} = ?F \<union> {i..<i + n}"
    using assms(2) by (auto simp: tst_cl_range)
  moreover have "?F \<inter> {i..<i + n} = {}" using assms(1) by auto
  ultimately show ?thesis by (simp add: card_Un_disjoint)
qed

end

text \<open>
  Every bitmap of the kernel is an array of words in which bit \<open>i\<close> lives in word \<open>i / W\<close> at
  position \<open>i % W\<close>, tested with a mask and updated with \<^verbatim>\<open>|=\<close> and \<^verbatim>\<open>&= ~\<close>.
\<close>

lemma and_mask_nonzero_iff_bit:
  fixes w :: "'w::len word"
  assumes "n < LENGTH('w)"
  shows "w AND push_bit n 1 \<noteq> 0 \<longleftrightarrow> bit w n"
  using assms by (auto simp: bit_eq_iff [where 'a = "'w word"] bit_simps)

definition warr_test :: "(nat \<Rightarrow> 'w::len word) \<Rightarrow> nat \<Rightarrow> bool" where
  "warr_test a i \<longleftrightarrow> a (i div LENGTH('w)) AND push_bit (i mod LENGTH('w)) 1 \<noteq> 0"

definition warr_set :: "nat \<Rightarrow> (nat \<Rightarrow> 'w::len word) \<Rightarrow> (nat \<Rightarrow> 'w word)" where
  "warr_set i a =
     a(i div LENGTH('w) := a (i div LENGTH('w)) OR push_bit (i mod LENGTH('w)) 1)"

definition warr_clear :: "nat \<Rightarrow> (nat \<Rightarrow> 'w::len word) \<Rightarrow> (nat \<Rightarrow> 'w word)" where
  "warr_clear i a =
     a(i div LENGTH('w) := a (i div LENGTH('w)) AND NOT (push_bit (i mod LENGTH('w)) 1))"

lemma warr_test_iff_bit:
  "warr_test a i \<longleftrightarrow> bit ((a :: nat \<Rightarrow> 'w::len word) (i div LENGTH('w))) (i mod LENGTH('w))"
  unfolding warr_test_def by (rule and_mask_nonzero_iff_bit) simp

lemma div_mod_eq_iff: "(i::nat) = j \<longleftrightarrow> i div w = j div w \<and> i mod w = j mod w"
  by (metis div_mult_mod_eq)

lemma warr_test_set: "warr_test (warr_set i (a :: nat \<Rightarrow> 'w::len word)) j \<longleftrightarrow> j = i \<or> warr_test a j"
  by (subst div_mod_eq_iff [of j i "LENGTH('w)"])
     (auto simp: warr_test_iff_bit warr_set_def bit_simps)

lemma warr_test_clear:
  "warr_test (warr_clear i (a :: nat \<Rightarrow> 'w::len word)) j \<longleftrightarrow> j \<noteq> i \<and> warr_test a j"
  by (subst div_mod_eq_iff [of j i "LENGTH('w)"])
     (auto simp: warr_test_iff_bit warr_clear_def bit_simps)

section \<open>Tables of slots\<close>

text \<open>
  The interface of a fixed table from which an operation takes the first free slot: the
  capability table, the shared memory regions, the CNode pool, the domain table, the thread
  table. A client sees that a slot handed out was free, that it is used afterwards, that no
  other slot changes, and that a refusal means the table is full.
\<close>

locale slot_table =
  fixes valid :: "'t \<Rightarrow> bool"
    and used :: "'t \<Rightarrow> nat \<Rightarrow> bool"
    and pick :: "'t \<Rightarrow> nat option"
    and lo hi :: nat
  assumes pick_Some: "valid t \<Longrightarrow> pick t = Some i \<Longrightarrow> lo \<le> i \<and> i < hi \<and> \<not> used t i"
    and pick_None: "valid t \<Longrightarrow> pick t = None \<Longrightarrow> lo \<le> i \<Longrightarrow> i < hi \<Longrightarrow> used t i"
begin

lemma pick_fresh:
  assumes "valid t" and "pick t = Some i" and "used t j"
  shows "i \<noteq> j"
  using assms pick_Some by blast

lemma pick_None_iff:
  assumes "valid t"
  shows "pick t = None \<longleftrightarrow> (\<forall>i. lo \<le> i \<longrightarrow> i < hi \<longrightarrow> used t i)"
proof (cases "pick t")
  case None
  then show ?thesis using assms pick_None by blast
next
  case (Some i)
  then show ?thesis using assms pick_Some by auto
qed

lemma pick_card:
  assumes "valid t" and "pick t = Some i" and "\<And>j. used t' j \<longleftrightarrow> j = i \<or> used t j"
  shows "card {j. lo \<le> j \<and> j < hi \<and> used t' j} = Suc (card {j. lo \<le> j \<and> j < hi \<and> used t j})"
proof -
  have "{j. lo \<le> j \<and> j < hi \<and> used t' j} = insert i {j. lo \<le> j \<and> j < hi \<and> used t j}"
    using assms pick_Some by auto
  moreover have "i \<notin> {j. lo \<le> j \<and> j < hi \<and> used t j}" using assms(1,2) pick_Some by auto
  ultimately show ?thesis by simp
qed

end

section \<open>Frame allocators\<close>

text \<open>
  The interface of the physical memory manager as its clients use it (shared memory regions,
  domains, thread stacks): a request for \<open>n\<close> contiguous frames yields an address whose frames
  were idle, releasing such a block makes exactly its frames idle again, and a refused request
  changes nothing.
\<close>

definition frames_at :: "u64 \<Rightarrow> u32 \<Rightarrow> nat set" where
  "frames_at a n = {unat a div 4096 ..< unat a div 4096 + unat n}"

locale frame_allocator =
  fixes alloc :: "u32 \<Rightarrow> 's \<Rightarrow> u64 hic_result \<times> 's"
    and release :: "u64 \<Rightarrow> u32 \<Rightarrow> 's \<Rightarrow> unit hic_result \<times> 's"
    and busy :: "'s \<Rightarrow> nat \<Rightarrow> bool"
    and sound :: "'s \<Rightarrow> bool"
  assumes alloc_sound: "sound s \<Longrightarrow> alloc n s = (Inr a, s') \<Longrightarrow> sound s'"
    and alloc_nonzero: "sound s \<Longrightarrow> alloc n s = (Inr a, s') \<Longrightarrow> n \<noteq> 0"
    and alloc_idle: "sound s \<Longrightarrow> alloc n s = (Inr a, s') \<Longrightarrow> j \<in> frames_at a n \<Longrightarrow> \<not> busy s j"
    and alloc_busy: "sound s \<Longrightarrow> alloc n s = (Inr a, s') \<Longrightarrow> busy s' j \<longleftrightarrow> busy s j \<or> j \<in> frames_at a n"
    and alloc_refused: "alloc n s = (Inl e, s') \<Longrightarrow> s' = s"
    and release_sound: "sound s \<Longrightarrow> release a n s = (Inr u, s') \<Longrightarrow> sound s'"
    and release_busy:
      "sound s \<Longrightarrow> release a n s = (Inr u, s') \<Longrightarrow> busy s' j \<longleftrightarrow> busy s j \<and> j \<notin> frames_at a n"
    and release_total:
      "sound s \<Longrightarrow> n \<noteq> 0 \<Longrightarrow> (\<And>j. j \<in> frames_at a n \<Longrightarrow> busy s j) \<Longrightarrow>
       \<exists>s'. release a n s = (Inr (), s')"
begin

lemma allocs_disjoint:
  assumes "sound s" and "alloc n s = (Inr a, s1)" and "alloc m s1 = (Inr b, s2)"
  shows "frames_at a n \<inter> frames_at b m = {}"
  using assms alloc_busy alloc_idle alloc_sound by blast

lemma alloc_release:
  assumes s: "sound s" and al: "alloc n s = (Inr a, s1)"
  obtains s2 where "release a n s1 = (Inr (), s2)" "sound s2" "\<And>j. busy s2 j \<longleftrightarrow> busy s j"
proof -
  have "sound s1" using alloc_sound s al by blast
  moreover obtain s2 where rel: "release a n s1 = (Inr (), s2)"
    using release_total [of s1 n a] calculation alloc_nonzero [OF s al] alloc_busy [OF s al] by blast
  ultimately show thesis
    using that [OF rel] release_sound release_busy alloc_busy [OF s al] alloc_idle [OF s al]
    by blast
qed

text \<open>The roll-back pattern of the clients: a first block is obtained, a second is refused.\<close>

lemma rollback:
  assumes s: "sound s" and "alloc n s = (Inr a, s1)" and "alloc m s1 = (Inl e, s2)"
  obtains s3 where "release a n s2 = (Inr (), s3)" "sound s3" "\<And>j. busy s3 j \<longleftrightarrow> busy s j"
  using alloc_release [OF assms(1,2)] alloc_refused [OF assms(3)] by blast

end

end
