(* ===== verification/Hic_Pmm.thy ===== *)
theory Hic_Pmm
  imports Hic_Prelude
begin

text \<open>
  The physical memory manager, \<^verbatim>\<open>Core-0/pmm.c\<close>: one bit per page frame (set = in use) in a
  static 1 MiB byte array, and the counters kept beside it. Each C function is one definition
  over the record \<open>pmm\<close> of the file's static variables; console output and the call of the
  invariant monitor, whose result is only printed, are left out. An access outside the static
  array raises the ghost flag \<open>pmm_fault\<close>.
\<close>

section \<open>State\<close>

record mem_region =
  mr_base :: u64
  mr_size :: u64

record pmm =
  frame_bitmap :: "nat \<Rightarrow> u8"
  max_frames :: u64
  usable_max_frame :: u64
  total_frames :: u64
  free_frames :: u64
  mem_regions :: "mem_region list"
  g_total_memory :: u64
  g_used_memory :: u64
  pmm_fault :: bool

datatype page_frame_type =
    PAGE_FRAME_FREE
  | PAGE_FRAME_RESERVED
  | PAGE_FRAME_CORE
  | PAGE_FRAME_PRIVILEGED
  | PAGE_FRAME_APPLICATION
  | PAGE_FRAME_SHARED

record page_frame =
  pf_base_addr :: u64
  pf_type :: page_frame_type
  pf_owner :: u32
  pf_ref_count :: u32

text \<open>The static array has \<open>1024 * 1024\<close> bytes, one bit per frame.\<close>

definition max_supported_frames :: u64 where
  [hic_consts]: "max_supported_frames = 8388608"

definition sizeof_mem_region :: u64 where
  [hic_consts]: "sizeof_mem_region = 24"

section \<open>Bitmap operations\<close>

definition pmm_set_bit :: "nat \<Rightarrow> (nat \<Rightarrow> u8) \<Rightarrow> (nat \<Rightarrow> u8)" where
  "pmm_set_bit index bitmap =
     bitmap(index div 8 := bitmap (index div 8) OR push_bit (index mod 8) 1)"

definition pmm_clear_bit :: "nat \<Rightarrow> (nat \<Rightarrow> u8) \<Rightarrow> (nat \<Rightarrow> u8)" where
  "pmm_clear_bit index bitmap =
     bitmap(index div 8 := bitmap (index div 8) AND NOT (push_bit (index mod 8) 1))"

definition pmm_test_bit :: "(nat \<Rightarrow> u8) \<Rightarrow> nat \<Rightarrow> bool" where
  "pmm_test_bit bitmap index \<longleftrightarrow> bitmap (index div 8) AND push_bit (index mod 8) 1 \<noteq> 0"

interpretation fb: bitset pmm_test_bit pmm_set_bit pmm_clear_bit
proof unfold_locales
  fix i j :: nat and b :: "nat \<Rightarrow> u8"
  show "pmm_test_bit (pmm_set_bit i b) j \<longleftrightarrow> j = i \<or> pmm_test_bit b j"
    using warr_test_set [of i b j]
    by (simp add: pmm_test_bit_def pmm_set_bit_def warr_test_def warr_set_def)
  show "pmm_test_bit (pmm_clear_bit i b) j \<longleftrightarrow> j \<noteq> i \<and> pmm_test_bit b j"
    using warr_test_clear [of i b j]
    by (simp add: pmm_test_bit_def pmm_clear_bit_def warr_test_def warr_clear_def)
qed

lemmas [bitmap_simps] = fb.tst_st fb.tst_cl fb.tst_st_range fb.tst_cl_range

section \<open>Initialisation and regions\<close>

definition pmm_init_with_range :: "u64 \<Rightarrow> pmm \<Rightarrow> pmm" where
  "pmm_init_with_range max_phys_addr p =
     (let max_supported_phys = max_supported_frames * PAGE_SIZE;
          requested_frames = (max_phys_addr + PAGE_SIZE - 1) div PAGE_SIZE;
          max_phys_addr =
            (if requested_frames > max_supported_frames then max_supported_phys
             else max_phys_addr);
          frames = (max_phys_addr + PAGE_SIZE - 1) div PAGE_SIZE;
          bitmap_size = (frames + 7) div 8
      in p\<lparr> max_frames := frames,
            frame_bitmap := (\<lambda>i. if i < unat bitmap_size then 0xFF else 0),
            total_frames := 0, free_frames := 0, g_total_memory := 0, g_used_memory := 0,
            usable_max_frame := 0, mem_regions := [] \<rparr>)"

text \<open>
  \<open>pmm_add_region\<close> aligns the region, skips the page that holds the region descriptor and
  clears the bits of the remaining frames. All quantities are \<open>u64\<close> and wrap.
\<close>

definition pmm_add_region :: "u64 \<Rightarrow> u64 \<Rightarrow> pmm \<Rightarrow> unit hic_result \<times> pmm" where
  "pmm_add_region base sz p =
     (let aligned_base = (base + PAGE_SIZE - 1) AND NOT (PAGE_SIZE - 1);
          aligned_size = (sz - (aligned_base - base)) AND NOT (PAGE_SIZE - 1)
      in if aligned_size < PAGE_SIZE then (Inl HIC_ERROR_INVALID_PARAM, p)
         else
      let num_frames = aligned_size div PAGE_SIZE;
          start_frame = aligned_base div PAGE_SIZE
      in if start_frame \<ge> max_frames p then (Inl HIC_ERROR_INVALID_PARAM, p)
         else
      let num_frames =
            (if start_frame + num_frames > max_frames p then max_frames p - start_frame
             else num_frames);
          region_offset = sizeof_mem_region;
          descriptor_pages = (region_offset + PAGE_SIZE - 1) div PAGE_SIZE;
          aligned_base = aligned_base + region_offset;
          aligned_size = aligned_size - region_offset
      in if aligned_size < PAGE_SIZE then (Inl HIC_ERROR_INVALID_PARAM, p)
         else
      let available_start_frame = start_frame + descriptor_pages;
          available_frames = num_frames - descriptor_pages;
          region_end_frame = available_start_frame + available_frames
      in (Inr (),
          p\<lparr> mem_regions := mem_regions p @ [\<lparr> mr_base = aligned_base, mr_size = aligned_size \<rparr>],
             frame_bitmap := for_range pmm_clear_bit (unat available_start_frame)
                               (unat available_frames) (frame_bitmap p),
             free_frames := free_frames p + available_frames,
             total_frames := total_frames p + available_frames,
             g_total_memory := g_total_memory p + aligned_size,
             usable_max_frame := (if region_end_frame > usable_max_frame p then region_end_frame
                                  else usable_max_frame p) \<rparr>))"

section \<open>Allocation and release\<close>

text \<open>
  The scan of \<open>pmm_alloc_frames\<close>: it walks the frames \<open>i, i + 1, \<dots>\<close> (\<open>n\<close> of them) and stops
  once \<open>count\<close> consecutive clear bits have been seen; \<open>start\<close> is where the current run began.
\<close>

primrec alloc_scan ::
    "(nat \<Rightarrow> bool) \<Rightarrow> nat \<Rightarrow> nat \<Rightarrow> nat \<Rightarrow> nat \<Rightarrow> nat \<Rightarrow> nat \<times> nat" where
  "alloc_scan u count 0 i consecutive start = (consecutive, start)"
| "alloc_scan u count (Suc n) i consecutive start =
     (if consecutive < count then
        if \<not> u i
        then alloc_scan u count n (Suc i) (Suc consecutive) (if consecutive = 0 then i else start)
        else alloc_scan u count n (Suc i) 0 start
      else (consecutive, start))"

text \<open>
  \<open>count * PAGE_SIZE\<close> is computed in 32 bits (\<open>count\<close> is a \<open>u32\<close>, \<open>PAGE_SIZE\<close> an \<open>int\<close>) and then
  widened. The pointer argument \<open>out\<close> is tested for \<open>NULL\<close>; \<open>out_ok\<close> says that it is not.
\<close>

definition frames_to_bytes :: "u32 \<Rightarrow> u64" where
  "frames_to_bytes count = ucast (count * ucast PAGE_SIZE :: u32)"

definition pmm_alloc_frames :: "u32 \<Rightarrow> bool \<Rightarrow> pmm \<Rightarrow> u64 hic_result \<times> pmm" where
  "pmm_alloc_frames count out_ok p =
     (if count = 0 \<or> \<not> out_ok then (Inl HIC_ERROR_INVALID_PARAM, p)
      else let (consecutive, start) =
             alloc_scan (pmm_test_bit (frame_bitmap p)) (unat count)
               (unat (usable_max_frame p)) 0 0 0
      in if consecutive < unat count then (Inl HIC_ERROR_NO_MEMORY, p)
         else (Inr (of_nat start * PAGE_SIZE),
               p\<lparr> frame_bitmap := for_range pmm_set_bit start (unat count) (frame_bitmap p),
                  free_frames := free_frames p - ucast count,
                  g_used_memory := g_used_memory p + frames_to_bytes count \<rparr>))"

text \<open>
  \<open>pmm_alloc_scattered\<close> takes the first \<open>count\<close> clear bits; \<open>pages\<close> receives their addresses.
  The roll-back clears the bits again through the addresses already stored.
\<close>

primrec scatter_scan ::
    "nat \<Rightarrow> nat \<Rightarrow> nat \<Rightarrow> (nat \<Rightarrow> u8) \<Rightarrow> u64 list \<Rightarrow> (nat \<Rightarrow> u8) \<times> u64 list" where
  "scatter_scan count 0 i bm pages = (bm, pages)"
| "scatter_scan count (Suc n) i bm pages =
     (if length pages < count then
        if \<not> pmm_test_bit bm i
        then scatter_scan count n (Suc i) (pmm_set_bit i bm) (pages @ [of_nat i * PAGE_SIZE])
        else scatter_scan count n (Suc i) bm pages
      else (bm, pages))"

definition pmm_alloc_scattered :: "u32 \<Rightarrow> bool \<Rightarrow> pmm \<Rightarrow> u64 list hic_result \<times> pmm" where
  "pmm_alloc_scattered count pages_ok p =
     (if count = 0 \<or> \<not> pages_ok then (Inl HIC_ERROR_INVALID_PARAM, p)
      else if free_frames p < ucast count then (Inl HIC_ERROR_NO_MEMORY, p)
      else let (bm, pages) = scatter_scan (unat count) (unat (usable_max_frame p)) 0
                               (frame_bitmap p) []
      in if length pages < unat count
         then (Inl HIC_ERROR_NO_MEMORY,
               p\<lparr> frame_bitmap :=
                    fold (\<lambda>a. pmm_clear_bit (unat (a div PAGE_SIZE))) pages bm \<rparr>)
         else (Inr pages,
               p\<lparr> frame_bitmap := bm,
                  free_frames := free_frames p - ucast count,
                  g_used_memory := g_used_memory p + frames_to_bytes count \<rparr>))"

definition pmm_free_frames :: "u64 \<Rightarrow> u32 \<Rightarrow> pmm \<Rightarrow> unit hic_result \<times> pmm" where
  "pmm_free_frames addr count p =
     (let start_frame = addr div PAGE_SIZE
      in if start_frame \<ge> max_frames p \<or> count = 0 then (Inl HIC_ERROR_INVALID_PARAM, p)
         else case find_first
                (\<lambda>i. unat start_frame + i \<ge> unat max_supported_frames \<or>
                     \<not> pmm_test_bit (frame_bitmap p) (unat start_frame + i)) 0 (unat count) of
           Some i \<Rightarrow>
             (Inl HIC_ERROR_INVALID_PARAM,
              if unat start_frame + i \<ge> unat max_supported_frames then p\<lparr> pmm_fault := True \<rparr>
              else p)
         | None \<Rightarrow>
             (Inr (),
              p\<lparr> frame_bitmap :=
                   for_range pmm_clear_bit (unat start_frame) (unat count) (frame_bitmap p),
                 free_frames := free_frames p + ucast count,
                 g_used_memory := g_used_memory p - frames_to_bytes count \<rparr>))"

section \<open>Queries and reservation\<close>

definition pmm_get_frame_info :: "u64 \<Rightarrow> bool \<Rightarrow> pmm \<Rightarrow> page_frame hic_result" where
  "pmm_get_frame_info addr info_ok p =
     (let frame = addr div PAGE_SIZE
      in if frame \<ge> max_frames p \<or> \<not> info_ok then Inl HIC_ERROR_INVALID_PARAM
         else if frame < usable_max_frame p then
           let is_allocated = pmm_test_bit (frame_bitmap p) (unat frame)
           in Inr \<lparr> pf_base_addr = frame * PAGE_SIZE,
                    pf_type = (if is_allocated then PAGE_FRAME_PRIVILEGED else PAGE_FRAME_FREE),
                    pf_owner = (if is_allocated then HIC_DOMAIN_CORE else 0),
                    pf_ref_count = (if is_allocated then 1 else 0) \<rparr>
         else Inl HIC_ERROR_INVALID_PARAM)"

definition pmm_get_stats :: "pmm \<Rightarrow> u64 \<times> u64 \<times> u64" where
  "pmm_get_stats p = (total_frames p, free_frames p, total_frames p - free_frames p)"

definition used_memory :: "pmm \<Rightarrow> u64" where
  "used_memory p = g_used_memory p"

definition total_memory :: "pmm \<Rightarrow> u64" where
  "total_memory p = g_total_memory p"

definition PAGE_ALIGN :: "u64 \<Rightarrow> u64" where
  "PAGE_ALIGN addr = (addr + PAGE_SIZE - 1) AND NOT (PAGE_SIZE - 1)"

text \<open>One iteration of \<open>pmm_mark_used\<close>, and the loop over the page-aligned addresses.\<close>

definition mark_frame_used :: "nat \<Rightarrow> pmm \<Rightarrow> pmm" where
  "mark_frame_used frame_index p =
     (if frame_index < unat (max_frames p) \<and> \<not> pmm_test_bit (frame_bitmap p) frame_index
      then p\<lparr> frame_bitmap := pmm_set_bit frame_index (frame_bitmap p),
              free_frames := free_frames p - 1,
              g_used_memory := g_used_memory p + PAGE_SIZE \<rparr>
      else p)"

definition pmm_mark_used :: "u64 \<Rightarrow> u64 \<Rightarrow> pmm \<Rightarrow> pmm" where
  "pmm_mark_used base sz p =
     (let start = PAGE_ALIGN base; end' = PAGE_ALIGN (base + sz)
      in for_range mark_frame_used (unat (start div PAGE_SIZE))
           (unat (end' div PAGE_SIZE) - unat (start div PAGE_SIZE)) p)"

section \<open>Frames, addresses and runs\<close>

lemma unat_frame_addr:
  assumes "i < 2 ^ 52"
  shows "unat (of_nat i * PAGE_SIZE) = i * 4096"
  using assms
  by (simp add: hic_consts unat_word_ariths unat_of_nat)

lemma frame_of_addr [simp]:
  assumes "i < 2 ^ 52"
  shows "unat (of_nat i * PAGE_SIZE div PAGE_SIZE) = i"
proof -
  have "unat (of_nat i * PAGE_SIZE div PAGE_SIZE) = unat (of_nat i * PAGE_SIZE) div unat PAGE_SIZE"
    by (rule unat_div_distrib)
  also have "\<dots> = i"
    using unat_frame_addr [OF assms] by (simp add: hic_consts)
  finally show ?thesis .
qed

lemma unat_page_down: "unat (x AND NOT (PAGE_SIZE - 1)) = unat x div 4096 * 4096"
proof -
  have "PAGE_SIZE - 1 = mask 12" by (simp add: hic_consts mask_eq_exp_minus_1)
  then show ?thesis using unat_and_not_mask[of x 12] by simp
qed

lemma unat_div_page: "unat (x div PAGE_SIZE) = unat x div 4096"
  by (simp add: unat_div_distrib hic_consts)


lemma unat_PAGE_SIZE [simp]: "unat PAGE_SIZE = 4096" by (simp add: hic_consts)

lemma unat_div_page': "unat (x div PAGE_SIZE) < 2 ^ 52"
  using unsigned_less [of x] by (simp add: unat_div_page div_less_iff_less_mult del: unsigned_less)

abbreviation frame_addr :: "nat \<Rightarrow> u64" where
  "frame_addr i \<equiv> of_nat i * PAGE_SIZE"

text \<open>\<open>run_free u s n\<close>: the \<open>n\<close> frames from \<open>s\<close> on are all free.\<close>

definition run_free :: "(nat \<Rightarrow> bool) \<Rightarrow> nat \<Rightarrow> nat \<Rightarrow> bool" where
  "run_free u s n \<longleftrightarrow> (\<forall>j. s \<le> j \<longrightarrow> j < s + n \<longrightarrow> \<not> u j)"

text \<open>
  The scan is first fit. The invariant: the current run begins at \<open>b\<close>, right after a used
  frame, and no run of \<open>count\<close> free frames ends before the cursor.
\<close>

definition scan_result :: "(nat \<Rightarrow> bool) \<Rightarrow> nat \<Rightarrow> nat \<Rightarrow> nat \<Rightarrow> nat \<Rightarrow> bool" where
  "scan_result u count limit c st \<longleftrightarrow>
     (if c < count then \<forall>s. s + count \<le> limit \<longrightarrow> \<not> run_free u s count
      else c = count \<and> run_free u st count \<and> st + count \<le> limit \<and>
           (\<forall>s. s < st \<longrightarrow> \<not> run_free u s count))"

definition scan_inv :: "(nat \<Rightarrow> bool) \<Rightarrow> nat \<Rightarrow> nat \<Rightarrow> nat \<Rightarrow> nat \<Rightarrow> nat \<Rightarrow> bool" where
  "scan_inv u count b i c st \<longleftrightarrow>
     c \<le> count \<and> (0 < c \<longrightarrow> st = b) \<and> i = b + c \<and> run_free u b c \<and> (0 < b \<longrightarrow> u (b - 1)) \<and>
     (\<forall>s. s + count \<le> i \<longrightarrow> c < count \<or> s < b \<longrightarrow> \<not> run_free u s count)"

lemma scan_inv_stop:
  assumes "0 < count" and "scan_inv u count b i c st" and "i \<le> limit"
    and "c = count \<or> limit = i"
  shows "scan_result u count limit c st"
proof (cases "c = count")
  case True
  then have "st = b" and "st + count = i" and "run_free u st count"
    using assms(1,2) by (auto simp: scan_inv_def)
  moreover have "\<not> run_free u s count" if "s < st" for s
    using that assms(2) \<open>st + count = i\<close> \<open>st = b\<close> by (auto simp: scan_inv_def)
  ultimately show ?thesis using True assms(3) by (simp add: scan_result_def)
next
  case False
  then show ?thesis using assms(2,4) by (auto simp: scan_result_def scan_inv_def)
qed

lemma scan_inv_used:
  assumes "0 < count" and "scan_inv u count b i c st" and "c < count" and "u i"
  shows "scan_inv u count (Suc i) (Suc i) 0 st"
proof -
  have "\<not> run_free u s count" if "s + count \<le> Suc i" for s
  proof (cases "s + count \<le> i")
    case True
    then show ?thesis using assms(2,3) by (auto simp: scan_inv_def)
  next
    case False
    with that have "s + count = Suc i" by simp
    with assms(1,4) show ?thesis by (auto simp: run_free_def intro!: exI [of _ i])
  qed
  with assms(4) show ?thesis by (auto simp: scan_inv_def run_free_def)
qed

lemma scan_inv_clear:
  assumes "0 < count" and inv: "scan_inv u count b i c st" and "c < count" and "\<not> u i"
  shows "scan_inv u count b (Suc i) (Suc c) (if c = 0 then i else st)"
proof -
  have "\<not> run_free u s count" if s: "s + count \<le> Suc i" "Suc c < count \<or> s < b" for s
  proof
    assume run: "run_free u s count"
    then have "\<not> s + count \<le> i" using inv assms(3) by (auto simp: scan_inv_def)
    with s have sc: "s + count = Suc i" by simp
    with s inv have "s < b" by (auto simp: scan_inv_def)
    with sc inv have "s \<le> b - 1" and "b - 1 < s + count" and "0 < b"
      by (auto simp: scan_inv_def)
    with run inv show False by (auto simp: scan_inv_def run_free_def)
  qed
  moreover have "run_free u b (Suc c)"
    using inv assms(4) by (auto simp: scan_inv_def run_free_def less_Suc_eq)
  ultimately show ?thesis using inv assms(3) by (auto simp: scan_inv_def)
qed

lemma alloc_scan_spec:
  assumes "0 < count" and "scan_inv u count b i c st"
    and "alloc_scan u count n i c st = (c', st')"
  shows "scan_result u count (i + n) c' st'"
  using assms
proof (induction n arbitrary: i c st b)
  case 0
  then show ?case using scan_inv_stop [of count u b i c st i] by simp
next
  case (Suc n)
  show ?case
  proof (cases "c < count")
    case False
    with Suc.prems have "c = count" and "c' = c" and "st' = st" by (auto simp: scan_inv_def)
    then show ?thesis using scan_inv_stop [of count u b i c st "i + Suc n"] Suc.prems by simp
  next
    case True
    show ?thesis
    proof (cases "u i")
      case True
      with \<open>c < count\<close> Suc.prems(3) have "alloc_scan u count n (Suc i) 0 st = (c', st')" by simp
      from Suc.IH [OF Suc.prems(1) scan_inv_used [OF Suc.prems(1,2) \<open>c < count\<close> True] this]
      show ?thesis by simp
    next
      case False
      with \<open>c < count\<close> Suc.prems(3)
      have "alloc_scan u count n (Suc i) (Suc c) (if c = 0 then i else st) = (c', st')" by simp
      from Suc.IH [OF Suc.prems(1) scan_inv_clear [OF Suc.prems(1,2) \<open>c < count\<close> False] this]
      show ?thesis by simp
    qed
  qed
qed

lemma alloc_scan_result:
  assumes "0 < count" and "alloc_scan u count n 0 0 0 = (c, st)"
  shows "scan_result u count n c st"
proof -
  have "scan_inv u count 0 0 0 0" using assms(1) by (auto simp: scan_inv_def run_free_def)
  from alloc_scan_spec [OF assms(1) this assms(2)] show ?thesis by simp
qed

section \<open>Well-formedness\<close>

text \<open>
  The bits initialised by \<open>pmm_init_with_range\<close> are those of whole bytes, so up to seven bits
  above \<open>max_frames\<close> belong to the managed range. A state is well formed when the counter
  \<open>free_frames\<close> is the number of clear bits in the managed range and no bit above it is set.
\<close>

abbreviation frame_used :: "pmm \<Rightarrow> nat \<Rightarrow> bool" where
  "frame_used p \<equiv> pmm_test_bit (frame_bitmap p)"

definition managed_frames :: "pmm \<Rightarrow> nat" where
  "managed_frames p = 8 * ((unat (max_frames p) + 7) div 8)"

definition pmm_wf :: "pmm \<Rightarrow> bool" where
  "pmm_wf p \<longleftrightarrow>
     unat (max_frames p) \<le> 8388608 \<and>
     unat (usable_max_frame p) \<le> unat (max_frames p) \<and>
     unat (free_frames p) = card {j. j < managed_frames p \<and> \<not> frame_used p j} \<and>
     (\<forall>j. managed_frames p \<le> j \<longrightarrow> \<not> frame_used p j)"

lemma max_le_managed: "unat (max_frames p) \<le> managed_frames p"
  unfolding managed_frames_def by linarith

lemma managed_bound: "pmm_wf p \<Longrightarrow> managed_frames p \<le> 8388608"
  using div_le_mono [of "unat (max_frames p) + 7" "8388608 + 7" 8]
  unfolding pmm_wf_def managed_frames_def by simp

lemma card_free_le: "card {j. j < (N::nat) \<and> P j} \<le> N"
  using card_mono [of "{..<N}" "{j. j < N \<and> P j}"] by (auto simp: subset_iff)

lemma pmm_alloc_frames_cases:
  assumes "pmm_alloc_frames count out_ok p = (r, p')"
  obtains (bad) "count = 0 \<or> \<not> out_ok" "r = Inl HIC_ERROR_INVALID_PARAM" "p' = p"
  | (full) "count \<noteq> 0" "out_ok" "r = Inl HIC_ERROR_NO_MEMORY" "p' = p"
      "\<forall>s. s + unat count \<le> unat (usable_max_frame p) \<longrightarrow> \<not> run_free (frame_used p) s (unat count)"
  | (ok) start where "count \<noteq> 0" "out_ok" "r = Inr (of_nat start * PAGE_SIZE)"
      "run_free (frame_used p) start (unat count)"
      "start + unat count \<le> unat (usable_max_frame p)"
      "\<forall>s. s < start \<longrightarrow> \<not> run_free (frame_used p) s (unat count)"
      "p' = p\<lparr> frame_bitmap := for_range pmm_set_bit start (unat count) (frame_bitmap p),
               free_frames := free_frames p - ucast count,
               g_used_memory := g_used_memory p + frames_to_bytes count \<rparr>"
proof (cases "count = 0 \<or> \<not> out_ok")
  case True
  then show ?thesis using assms bad by (auto simp: pmm_alloc_frames_def)
next
  case False
  then have pos: "0 < unat count" by (simp add: unat_gt_0)
  obtain c st where scan: "alloc_scan (frame_used p) (unat count) (unat (usable_max_frame p)) 0 0 0 = (c, st)"
    by fastforce
  have res: "scan_result (frame_used p) (unat count) (unat (usable_max_frame p)) c st"
    by (rule alloc_scan_result [OF pos scan])
  show ?thesis
  proof (cases "c < unat count")
    case True
    then show ?thesis using False assms res scan full
      by (auto simp: pmm_alloc_frames_def scan_result_def)
  next
    case False2: False
    then show ?thesis using False assms res scan ok [of st]
      by (auto simp: pmm_alloc_frames_def scan_result_def)
  qed
qed

lemma unat_u64_diff_count:
  fixes x :: u64 and c :: u32
  assumes "unat c \<le> unat x"
  shows "unat (x - ucast c) = unat x - unat c"
  using assms by (simp add: unat_sub word_le_nat_alt)

lemma pmm_alloc_frames_wf:
  assumes "pmm_wf p" and "pmm_alloc_frames count out_ok p = (r, p')"
  shows "pmm_wf p'"
  using assms(2)
proof (cases rule: pmm_alloc_frames_cases)
  case (ok start)
  let ?n = "unat count"
  have range: "start + ?n \<le> managed_frames p"
    using ok(5) assms(1) max_le_managed [of p] unfolding pmm_wf_def by linarith
  have clear: "\<not> frame_used p j" if "start \<le> j" and "j < start + ?n" for j
    using ok(4) that by (auto simp: run_free_def)
  have card: "card {j. j < managed_frames p \<and> \<not> pmm_test_bit (for_range pmm_set_bit start ?n (frame_bitmap p)) j} + ?n
      = unat (free_frames p)"
    using fb.card_clear_after_st_range [OF clear range] assms(1) by (simp add: pmm_wf_def)
  moreover have "managed_frames p' = managed_frames p" using ok(7) by (simp add: managed_frames_def)
  moreover from card have "?n \<le> unat (free_frames p)" by simp
  ultimately show ?thesis
    using ok(7) assms(1) range
    by (auto simp: pmm_wf_def unat_u64_diff_count fb.tst_st_range)
qed (use assms(1) in simp_all)

lemma pmm_free_frames_okD:
  assumes "pmm_free_frames addr count p = (Inr u, p')"
  shows "unat (addr div PAGE_SIZE) < unat (max_frames p)" and "count \<noteq> 0"
    and "\<And>j. unat (addr div PAGE_SIZE) \<le> j \<Longrightarrow> j < unat (addr div PAGE_SIZE) + unat count \<Longrightarrow>
           frame_used p j \<and> j < 8388608"
    and "p' = p\<lparr> frame_bitmap := for_range pmm_clear_bit (unat (addr div PAGE_SIZE)) (unat count) (frame_bitmap p),
                 free_frames := free_frames p + ucast count,
                 g_used_memory := g_used_memory p - frames_to_bytes count \<rparr>"
proof -
  let ?s = "unat (addr div PAGE_SIZE)"
  let ?P = "\<lambda>i. ?s + i \<ge> unat max_supported_frames \<or> \<not> frame_used p (?s + i)"
  have ff: "find_first ?P 0 (unat count) = None"
    using assms by (auto simp: pmm_free_frames_def Let_def split: if_splits option.splits)
  then show "frame_used p j \<and> j < 8388608" if "?s \<le> j" and "j < ?s + unat count" for j
    using that by (auto simp: find_first_None_iff hic_consts dest!: spec [of _ "j - ?s"])
  show "unat (addr div PAGE_SIZE) < unat (max_frames p)" and "count \<noteq> 0"
    using assms by (auto simp: pmm_free_frames_def Let_def word_le_nat_alt not_le split: if_splits)
  show "p' = p\<lparr> frame_bitmap := for_range pmm_clear_bit ?s (unat count) (frame_bitmap p),
                 free_frames := free_frames p + ucast count,
                 g_used_memory := g_used_memory p - frames_to_bytes count \<rparr>"
    using assms ff by (auto simp: pmm_free_frames_def Let_def split: if_splits)
qed

lemma pmm_free_frames_errD:
  assumes "pmm_free_frames addr count p = (Inl e, p')"
  shows "e = HIC_ERROR_INVALID_PARAM" and "p' = p \<or> p' = p\<lparr> pmm_fault := True \<rparr>"
  using assms by (auto simp: pmm_free_frames_def Let_def split: if_splits option.splits)

lemma pmm_wf_fault [simp]: "pmm_wf (p\<lparr> pmm_fault := b \<rparr>) = pmm_wf p"
  by (simp add: pmm_wf_def managed_frames_def)

lemma pmm_free_frames_wf:
  assumes "pmm_wf p" and "pmm_free_frames addr count p = (r, p')"
  shows "pmm_wf p'"
proof (cases r)
  case (Inl e)
  then show ?thesis using assms pmm_free_frames_errD [of addr count p e p'] by auto
next
  case (Inr u)
  let ?s = "unat (addr div PAGE_SIZE)" and ?n = "unat count"
  note D = pmm_free_frames_okD [OF assms(2) [unfolded Inr]]
  have n: "0 < ?n" using D(2) by (simp add: unat_gt_0)
  have "frame_used p (?s + ?n - 1)"
    by (rule conjunct1 [OF D(3)]) (use n in linarith)+
  then have "\<not> managed_frames p \<le> ?s + ?n - 1" using assms(1) by (auto simp: pmm_wf_def)
  then have range: "?s + ?n \<le> managed_frames p" by linarith
  have used: "frame_used p j" if "?s \<le> j" and "j < ?s + ?n" for j
    using D(3) [OF that] by simp
  have card: "card {j. j < managed_frames p \<and> \<not> pmm_test_bit (for_range pmm_clear_bit ?s ?n (frame_bitmap p)) j}
      = unat (free_frames p) + ?n"
    using fb.card_clear_after_cl_range [OF used range] assms(1) by (simp add: pmm_wf_def)
  moreover have "\<dots> \<le> 8388608"
    using card_free_le [of "managed_frames p"] managed_bound [OF assms(1)] card by (metis le_trans)
  ultimately have "unat (free_frames p + ucast count) = unat (free_frames p) + ?n"
    by (simp add: unat_word_ariths)
  moreover have "managed_frames p' = managed_frames p" using D(4) by (simp add: managed_frames_def)
  ultimately show ?thesis
    using D(4) assms(1) card range by (auto simp: pmm_wf_def fb.tst_cl_range)
qed

lemma pmm_free_frames_succeeds:
  assumes wf: "pmm_wf p" and "count \<noteq> 0" and start: "start + unat count \<le> unat (max_frames p)"
    and used: "\<And>j. start \<le> j \<Longrightarrow> j < start + unat count \<Longrightarrow> frame_used p j"
  shows "\<exists>p'. pmm_free_frames (of_nat start * PAGE_SIZE) count p = (Inr (), p')"
proof -
  from assms(2) have n: "0 < unat count" by (simp add: unat_gt_0)
  have b: "start + unat count \<le> 8388608" using wf start by (auto simp: pmm_wf_def)
  then have s: "unat (of_nat start * PAGE_SIZE div PAGE_SIZE) = start"
    by (intro frame_of_addr) simp
  have none: "find_first (\<lambda>i. start + i \<ge> unat max_supported_frames \<or> \<not> frame_used p (start + i)) 0 (unat count) = None"
    using used b by (auto simp: find_first_None_iff hic_consts)
  have "\<not> of_nat start * PAGE_SIZE div PAGE_SIZE \<ge> max_frames p"
    using s start n by (simp add: word_le_nat_alt)
  then show ?thesis using none assms(2) s by (simp add: pmm_free_frames_def Let_def)
qed

section \<open>Initialisation, regions and reservation keep the counter exact\<close>

lemma pmm_init_with_range_wf: "pmm_wf (pmm_init_with_range max_phys_addr p)"
proof -
  let ?p = "pmm_init_with_range max_phys_addr p"
  have le: "max_frames ?p \<le> 8388608"
    by (auto simp: pmm_init_with_range_def Let_def hic_consts not_less)
  have bs: "unat ((max_frames ?p + 7) div 8) = (unat (max_frames ?p) + 7) div 8"
  proof -
    have "unat (max_frames ?p + 7) = unat (max_frames ?p) + 7"
      using le by (simp add: unat_word_ariths word_le_nat_alt)
    then show ?thesis by (simp add: unat_div_distrib)
  qed
  have bm: "frame_bitmap ?p i = (if i < (unat (max_frames ?p) + 7) div 8 then 0xFF else 0)" for i
    unfolding bs [symmetric] by (simp add: pmm_init_with_range_def Let_def)
  have used: "frame_used ?p j \<longleftrightarrow> j < managed_frames ?p" for j
  proof -
    have "j div 8 < (unat (max_frames ?p) + 7) div 8 \<longleftrightarrow> j < managed_frames ?p"
      by (simp add: managed_frames_def div_less_iff_less_mult mult.commute)
    moreover have "bit (0xFF :: u8) (j mod 8)"
      by (simp add: bit_mask_iff mask_eq_exp_minus_1 [of 8, where 'a = u8, simplified, symmetric])
    ultimately show ?thesis
      using warr_test_iff_bit [of "frame_bitmap ?p" j]
      by (simp add: pmm_test_bit_def warr_test_def bm)
  qed
  have zero: "free_frames ?p = 0" "usable_max_frame ?p = 0"
    by (simp_all add: pmm_init_with_range_def Let_def)
  show ?thesis using le used zero by (simp add: pmm_wf_def word_le_nat_alt)
qed

lemma clip_frames:
  fixes sf m n :: u64
  assumes "unat sf < unat m" and "0 < unat n" and "unat sf + unat n < 2 ^ 64"
    and "nf = (if sf + n > m then m - sf else n)"
  shows "0 < unat nf" and "unat sf + unat nf \<le> unat m"
proof -
  have add: "unat (sf + n) = unat sf + unat n" using assms(3) by (simp add: unat_word_ariths)
  have sub: "unat (m - sf) = unat m - unat sf" using assms(1) by (simp add: unat_sub word_le_nat_alt)
  show "0 < unat nf" and "unat sf + unat nf \<le> unat m"
    using assms add sub by (auto simp: word_less_nat_alt)
qed

definition region_first :: "u64 \<Rightarrow> nat" where
  "region_first base = Suc (unat (PAGE_ALIGN base) div 4096)"

lemma pmm_add_region_okD:
  assumes "pmm_add_region base sz p = (Inr u, p')" and wf: "unat (max_frames p) \<le> 8388608"
  obtains n where "region_first base + n \<le> unat (max_frames p)"
    "frame_bitmap p' = for_range pmm_clear_bit (region_first base) n (frame_bitmap p)"
    "free_frames p' = free_frames p + of_nat n"
    "total_frames p' = total_frames p + of_nat n"
    "max_frames p' = max_frames p"
    "unat (usable_max_frame p') = max (unat (usable_max_frame p)) (region_first base + n)"
proof -
  define ab where "ab = PAGE_ALIGN base"
  define as where "as = (sz - (ab - base)) AND NOT (PAGE_SIZE - 1)"
  define sf where "sf = ab div PAGE_SIZE"
  define nf where "nf = (if sf + as div PAGE_SIZE > max_frames p then max_frames p - sf else as div PAGE_SIZE)"
  note ab = ab_def [unfolded PAGE_ALIGN_def, symmetric]
  have dp: "(sizeof_mem_region + PAGE_SIZE - 1) div PAGE_SIZE = 1" by (simp add: hic_consts)
  note D = assms(1) [unfolded pmm_add_region_def Let_def dp ab as_def [symmetric], folded sf_def, folded nf_def]
  have "\<not> as < PAGE_SIZE" and "\<not> sf \<ge> max_frames p" using D by (auto split: if_splits)
  then have as: "4096 \<le> unat as" and sf: "unat sf < unat (max_frames p)"
    by (simp_all add: word_le_nat_alt word_less_nat_alt)
  have p': "frame_bitmap p' = for_range pmm_clear_bit (unat (sf + 1)) (unat (nf - 1)) (frame_bitmap p)"
    "free_frames p' = free_frames p + (nf - 1)" "total_frames p' = total_frames p + (nf - 1)"
    "max_frames p' = max_frames p"
    "usable_max_frame p' = (if sf + 1 + (nf - 1) > usable_max_frame p then sf + 1 + (nf - 1) else usable_max_frame p)"
    using D by (auto split: if_splits)
  have q: "0 < unat (as div PAGE_SIZE)" using as by (simp add: unat_div_page div_greater_zero_iff)
  have "unat sf + unat (as div PAGE_SIZE) < 2 ^ 64"
    using unat_div_page' [of as] unat_div_page' [of ab] unfolding sf_def by simp
  note clip = clip_frames [OF sf q this nf_def]
  have nf: "unat (nf - 1) = unat nf - 1" using clip(1) by (simp add: unat_minus_one unat_gt_0)
  have "unat (sf + 1) = unat sf + 1" using sf wf by (simp add: unat_word_ariths)
  then have s1: "unat (sf + 1) = region_first base"
    by (simp add: region_first_def sf_def ab_def unat_div_page)
  have bnd: "unat (sf + 1) + unat (nf - 1) \<le> unat (max_frames p)" using clip nf sf wf by (simp add: unat_word_ariths)
  then have e: "unat (sf + 1 + (nf - 1)) = region_first base + unat (nf - 1)"
    using wf s1 by (simp only: unat_word_ariths(1)[of "sf+1" "nf - 1"]) simp
  show ?thesis
  proof (rule that)
    show "region_first base + unat (nf - 1) \<le> unat (max_frames p)" using bnd s1 by simp
    show "unat (usable_max_frame p') = max (unat (usable_max_frame p)) (region_first base + unat (nf - 1))"
      unfolding p' using e by (auto simp: word_less_nat_alt max_def)
  qed (simp_all add: p' s1)
qed

lemma pmm_add_region_errD:
  "pmm_add_region base sz p = (Inl e, p') \<Longrightarrow> e = HIC_ERROR_INVALID_PARAM \<and> p' = p"
  by (auto simp: pmm_add_region_def Let_def split: if_splits)

lemma pmm_add_region_wf:
  assumes wf: "pmm_wf p" and "pmm_add_region base sz p = (r, p')"
    and used: "\<And>j. region_first base \<le> j \<Longrightarrow> j < unat (usable_max_frame p') \<Longrightarrow> frame_used p j"
  shows "pmm_wf p'"
proof (cases r)
  case (Inl e)
  then show ?thesis using assms pmm_add_region_errD [of base sz p e p'] by auto
next
  case (Inr u)
  from wf have m: "unat (max_frames p) \<le> 8388608" by (simp add: pmm_wf_def)
  from assms(2) [unfolded Inr] m obtain n where D: "region_first base + n \<le> unat (max_frames p)"
    "frame_bitmap p' = for_range pmm_clear_bit (region_first base) n (frame_bitmap p)"
    "free_frames p' = free_frames p + of_nat n"
    "total_frames p' = total_frames p + of_nat n"
    "max_frames p' = max_frames p"
    "unat (usable_max_frame p') = max (unat (usable_max_frame p)) (region_first base + n)"
    by (rule pmm_add_region_okD)
  let ?s = "region_first base"
  have range: "?s + n \<le> managed_frames p" using D(1) max_le_managed [of p] by linarith
  have u: "frame_used p j" if "?s \<le> j" "j < ?s + n" for j using used [OF that(1)] that(2) D(6) by simp
  have card: "card {j. j < managed_frames p \<and> \<not> pmm_test_bit (frame_bitmap p') j} = unat (free_frames p) + n"
    using fb.card_clear_after_cl_range [OF u range] wf D(2) by (simp add: pmm_wf_def)
  moreover have "\<dots> \<le> 8388608"
    using card_free_le [of "managed_frames p"] managed_bound [OF wf] card by (metis le_trans)
  ultimately have "unat (free_frames p + of_nat n) = unat (free_frames p) + n"
    by (simp add: unat_word_ariths unat_of_nat)
  moreover have "managed_frames p' = managed_frames p" using D(5) by (simp add: managed_frames_def)
  ultimately show ?thesis
    using D wf card range by (auto simp: pmm_wf_def fb.tst_cl_range)
qed


section \<open>Reservation\<close>

lemma mark_frame_used_simps [simp]:
  "max_frames (mark_frame_used i p) = max_frames p"
  "usable_max_frame (mark_frame_used i p) = usable_max_frame p"
  "total_frames (mark_frame_used i p) = total_frames p"
  by (simp_all add: mark_frame_used_def)

lemma mark_frame_used_used:
  "frame_used (mark_frame_used i p) j \<longleftrightarrow> frame_used p j \<or> (j = i \<and> i < unat (max_frames p))"
  by (auto simp: mark_frame_used_def fb.tst_st)


lemma for_range_mark_frame_used:
  "max_frames (for_range mark_frame_used s n p) = max_frames p \<and>
   usable_max_frame (for_range mark_frame_used s n p) = usable_max_frame p \<and>
   (frame_used (for_range mark_frame_used s n p) j \<longleftrightarrow>
     frame_used p j \<or> (s \<le> j \<and> j < s + n \<and> j < unat (max_frames p)))"
  by (induction n arbitrary: s p) (auto simp: mark_frame_used_used)


lemma pmm_mark_used_frames:
  "frame_used (pmm_mark_used base sz p) j \<longleftrightarrow>
     frame_used p j \<or>
     (unat (PAGE_ALIGN base) div 4096 \<le> j \<and> j < unat (PAGE_ALIGN (base + sz)) div 4096 \<and>
      j < unat (max_frames p))"
  by (auto simp: pmm_mark_used_def Let_def for_range_mark_frame_used unat_div_page)

section \<open>Scattered allocation\<close>

lemma scatter_scan_spec:
  assumes "scatter_scan count n i bm pages = (bm', pages')" and "length pages \<le> count"
  shows "\<exists>js. pages' = pages @ map frame_addr js \<and> sorted_wrt (<) js \<and>
     set js \<subseteq> {i..<i + n} \<and> length pages' \<le> count \<and>
     (\<forall>j\<in>set js. \<not> pmm_test_bit bm j) \<and>
     (\<forall>j. pmm_test_bit bm' j \<longleftrightarrow> pmm_test_bit bm j \<or> j \<in> set js) \<and>
     (length pages' < count \<longrightarrow> (\<forall>j. i \<le> j \<longrightarrow> j < i + n \<longrightarrow> pmm_test_bit bm' j))"
  using assms
proof (induction n arbitrary: i bm pages)
  case 0
  then show ?case by auto
next
  case (Suc n)
  consider (stop) "\<not> length pages < count" | (used) "length pages < count" "pmm_test_bit bm i"
    | (free) "length pages < count" "\<not> pmm_test_bit bm i" by auto
  then show ?case
  proof cases
    case stop
    then show ?thesis using Suc.prems by (intro exI [of _ "[]"]) auto
  next
    case used
    with Suc.prems Suc.IH [of "Suc i" bm pages] obtain js where
      "pages' = pages @ map frame_addr js" "sorted_wrt (<) js" "set js \<subseteq> {Suc i..<Suc i + n}"
      "length pages' \<le> count" "\<forall>j\<in>set js. \<not> pmm_test_bit bm j"
      "\<forall>j. pmm_test_bit bm' j \<longleftrightarrow> pmm_test_bit bm j \<or> j \<in> set js"
      "length pages' < count \<longrightarrow> (\<forall>j. Suc i \<le> j \<longrightarrow> j < Suc i + n \<longrightarrow> pmm_test_bit bm' j)"
      by auto
    note js = this
    show ?thesis
    proof (intro exI [of _ js] conjI allI impI)
      fix j assume "length pages' < count" and "i \<le> j" and "j < i + Suc n"
      then show "pmm_test_bit bm' j" using js(6,7) used(2) by (cases "j = i") simp_all
    next
      show "set js \<subseteq> {i..<i + Suc n}" using js(3) by auto
    qed (use js in simp_all)
  next
    case free
    with Suc.prems Suc.IH [of "Suc i" "pmm_set_bit i bm" "pages @ [frame_addr i]"] obtain js where
      "pages' = (pages @ [frame_addr i]) @ map frame_addr js" "sorted_wrt (<) js"
      "set js \<subseteq> {Suc i..<Suc i + n}"
      "length pages' \<le> count" "\<forall>j\<in>set js. \<not> pmm_test_bit (pmm_set_bit i bm) j"
      "\<forall>j. pmm_test_bit bm' j \<longleftrightarrow> pmm_test_bit (pmm_set_bit i bm) j \<or> j \<in> set js"
      "length pages' < count \<longrightarrow> (\<forall>j. Suc i \<le> j \<longrightarrow> j < Suc i + n \<longrightarrow> pmm_test_bit bm' j)"
      by auto
    note js = this
    show ?thesis
    proof (intro exI [of _ "i # js"] conjI allI impI)
      fix j assume "length pages' < count" and "i \<le> j" and "j < i + Suc n"
      then show "pmm_test_bit bm' j" using js(6,7) by (cases "j = i") (simp_all add: fb.tst_st)
    next
      show "set (i # js) \<subseteq> {i..<i + Suc n}" using js(3) by auto
      show "sorted_wrt (<) (i # js)" using js(2,3) by auto
    qed (use js free in \<open>auto simp: fb.tst_st\<close>)
  qed
qed

lemma fold_clear_frames:
  assumes "\<forall>j\<in>set js. j < 2 ^ 52"
  shows "pmm_test_bit (fold (\<lambda>a. pmm_clear_bit (unat (a div PAGE_SIZE))) (map frame_addr js) bm) j
     \<longleftrightarrow> j \<notin> set js \<and> pmm_test_bit bm j"
  using assms by (induction js arbitrary: bm) (auto simp: fb.tst_cl)

lemma pmm_alloc_scattered_cases:
  assumes "pmm_alloc_scattered count pages_ok p = (r, p')" and wf: "pmm_wf p"
  obtains (err) e where "r = Inl e" "p' = p\<lparr> frame_bitmap := frame_bitmap p' \<rparr>"
      "\<And>j. frame_used p' j \<longleftrightarrow> frame_used p j"
  | (ok) js where "count \<noteq> 0" "pages_ok" "r = Inr (map frame_addr js)" "length js = unat count"
      "sorted_wrt (<) js" "\<And>j. j \<in> set js \<Longrightarrow> j < unat (usable_max_frame p) \<and> \<not> frame_used p j"
      "p' = p\<lparr> frame_bitmap := frame_bitmap p', free_frames := free_frames p - ucast count,
                 g_used_memory := g_used_memory p + frames_to_bytes count \<rparr>"
      "\<And>j. frame_used p' j \<longleftrightarrow> frame_used p j \<or> j \<in> set js"
proof (cases "count = 0 \<or> \<not> pages_ok \<or> free_frames p < ucast count")
  case True
  then obtain e where "r = Inl e" and "p' = p"
    using assms(1) by (auto simp: pmm_alloc_scattered_def split: if_splits)
  then show ?thesis using err by simp
next
  case False
  obtain bm pages where scan:
    "scatter_scan (unat count) (unat (usable_max_frame p)) 0 (frame_bitmap p) [] = (bm, pages)"
    by fastforce
  from scatter_scan_spec [OF this] obtain js where
    js: "pages = map frame_addr js" "sorted_wrt (<) js" "set js \<subseteq> {0..<unat (usable_max_frame p)}"
      "length pages \<le> unat count" "\<forall>j\<in>set js. \<not> frame_used p j"
      "\<forall>j. pmm_test_bit bm j \<longleftrightarrow> frame_used p j \<or> j \<in> set js"
    by auto
  have bound: "\<forall>j\<in>set js. j < 2 ^ 52" using js(3) wf by (auto simp: pmm_wf_def)
  show ?thesis
  proof (cases "length pages < unat count")
    case True
    with False scan assms(1) have "r = Inl HIC_ERROR_NO_MEMORY"
      "p' = p\<lparr> frame_bitmap := fold (\<lambda>a. pmm_clear_bit (unat (a div PAGE_SIZE))) pages bm \<rparr>"
      by (auto simp: pmm_alloc_scattered_def)
    then show ?thesis using js(5,6) fold_clear_frames [OF bound] unfolding js(1) by (intro err) auto
  next
    case False2: False
    with False scan assms(1) have "r = Inr pages"
      "p' = p\<lparr> frame_bitmap := bm, free_frames := free_frames p - ucast count,
              g_used_memory := g_used_memory p + frames_to_bytes count \<rparr>"
      by (auto simp: pmm_alloc_scattered_def)
    then show ?thesis using js False False2 by (intro ok) auto
  qed
qed

lemma pmm_alloc_scattered_wf:
  assumes wf: "pmm_wf p" and "pmm_alloc_scattered count pages_ok p = (r, p')"
  shows "pmm_wf p'"
  using assms(2) wf
proof (cases rule: pmm_alloc_scattered_cases)
  case (err e)
  have "managed_frames p' = managed_frames p" "max_frames p' = max_frames p"
    "usable_max_frame p' = usable_max_frame p" "free_frames p' = free_frames p"
    by (subst err(2), simp add: managed_frames_def)+
  then show ?thesis using wf err(3) by (simp add: pmm_wf_def)
next
  case (ok js)
  have eqs: "managed_frames p' = managed_frames p" "max_frames p' = max_frames p"
    "usable_max_frame p' = usable_max_frame p" "free_frames p' = free_frames p - ucast count"
    by (subst ok(7), simp add: managed_frames_def)+
  let ?F = "{j. j < managed_frames p \<and> \<not> frame_used p j}"
  have lt: "j < managed_frames p" if "j \<in> set js" for j
    using ok(6) [OF that] wf max_le_managed [of p] unfolding pmm_wf_def by linarith
  have sub: "set js \<subseteq> ?F" using ok(6) lt by auto
  have crd: "card (set js) = unat count"
    using ok(4,5) by (simp add: distinct_card strict_sorted_iff)
  have "{j. j < managed_frames p \<and> \<not> frame_used p' j} = ?F - set js" using ok(8) by auto
  then have "card {j. j < managed_frames p \<and> \<not> frame_used p' j} = unat (free_frames p) - unat count"
    using sub crd wf by (simp add: card_Diff_subset pmm_wf_def)
  moreover have "unat count \<le> unat (free_frames p)"
    using card_mono [OF _ sub] crd wf by (simp add: pmm_wf_def)
  ultimately show ?thesis
    using wf eqs ok(8) by (auto simp: pmm_wf_def unat_u64_diff_count dest!: lt)
qed

section \<open>The allocator contract\<close>

definition frame_busy :: "pmm \<Rightarrow> nat \<Rightarrow> bool" where
  "frame_busy p j \<longleftrightarrow> j < unat (max_frames p) \<and> frame_used p j"

lemma frames_at_frame_addr:
  assumes "start < 2 ^ 52"
  shows "frames_at (frame_addr start) n = {start..<start + unat n}"
  using unat_frame_addr [OF assms] by (simp add: frames_at_def)

lemma pmm_alloc_frames_okD:
  assumes wf: "pmm_wf p" and "pmm_alloc_frames count out_ok p = (Inr a, p')"
  shows "count \<noteq> 0" and "max_frames p' = max_frames p"
    and "usable_max_frame p' = usable_max_frame p"
    and "j \<in> frames_at a count \<Longrightarrow> \<not> frame_used p j \<and> j < unat (usable_max_frame p)"
    and "frame_used p' j \<longleftrightarrow> frame_used p j \<or> j \<in> frames_at a count"
proof -
  from assms(2) obtain start where ok: "count \<noteq> 0" "a = frame_addr start"
      "run_free (frame_used p) start (unat count)" "start + unat count \<le> unat (usable_max_frame p)"
      "p' = p\<lparr> frame_bitmap := for_range pmm_set_bit start (unat count) (frame_bitmap p),
               free_frames := free_frames p - ucast count,
               g_used_memory := g_used_memory p + frames_to_bytes count \<rparr>"
    by (cases rule: pmm_alloc_frames_cases) auto
  have "start < 2 ^ 52" using ok(4) wf by (auto simp: pmm_wf_def)
  note fr = frames_at_frame_addr [OF this]
  show "count \<noteq> 0" by (fact ok(1))
  show "max_frames p' = max_frames p" "usable_max_frame p' = usable_max_frame p" using ok(5) by simp_all
  show "j \<in> frames_at a count \<Longrightarrow> \<not> frame_used p j \<and> j < unat (usable_max_frame p)"
    using ok(2-4) fr by (auto simp: run_free_def)
  show "frame_used p' j \<longleftrightarrow> frame_used p j \<or> j \<in> frames_at a count"
    using ok(2,5) fr by (auto simp: fb.tst_st_range)
qed

lemma pmm_free_frames_used:
  assumes "pmm_free_frames a n p = (Inr u, p')"
  shows "frame_used p' j \<longleftrightarrow> frame_used p j \<and> j \<notin> frames_at a n"
    and "j \<in> frames_at a n \<Longrightarrow> frame_used p j"
    and "max_frames p' = max_frames p" and "usable_max_frame p' = usable_max_frame p"
proof -
  note D = pmm_free_frames_okD [OF assms, unfolded unat_div_page]
  show "frame_used p' j \<longleftrightarrow> frame_used p j \<and> j \<notin> frames_at a n"
    unfolding D(4) by (auto simp: fb.tst_cl_range frames_at_def)
  show "j \<in> frames_at a n \<Longrightarrow> frame_used p j" using D(3) by (auto simp: frames_at_def)
  show "max_frames p' = max_frames p" "usable_max_frame p' = usable_max_frame p"
    unfolding D(4) by simp_all
qed

lemma pmm_free_frames_total:
  assumes wf: "pmm_wf p" and "n \<noteq> 0" and busy: "\<And>j. j \<in> frames_at a n \<Longrightarrow> frame_busy p j"
  shows "\<exists>p'. pmm_free_frames a n p = (Inr (), p')"
proof -
  let ?s = "unat a div 4096"
  have n: "0 < unat n" using assms(2) by (simp add: unat_gt_0)
  have b: "frame_busy p j" if "?s \<le> j" "j < ?s + unat n" for j
    using that busy by (auto simp: frames_at_def)
  have m: "unat (max_frames p) \<le> 8388608" using wf by (simp add: pmm_wf_def)
  have s: "?s < unat (max_frames p)" using b [of ?s] n by (simp add: frame_busy_def)
  have in_range: "?s + i < 8388608 \<and> frame_used p (?s + i)" if "i < unat n" for i
    using b [of "?s + i"] that m by (simp add: frame_busy_def)
  have "find_first (\<lambda>i. ?s + i \<ge> unat max_supported_frames \<or> \<not> frame_used p (?s + i)) 0 (unat n) = None"
    using in_range by (auto simp: find_first_None_iff hic_consts not_le)
  then show ?thesis
    using s assms(2) by (simp add: pmm_free_frames_def Let_def unat_div_page word_le_nat_alt)
qed

interpretation pmm: frame_allocator "\<lambda>n. pmm_alloc_frames n True" pmm_free_frames frame_busy pmm_wf
proof unfold_locales
  fix p p' :: pmm and n :: u32 and a :: u64 and j :: nat and e and u :: unit
  assume wf: "pmm_wf p"
  { assume al: "pmm_alloc_frames n True p = (Inr a, p')"
    note D = pmm_alloc_frames_okD [OF wf al]
    show "pmm_wf p'" by (rule pmm_alloc_frames_wf [OF wf al])
    show "n \<noteq> 0" by (fact D(1))
    show "\<not> frame_busy p j" if "j \<in> frames_at a n" using D(4) [OF that] by (simp add: frame_busy_def)
    have "j < unat (max_frames p)" if "j \<in> frames_at a n"
      using D(4) [OF that] wf by (auto simp: pmm_wf_def)
    then show "frame_busy p' j \<longleftrightarrow> frame_busy p j \<or> j \<in> frames_at a n"
      using D(2,5) by (auto simp: frame_busy_def) }
  { assume fr: "pmm_free_frames a n p = (Inr u, p')"
    show "pmm_wf p'" by (rule pmm_free_frames_wf [OF wf fr])
    show "frame_busy p' j \<longleftrightarrow> frame_busy p j \<and> j \<notin> frames_at a n"
      using pmm_free_frames_used [OF fr] by (auto simp: frame_busy_def) }
  assume "n \<noteq> 0" and "\<And>j. j \<in> frames_at a n \<Longrightarrow> frame_busy p j"
  then show "\<exists>p'. pmm_free_frames a n p = (Inr (), p')" using wf by (intro pmm_free_frames_total)
next
  fix p p' :: pmm and n :: u32 and e
  assume "pmm_alloc_frames n True p = (Inl e, p')"
  then show "p' = p" by (cases rule: pmm_alloc_frames_cases) auto
qed

section \<open>Histories of the allocator\<close>


















section \<open>Properties\<close>

text \<open>The bitmap is determined by its bits.\<close>

lemma bitmap_ext:
  assumes "\<And>j. pmm_test_bit a j \<longleftrightarrow> pmm_test_bit b j"
  shows "a = b"
proof
  fix i
  have "bit (a i) n = bit (b i) n" if "n < 8" for n
    using assms [of "8 * i + n"] that warr_test_iff_bit [of a "8 * i + n"] warr_test_iff_bit [of b "8 * i + n"]
    by (simp add: pmm_test_bit_def warr_test_def)
  then show "a i = b i" by (intro bit_word_eqI) simp
qed

text \<open>
  A small machine for the examples: sixteen frames registered as one region, whose first frame
  holds the region descriptor.
\<close>

definition pmm_zero :: pmm where
  "pmm_zero = \<lparr> frame_bitmap = (\<lambda>_. 0), max_frames = 0, usable_max_frame = 0, total_frames = 0,
     free_frames = 0, mem_regions = [], g_total_memory = 0, g_used_memory = 0, pmm_fault = False \<rparr>"

definition pmm_booted :: pmm where
  "pmm_booted = pmm_init_with_range 0x10000 pmm_zero"

definition pmm_small :: pmm where
  "pmm_small = snd (pmm_add_region 0 0x10000 pmm_booted)"

lemma pmm_small_add: "pmm_add_region 0 0x10000 pmm_booted = (Inr (), pmm_small)"
proof -
  have "fst (pmm_add_region 0 0x10000 pmm_booted) = Inr ()" by code_simp
  then show ?thesis by (simp add: pmm_small_def prod_eq_iff)
qed

lemma pmm_small_alloc: "pmm_alloc_frames 3 True pmm_small = (Inr 0x1000, snd (pmm_alloc_frames 3 True pmm_small))"
proof -
  have "fst (pmm_alloc_frames 3 True pmm_small) = Inr 0x1000" by code_simp
  then show ?thesis by (simp add: prod_eq_iff)
qed

lemma pmm_booted_used: "j < 16 \<Longrightarrow> frame_used pmm_booted j"
proof -
  have "list_all (frame_used pmm_booted) [0..<16]" by code_simp
  then show "j < 16 \<Longrightarrow> frame_used pmm_booted j" by (auto simp: list_all_iff)
qed

lemma pmm_small_usable: "unat (usable_max_frame pmm_small) = 16" by code_simp

lemma pmm_small_wf: "pmm_wf pmm_small"
  using pmm_add_region_wf [OF _ pmm_small_add] pmm_booted_used pmm_small_usable pmm_init_with_range_wf
  by (auto simp: pmm_booted_def)




text \<open>
  C29. \<open>pmm_alloc_frames\<close> is a first-fit search below \<open>usable_max_frame\<close>: it returns the address
  of the lowest run of \<open>count\<close> clear frames and marks exactly that run, and it reports
  \<open>HIC_ERROR_NO_MEMORY\<close>, leaving the state unchanged, exactly when there is no such run.
\<close>

theorem pmm_alloc_frames_first_fit:
  assumes "count \<noteq> 0" and "pmm_alloc_frames count True p = (r, p')"
  shows "(case r of
      Inl e \<Rightarrow> e = HIC_ERROR_NO_MEMORY \<and> p' = p \<and>
        (\<forall>s. s + unat count \<le> unat (usable_max_frame p) \<longrightarrow> \<not> run_free (frame_used p) s (unat count))
    | Inr a \<Rightarrow> \<exists>start. a = frame_addr start \<and> run_free (frame_used p) start (unat count) \<and>
        start + unat count \<le> unat (usable_max_frame p) \<and>
        (\<forall>s. s < start \<longrightarrow> \<not> run_free (frame_used p) s (unat count)) \<and>
        (\<forall>j. frame_used p' j \<longleftrightarrow> frame_used p j \<or> (start \<le> j \<and> j < start + unat count)))"
  using assms(2)
proof (cases rule: pmm_alloc_frames_cases)
  case (ok start)
  then show ?thesis by (auto simp: fb.tst_st_range)
qed (use assms(1) in auto)

theorem pmm_alloc_frames_first_fit_witness:
  "\<exists>start. (0x1000 :: u64) = frame_addr start \<and> run_free (frame_used pmm_small) start 3"
  using pmm_alloc_frames_first_fit [OF _ pmm_small_alloc] by auto

lemma pmm_alloc_then_free:
  assumes "pmm_wf p" and "pmm_alloc_frames count True p = (Inr a, p')"
  shows "pmm_free_frames a count p' = (Inr (), p)"
proof -
  from pmm.alloc_release [OF assms] obtain p'' where fr: "pmm_free_frames a count p' = (Inr (), p'')"
    by auto
  note F = pmm_free_frames_okD(4) [OF fr]
  from assms(2) obtain start where p': "p' = p\<lparr> frame_bitmap := for_range pmm_set_bit start (unat count) (frame_bitmap p),
        free_frames := free_frames p - ucast count, g_used_memory := g_used_memory p + frames_to_bytes count \<rparr>"
    by (cases rule: pmm_alloc_frames_cases) auto
  have "frame_bitmap p'' = frame_bitmap p"
    using pmm_free_frames_used(1) [OF fr] pmm_alloc_frames_okD(4,5) [OF assms]
    by (intro bitmap_ext) blast
  then have "p'' = p" unfolding F p' by simp
  with fr show ?thesis by simp
qed

text \<open>
  C30. Releasing what was just allocated restores the whole state of the memory manager: bitmap,
  free counter and usage counter, for every request size.
\<close>

theorem pmm_alloc_free_roundtrip:
  assumes "pmm_wf p" and "pmm_alloc_frames count True p = (Inr a, p')"
  shows "pmm_free_frames a count p' = (Inr (), p)"
  by (rule pmm_alloc_then_free [OF assms])

theorem pmm_alloc_free_roundtrip_witness:
  "pmm_free_frames 0x1000 3 (snd (pmm_alloc_frames 3 True pmm_small)) = (Inr (), pmm_small)"
  by (rule pmm_alloc_free_roundtrip [OF pmm_small_wf pmm_small_alloc])

text \<open>
  \<open>pmm_alloc_scattered\<close> returns the addresses of \<open>count\<close> distinct frames, in increasing
  order, that were free and are marked afterwards, no other frame changing; on every error no
  frame changes, although the roll-back goes through the stored addresses. The free counter
  stays exact on every path.
\<close>

lemma pmm_alloc_scattered_spec:
  assumes "pmm_wf p" and "pmm_alloc_scattered count pages_ok p = (r, p')"
  shows "pmm_wf p' \<and> (case r of
      Inl e \<Rightarrow> (\<forall>j. frame_used p' j \<longleftrightarrow> frame_used p j)
    | Inr pages \<Rightarrow> \<exists>js. pages = map frame_addr js \<and> length js = unat count \<and> sorted_wrt (<) js \<and>
        (\<forall>j. j \<in> set js \<longrightarrow> j < unat (usable_max_frame p) \<and> \<not> frame_used p j) \<and>
        (\<forall>j. frame_used p' j \<longleftrightarrow> frame_used p j \<or> j \<in> set js))"
  using assms(2,1)
proof (cases rule: pmm_alloc_scattered_cases)
  case (ok js)
  then show ?thesis using pmm_alloc_scattered_wf [OF assms] by (auto intro!: exI [of _ js])
qed (use pmm_alloc_scattered_wf [OF assms] in auto)

lemma pmm_alloc_scattered_spec_witness:
  "fst (pmm_alloc_scattered 2 True pmm_small) = Inr [0x1000, 0x2000] \<and>
   pmm_wf (snd (pmm_alloc_scattered 2 True pmm_small))"
proof -
  have "fst (pmm_alloc_scattered 2 True pmm_small) = Inr [0x1000, 0x2000]" by code_simp
  then show ?thesis
    using pmm_alloc_scattered_spec [OF pmm_small_wf, of 2 True] by (metis prod.collapse)
qed

text \<open>
  \<open>pmm_mark_used\<close> marks exactly the addressable frames between the two rounded-up ends of
  the range. Because the start is rounded up, a range that
  begins inside a page leaves that page allocatable: \<open>[0x1800, 0x1900)\<close> reserves nothing.
\<close>

lemma pmm_mark_used_exact:
  "(\<forall>j. frame_used (pmm_mark_used base sz p) j \<longleftrightarrow>
      frame_used p j \<or>
      (unat (PAGE_ALIGN base) div 4096 \<le> j \<and> j < unat (PAGE_ALIGN (base + sz)) div 4096 \<and>
       j < unat (max_frames p))) \<and>
   pmm_mark_used 0x1800 0x100 p = p"
proof -
  have "pmm_mark_used 0x1800 0x100 p = p"
    by (simp add: pmm_mark_used_def PAGE_ALIGN_def hic_consts)
  then show ?thesis by (simp add: pmm_mark_used_frames)
qed

text \<open>
  The size left after alignment is computed as an unsigned difference. A region smaller
  than the distance to the next page boundary therefore wraps to almost the whole address
  space: registering the single byte at address 1 succeeds and frees every frame from 2 up to
  the end of the managed range, whatever was reserved or allocated there.
\<close>

lemma pmm_add_region_underflow:
  assumes "3 \<le> unat (max_frames p)" and "unat (max_frames p) \<le> 8388608"
  shows "\<exists>p'. pmm_add_region 1 1 p = (Inr (), p') \<and>
    (\<forall>j. frame_used p' j \<longleftrightarrow> frame_used p j \<and> \<not> (2 \<le> j \<and> j < unat (max_frames p)))"
proof -
  have m: "1 < max_frames p" "max_frames p < 4503599627370496"
    using assms by (simp_all add: word_less_nat_alt)
  have ab: "(1 + PAGE_SIZE - 1) AND NOT (PAGE_SIZE - 1) = PAGE_SIZE" by (simp add: hic_consts)
  have as: "(1 - (PAGE_SIZE - 1)) AND NOT (PAGE_SIZE - 1) = - PAGE_SIZE" by (simp add: hic_consts)
  have "unat (max_frames p - 1 - 1) = unat (max_frames p) - 2"
    using assms by (simp add: unat_sub word_le_nat_alt)
  then show ?thesis
    using m assms unfolding pmm_add_region_def Let_def ab as
    by (auto simp: hic_consts fb.tst_cl_range not_less not_le)
qed

lemma pmm_add_region_underflow_witness:
  "\<exists>p'. pmm_add_region 1 1 pmm_small = (Inr (), p') \<and> \<not> frame_used p' 15"
proof -
  have "max_frames pmm_small = 16" by code_simp
  then show ?thesis using pmm_add_region_underflow [of pmm_small] by auto
qed

end
