(* ===== verification/Hic_Handle.thy ===== *)
theory Hic_Handle
  imports Hic_Prelude
begin

text \<open>
  Capability handles, \<^verbatim>\<open>Core-0/capability.h\<close>: a 64-bit handle holds the capability identifier in
  its low half and a token in its high half, computed from the identifier and a key of the
  domain. A key table is a function from domain indices to keys.
\<close>

section \<open>Tokens and handles\<close>

record domain_key =
  dk_seed :: u32
  dk_multiplier :: u32

type_synonym key_table = "nat \<Rightarrow> domain_key"

definition CAP_HANDLE_INVALID :: u64 where
  [hic_consts]: "CAP_HANDLE_INVALID = 0"

definition cap_generate_token :: "key_table \<Rightarrow> u32 \<Rightarrow> u32 \<Rightarrow> u32" where
  "cap_generate_token keys domain cap =
     (let key = keys (unat domain);
          hash = (cap * dk_multiplier key) XOR dk_seed key;
          hash = (drop_bit 16 hash XOR hash) * 0x45D9F3B;
          hash = drop_bit 16 hash XOR hash
      in hash OR 0x80000000)"

definition cap_make_handle :: "key_table \<Rightarrow> u32 \<Rightarrow> u32 \<Rightarrow> u64" where
  "cap_make_handle keys domain cap =
     push_bit 32 (ucast (cap_generate_token keys domain cap)) OR ucast cap"

definition cap_validate_token :: "key_table \<Rightarrow> u32 \<Rightarrow> u32 \<Rightarrow> u32 \<Rightarrow> bool" where
  "cap_validate_token keys domain cap token \<longleftrightarrow> token = cap_generate_token keys domain cap"

definition cap_get_cap_id :: "u64 \<Rightarrow> u32" where
  "cap_get_cap_id handle = ucast (handle AND 0xFFFFFFFF)"

definition cap_get_token :: "u64 \<Rightarrow> u32" where
  "cap_get_token handle = ucast (drop_bit 32 handle)"

section \<open>Handles\<close>

lemma cap_get_cap_id_make [simp]: "cap_get_cap_id (cap_make_handle keys d cap) = cap"
proof -
  have m: "(0xFFFFFFFF :: u64) = mask 32" by (simp add: mask_eq_exp_minus_1)
  show ?thesis
    unfolding cap_get_cap_id_def cap_make_handle_def m
    by (rule bit_word_eqI) (simp add: bit_simps)
qed

lemma cap_get_token_make [simp]:
  "cap_get_token (cap_make_handle keys d cap) = cap_generate_token keys d cap"
proof (rule bit_word_eqI)
  fix n :: nat
  assume "n < LENGTH(32)"
  moreover have "\<not> bit cap (32 + n)" using bit_imp_le_length [of cap "32 + n"] by auto
  ultimately show "bit (cap_get_token (cap_make_handle keys d cap)) n =
      bit (cap_generate_token keys d cap) n"
    by (simp add: cap_get_token_def cap_make_handle_def bit_simps)
qed

lemma token_top_bit: "bit (cap_generate_token keys d cap) 31"
  by (simp add: cap_generate_token_def Let_def bit_simps)

lemma cap_make_handle_valid: "cap_make_handle keys d cap \<noteq> CAP_HANDLE_INVALID"
proof
  assume "cap_make_handle keys d cap = CAP_HANDLE_INVALID"
  then have "cap_generate_token keys d cap = 0"
    using cap_get_token_make [of keys d cap] by (simp add: hic_consts cap_get_token_def)
  with token_top_bit [of keys d cap] show False by simp
qed

text \<open>A handle is determined by its two halves.\<close>

lemma handle_eqI:
  assumes "cap_get_cap_id h = cap_get_cap_id h'" and "cap_get_token h = cap_get_token h'"
  shows "h = h'"
proof (rule bit_word_eqI)
  fix n assume "n < LENGTH(64)"
  have m: "(0xFFFFFFFF :: u64) = mask 32" by (simp add: mask_eq_exp_minus_1)
  show "bit h n \<longleftrightarrow> bit h' n"
  proof (cases "n < 32")
    case True
    then show ?thesis
      using arg_cong [OF assms(1), of "\<lambda>w. bit w n"] by (simp add: cap_get_cap_id_def m bit_simps)
  next
    case False
    then show ?thesis
      using arg_cong [OF assms(2), of "\<lambda>w. bit w (n - 32)"] \<open>n < LENGTH(64)\<close>
      by (auto simp: cap_get_token_def bit_simps)
  qed
qed

section \<open>The token hash\<close>

text \<open>
  The two xor-shifts are involutions and the multiplication is by an odd constant, so the
  mixing loses nothing before the top bit is forced to one.
\<close>

definition token_mix :: "u32 \<Rightarrow> u32" where
  "token_mix x =
     (let y = (drop_bit 16 x XOR x) * 0x45D9F3B in drop_bit 16 y XOR y)"

lemma xorshift16_involution: "drop_bit 16 (drop_bit 16 x XOR x) XOR (drop_bit 16 x XOR x) = (x :: u32)"
proof (rule bit_word_eqI)
  fix n :: nat
  have "\<not> bit x (16 + (16 + n))" using bit_imp_le_length [of x "16 + (16 + n)"] by auto
  then show "bit (drop_bit 16 (drop_bit 16 x XOR x) XOR (drop_bit 16 x XOR x)) n = bit x n"
    by (auto simp: bit_simps)
qed

lemma xorshift16_inj:
  assumes "drop_bit 16 x XOR x = drop_bit 16 y XOR (y :: u32)"
  shows "x = y"
proof -
  have "x = drop_bit 16 (drop_bit 16 x XOR x) XOR (drop_bit 16 x XOR x)"
    by (rule xorshift16_involution [symmetric])
  also have "\<dots> = y" unfolding assms by (rule xorshift16_involution)
  finally show ?thesis .
qed

lemma odd_mult_inj:
  fixes x y :: u32
  assumes "x * 0x45D9F3B = y * 0x45D9F3B"
  shows "x = y"
proof -
  have inv: "(0x45D9F3B :: u32) * 0x119DE1F3 = 1" by simp
  have "x = x * (0x45D9F3B * 0x119DE1F3)" unfolding inv by simp
  also have "\<dots> = y * (0x45D9F3B * 0x119DE1F3)" using assms by (simp only: mult.assoc [symmetric])
  also have "\<dots> = y" unfolding inv by simp
  finally show ?thesis .
qed

lemma token_mix_inj: "token_mix x = token_mix y \<Longrightarrow> x = y"
  unfolding token_mix_def Let_def by (drule xorshift16_inj, drule odd_mult_inj, erule xorshift16_inj)

lemma cap_generate_token_mix:
  "cap_generate_token keys d cap =
     token_mix ((cap * dk_multiplier (keys (unat d))) XOR dk_seed (keys (unat d))) OR 0x80000000"
  by (simp add: cap_generate_token_def token_mix_def Let_def)

end
