(* ===== verification/Hic_Domtab.thy ===== *)
theory Hic_Domtab
  imports Hic_Prelude
begin

text \<open>
  Domain control blocks, \<^verbatim>\<open>Core-0/domain.h\<close>, and the layering of scheduling policies by the
  security level of a domain (the last section of \<^verbatim>\<open>Core-0/domain.c\<close>). The table \<open>g_domains\<close> is
  a function from indices to control blocks, of which the first \<open>MAX_DOMAINS\<close> exist.
\<close>

section \<open>Data\<close>

datatype domain_type = DOMAIN_TYPE_CORE | DOMAIN_TYPE_PRIVILEGED | DOMAIN_TYPE_APPLICATION

datatype domain_sec_level =
    DOMAIN_SEC_LEVEL_CORE
  | DOMAIN_SEC_LEVEL_PRIVILEGED
  | DOMAIN_SEC_LEVEL_APPLICATION

datatype domain_sched_policy =
    DOMAIN_SCHED_POLICY_EXCLUSIVE
  | DOMAIN_SCHED_POLICY_QUOTA
  | DOMAIN_SCHED_POLICY_SHARED
  | DOMAIN_SCHED_POLICY_IDLE

datatype domain_state =
    DOMAIN_STATE_INIT
  | DOMAIN_STATE_READY
  | DOMAIN_STATE_RUNNING
  | DOMAIN_STATE_SUSPENDED
  | DOMAIN_STATE_TERMINATED

record domain_quota =
  max_memory :: u64
  max_threads :: u32
  max_caps :: u32
  cpu_quota_percent :: u32
  memory_delegated :: u64
  threads_delegated :: u32
  caps_delegated :: u32

record domain_usage =
  memory_used :: u64
  thread_used :: u32
  cap_used :: u32
  cpu_time_used :: u64
  last_check_time :: u64
  memory_alloc_rate :: u64
  thread_create_rate :: u32

record audit_counters =
  privileged_mem_access :: u64
  thread_creates :: u64
  memory_allocs :: u64
  cap_transfers :: u64
  cap_derives :: u64
  cap_revokes :: u64

text \<open>
  The pointer \<open>cspace\<close> is \<open>NULL\<close> or the address of an entry of the table of capability spaces; it
  is kept as the index of that entry. The list head \<open>thread_list\<close> is only ever set to \<open>NULL\<close>.
\<close>

record domain =
  domain_id :: u32
  domain_type :: domain_type
  domain_state :: domain_state
  phys_base :: u64
  phys_size :: u64
  page_table :: u64
  dom_cspace :: "nat option"
  dom_root_cnode :: u32
  cap_count :: u32
  cap_capacity :: u32
  thread_list :: u64
  thread_count :: u32
  quota :: domain_quota
  usage :: domain_usage
  cpu_time_total :: u64
  syscalls_total :: u64
  audit :: audit_counters
  dom_flags :: u32
  parent_domain :: u32
  sec_level :: domain_sec_level
  allowed_sched_policies :: u32

type_synonym domain_table = "nat \<Rightarrow> domain"

definition DOMAIN_FLAG_TRUSTED :: u32 where [hic_consts]: "DOMAIN_FLAG_TRUSTED = 1"
definition DOMAIN_FLAG_CRITICAL :: u32 where [hic_consts]: "DOMAIN_FLAG_CRITICAL = 2"
definition DOMAIN_FLAG_PRIVILEGED :: u32 where [hic_consts]: "DOMAIN_FLAG_PRIVILEGED = 4"
definition DOMAIN_FLAG_PRIMARY :: u32 where [hic_consts]: "DOMAIN_FLAG_PRIMARY = 8"

definition DOMAIN_SCHED_ALLOW_EXCLUSIVE :: u32 where
  [hic_consts]: "DOMAIN_SCHED_ALLOW_EXCLUSIVE = 1"
definition DOMAIN_SCHED_ALLOW_QUOTA :: u32 where
  [hic_consts]: "DOMAIN_SCHED_ALLOW_QUOTA = 2"
definition DOMAIN_SCHED_ALLOW_SHARED :: u32 where
  [hic_consts]: "DOMAIN_SCHED_ALLOW_SHARED = 4"
definition DOMAIN_SCHED_ALLOW_IDLE :: u32 where
  [hic_consts]: "DOMAIN_SCHED_ALLOW_IDLE = 8"

section \<open>Policy layering\<close>

fun domain_get_sec_level :: "domain_type \<Rightarrow> domain_sec_level" where
  "domain_get_sec_level DOMAIN_TYPE_CORE = DOMAIN_SEC_LEVEL_CORE"
| "domain_get_sec_level DOMAIN_TYPE_PRIVILEGED = DOMAIN_SEC_LEVEL_PRIVILEGED"
| "domain_get_sec_level DOMAIN_TYPE_APPLICATION = DOMAIN_SEC_LEVEL_APPLICATION"

fun default_sched_policies :: "domain_sec_level \<Rightarrow> u32" where
  "default_sched_policies DOMAIN_SEC_LEVEL_CORE =
     DOMAIN_SCHED_ALLOW_EXCLUSIVE OR DOMAIN_SCHED_ALLOW_QUOTA OR
     DOMAIN_SCHED_ALLOW_SHARED OR DOMAIN_SCHED_ALLOW_IDLE"
| "default_sched_policies DOMAIN_SEC_LEVEL_PRIVILEGED =
     DOMAIN_SCHED_ALLOW_EXCLUSIVE OR DOMAIN_SCHED_ALLOW_QUOTA OR DOMAIN_SCHED_ALLOW_SHARED"
| "default_sched_policies DOMAIN_SEC_LEVEL_APPLICATION = DOMAIN_SCHED_ALLOW_SHARED"

definition domain_get_allowed_sched_policies :: "u32 \<Rightarrow> domain_table \<Rightarrow> u32" where
  "domain_get_allowed_sched_policies d doms =
     (if d \<ge> MAX_DOMAINS then 0
      else if allowed_sched_policies (doms (unat d)) \<noteq> 0
      then allowed_sched_policies (doms (unat d))
      else default_sched_policies (sec_level (doms (unat d))))"

text \<open>A policy travels as a \<open>u8\<close> and is cast to the enumeration; other values have no name.\<close>

definition policy_of_u8 :: "u8 \<Rightarrow> domain_sched_policy option" where
  "policy_of_u8 v =
     (if v = 0 then Some DOMAIN_SCHED_POLICY_EXCLUSIVE
      else if v = 1 then Some DOMAIN_SCHED_POLICY_QUOTA
      else if v = 2 then Some DOMAIN_SCHED_POLICY_SHARED
      else if v = 3 then Some DOMAIN_SCHED_POLICY_IDLE
      else None)"

fun policy_bit :: "domain_sched_policy \<Rightarrow> u32" where
  "policy_bit DOMAIN_SCHED_POLICY_EXCLUSIVE = DOMAIN_SCHED_ALLOW_EXCLUSIVE"
| "policy_bit DOMAIN_SCHED_POLICY_QUOTA = DOMAIN_SCHED_ALLOW_QUOTA"
| "policy_bit DOMAIN_SCHED_POLICY_SHARED = DOMAIN_SCHED_ALLOW_SHARED"
| "policy_bit DOMAIN_SCHED_POLICY_IDLE = DOMAIN_SCHED_ALLOW_IDLE"

definition domain_can_create_sched_policy :: "u32 \<Rightarrow> u8 \<Rightarrow> domain_table \<Rightarrow> bool" where
  "domain_can_create_sched_policy d policy doms \<longleftrightarrow>
     \<not> d \<ge> MAX_DOMAINS \<and>
     (case policy_of_u8 policy of
        None \<Rightarrow> False
      | Some p \<Rightarrow> domain_get_allowed_sched_policies d doms AND policy_bit p \<noteq> 0)"

fun policy_rank :: "domain_sched_policy \<Rightarrow> nat" where
  "policy_rank DOMAIN_SCHED_POLICY_EXCLUSIVE = 0"
| "policy_rank DOMAIN_SCHED_POLICY_QUOTA = 1"
| "policy_rank DOMAIN_SCHED_POLICY_SHARED = 2"
| "policy_rank DOMAIN_SCHED_POLICY_IDLE = 3"

text \<open>
  The ranks are read from an array of four elements that is indexed without a check: \<open>None\<close>
  stands for a read beyond its end.
\<close>

definition domain_check_policy_derivation :: "u8 \<Rightarrow> u8 \<Rightarrow> bool option" where
  "domain_check_policy_derivation parent_policy child_policy =
     (case (policy_of_u8 parent_policy, policy_of_u8 child_policy) of
        (Some p, Some c) \<Rightarrow> Some (policy_rank c \<ge> policy_rank p)
      | _ \<Rightarrow> None)"

definition domain_set_sched_policies :: "u32 \<Rightarrow> u32 \<Rightarrow> domain_table \<Rightarrow> unit hic_result \<times> domain_table" where
  "domain_set_sched_policies d policy_mask doms =
     (if d \<ge> MAX_DOMAINS then (Inl HIC_ERROR_INVALID_PARAM, doms)
      else if domain_state (doms (unat d)) = DOMAIN_STATE_INIT
      then (Inl HIC_ERROR_INVALID_PARAM, doms)
      else (Inr (), doms(unat d := (doms (unat d))\<lparr> allowed_sched_policies :=
              policy_mask AND domain_get_allowed_sched_policies d doms \<rparr>)))"

end
