(* ===== verification/Hic_Capability.thy ===== *)
theory Hic_Capability
  imports Hic_Pmm Hic_Handle Hic_Domtab
begin

text \<open>
  The global capability table, \<^verbatim>\<open>Core-0/capability.c\<close> up to the logical-core capabilities:
  creation, grant, transfer, derivation, recursive revocation and access checks. The static
  variables of the file are the record \<open>cap_state\<close>; the memory manager that revocation calls is
  its component \<open>cs_pmm\<close>. Tables are functions of which only the indices below the C bound are
  used; a C access beyond the end of an array raises the ghost flag \<open>cap_fault\<close>, after which a
  state describes nothing. Critical sections are not modelled: operations run one at a time.
\<close>

section \<open>State\<close>

definition CAP_TABLE_SIZE :: u32 where [hic_consts]: "CAP_TABLE_SIZE = 2048"
definition MAX_SHMEM_REGIONS :: nat where [hic_consts]: "MAX_SHMEM_REGIONS = 64"
definition MAX_DERIVATIVES_PER_CAP :: nat where [hic_consts]: "MAX_DERIVATIVES_PER_CAP = 16"
definition CAP_REVOKE_MAX_DEPTH :: nat where [hic_consts]: "CAP_REVOKE_MAX_DEPTH = 16"

definition CAP_FLAG_REVOKED :: u8 where [hic_consts]: "CAP_FLAG_REVOKED = 1"
definition CAP_MEM_READ :: u32 where [hic_consts]: "CAP_MEM_READ = 1"
definition CAP_MEM_WRITE :: u32 where [hic_consts]: "CAP_MEM_WRITE = 2"
definition CAP_MEM_EXEC :: u32 where [hic_consts]: "CAP_MEM_EXEC = 4"
definition CAP_MEM_DEVICE :: u32 where [hic_consts]: "CAP_MEM_DEVICE = 8"
definition CAP_LCORE_USE :: u32 where [hic_consts]: "CAP_LCORE_USE = 0x100"
definition CAP_LCORE_QUERY :: u32 where [hic_consts]: "CAP_LCORE_QUERY = 0x200"
definition CAP_LCORE_MIGRATE :: u32 where [hic_consts]: "CAP_LCORE_MIGRATE = 0x400"
definition CAP_LCORE_BORROW :: u32 where [hic_consts]: "CAP_LCORE_BORROW = 0x2000"
definition CAP_TYPE_THREAD :: u32 where [hic_consts]: "CAP_TYPE_THREAD = 0x2000000"

text \<open>
  The union of a table entry is kept as its first two 64-bit words. As \<open>memory\<close> they are base
  and size; as \<open>logical_core\<close> the identifier and flags are the halves of the first word and
  quota, policy and highest derivable policy the three low bytes of the second; as
  \<open>thread_efc\<close> the thread identifier is the low half of the first word.
\<close>

record cap_entry =
  ce_id :: u32
  ce_rights :: u32
  ce_owner :: u32
  ce_flags :: u8
  ce_word0 :: u64
  ce_word1 :: u64

definition get_byte :: "nat \<Rightarrow> u64 \<Rightarrow> u8" where
  "get_byte n w = ucast (drop_bit (8 * n) w)"

definition set_byte :: "nat \<Rightarrow> u8 \<Rightarrow> u64 \<Rightarrow> u64" where
  "set_byte n b w = (w AND NOT (push_bit (8 * n) 0xFF)) OR push_bit (8 * n) (ucast b)"

definition set_lo32 :: "u32 \<Rightarrow> u64 \<Rightarrow> u64" where
  "set_lo32 x w = (w AND NOT (mask 32)) OR ucast x"

definition set_hi32 :: "u32 \<Rightarrow> u64 \<Rightarrow> u64" where
  "set_hi32 x w = (w AND mask 32) OR push_bit 32 (ucast x)"

abbreviation lc_quota :: "cap_entry \<Rightarrow> u8" where "lc_quota e \<equiv> get_byte 0 (ce_word1 e)"
abbreviation lc_sched_policy :: "cap_entry \<Rightarrow> u8" where
  "lc_sched_policy e \<equiv> get_byte 1 (ce_word1 e)"
abbreviation lc_max_derived_policy :: "cap_entry \<Rightarrow> u8" where
  "lc_max_derived_policy e \<equiv> get_byte 2 (ce_word1 e)"

record cap_derivative =
  dv_parent :: u32
  dv_children :: "nat \<Rightarrow> u32"
  dv_child_count :: u32

record shmem_region =
  sr_phys_base :: u64
  sr_size :: u64
  sr_owner :: u32
  sr_ref_count :: u32
  sr_flags :: u32

record cap_state =
  g_global_cap_table :: "nat \<Rightarrow> cap_entry"
  g_derivatives :: "nat \<Rightarrow> cap_derivative"
  g_domain_keys :: key_table
  g_privileged_domain_bitmap :: "nat \<Rightarrow> u32"
  g_shmem_regions :: "nat \<Rightarrow> shmem_region"
  cs_pmm :: pmm
  cap_fault :: bool

abbreviation cap_at :: "cap_state \<Rightarrow> u32 \<Rightarrow> cap_entry" where
  "cap_at s c \<equiv> g_global_cap_table s (unat c)"

abbreviation deriv_at :: "cap_state \<Rightarrow> u32 \<Rightarrow> cap_derivative" where
  "deriv_at s c \<equiv> g_derivatives s (unat c)"

definition upd_cap :: "u32 \<Rightarrow> (cap_entry \<Rightarrow> cap_entry) \<Rightarrow> cap_state \<Rightarrow> cap_state" where
  "upd_cap c f s = s\<lparr> g_global_cap_table := (g_global_cap_table s)(unat c := f (cap_at s c)) \<rparr>"

definition upd_deriv :: "u32 \<Rightarrow> (cap_derivative \<Rightarrow> cap_derivative) \<Rightarrow> cap_state \<Rightarrow> cap_state" where
  "upd_deriv c f s = s\<lparr> g_derivatives := (g_derivatives s)(unat c := f (deriv_at s c)) \<rparr>"

definition upd_region :: "nat \<Rightarrow> (shmem_region \<Rightarrow> shmem_region) \<Rightarrow> cap_state \<Rightarrow> cap_state" where
  "upd_region i f s = s\<lparr> g_shmem_regions := (g_shmem_regions s)(i := f (g_shmem_regions s i)) \<rparr>"

definition entry_revoked :: "cap_entry \<Rightarrow> bool" where
  "entry_revoked e \<longleftrightarrow> ce_flags e AND CAP_FLAG_REVOKED \<noteq> 0"

section \<open>Initialisation\<close>

definition zero_cap_entry :: cap_entry where
  "zero_cap_entry = \<lparr> ce_id = 0, ce_rights = 0, ce_owner = 0, ce_flags = 0, ce_word0 = 0, ce_word1 = 0 \<rparr>"

definition zero_derivative :: cap_derivative where
  "zero_derivative = \<lparr> dv_parent = 0, dv_children = (\<lambda>_. 0), dv_child_count = 0 \<rparr>"

definition zero_key :: domain_key where
  "zero_key = \<lparr> dk_seed = 0, dk_multiplier = 0 \<rparr>"

definition capability_system_init :: "cap_state \<Rightarrow> cap_state" where
  "capability_system_init s =
     s\<lparr> g_global_cap_table :=
          (\<lambda>i. if i < unat CAP_TABLE_SIZE then zero_cap_entry else g_global_cap_table s i),
        g_derivatives :=
          (\<lambda>i. if i < unat CAP_TABLE_SIZE then zero_derivative else g_derivatives s i),
        g_domain_keys :=
          (\<lambda>i. if i = unat HIC_DOMAIN_CORE then \<lparr> dk_seed = 0x12345678, dk_multiplier = 0x9E3779B9 \<rparr>
               else if i < unat HIC_DOMAIN_MAX then zero_key else g_domain_keys s i) \<rparr>"

text \<open>The time stamp \<open>ts\<close> read from the hardware is an argument.\<close>

definition cap_init_domain_key :: "u32 \<Rightarrow> u64 \<Rightarrow> cap_state \<Rightarrow> cap_state" where
  "cap_init_domain_key domain ts s =
     (if domain \<ge> HIC_DOMAIN_MAX then s
      else s\<lparr> g_domain_keys := (g_domain_keys s)(unat domain :=
               \<lparr> dk_seed = ucast (ts XOR ucast (domain * 0x9E3779B9)),
                 dk_multiplier = 0x9E3779B9 + domain \<rparr>) \<rparr>)"

section \<open>Creation\<close>

text \<open>
  The free-slot loop of \<open>cap_create_memory\<close> runs \<^verbatim>\<open>while cap == HIC_CAP_INVALID\<close>; since that
  value is 0, choosing slot 0 does not end it.
\<close>

primrec cap_slot_scan :: "(nat \<Rightarrow> cap_entry) \<Rightarrow> nat \<Rightarrow> nat \<Rightarrow> u32 \<Rightarrow> u32" where
  "cap_slot_scan t 0 i cap = cap"
| "cap_slot_scan t (Suc n) i cap =
     (if cap = HIC_CAP_INVALID
      then cap_slot_scan t n (Suc i)
             (if ce_id (t i) = 0 \<or> ce_id (t i) = HIC_CAP_INVALID then of_nat i else cap)
      else cap)"

text \<open>Loops that \<^verbatim>\<open>break\<close> at the first slot satisfying a condition.\<close>

definition first_slot :: "(nat \<Rightarrow> bool) \<Rightarrow> nat \<Rightarrow> u32" where
  "first_slot p lo =
     (case find_first p lo (unat CAP_TABLE_SIZE - lo) of
        None \<Rightarrow> HIC_CAP_INVALID
      | Some i \<Rightarrow> of_nat i)"

definition first_free_slot :: "(nat \<Rightarrow> cap_entry) \<Rightarrow> u32" where
  "first_free_slot t = first_slot (\<lambda>i. ce_id (t i) = 0) 1"

definition cap_create_memory ::
    "u32 \<Rightarrow> u64 \<Rightarrow> u64 \<Rightarrow> u32 \<Rightarrow> bool \<Rightarrow> cap_state \<Rightarrow> u32 hic_result \<times> cap_state" where
  "cap_create_memory owner base sz rights out_ok s =
     (if owner \<ge> HIC_DOMAIN_MAX \<or> \<not> out_ok then (Inl HIC_ERROR_INVALID_PARAM, s)
      else let cap = cap_slot_scan (g_global_cap_table s) (unat CAP_TABLE_SIZE) 0 HIC_CAP_INVALID
      in if cap = HIC_CAP_INVALID then (Inl HIC_ERROR_NO_MEMORY, s)
         else (Inr cap,
               upd_cap cap (\<lambda>e. e\<lparr> ce_id := cap, ce_rights := rights, ce_owner := owner,
                                    ce_flags := 0, ce_word0 := base, ce_word1 := sz \<rparr>) s))"

definition cap_create_thread :: "u32 \<Rightarrow> u32 \<Rightarrow> bool \<Rightarrow> cap_state \<Rightarrow> u32 hic_result \<times> cap_state" where
  "cap_create_thread owner thread_id out_ok s =
     (if owner \<ge> HIC_DOMAIN_MAX \<or> \<not> out_ok then (Inl HIC_ERROR_INVALID_PARAM, s)
      else let cap = first_slot (\<lambda>i. ce_id (g_global_cap_table s i) = 0 \<or>
                                      ce_id (g_global_cap_table s i) = HIC_CAP_INVALID) 1
      in if cap = HIC_CAP_INVALID then (Inl HIC_ERROR_NO_RESOURCE, s)
         else (Inr cap,
               upd_cap cap (\<lambda>e. e\<lparr> ce_id := cap, ce_rights := CAP_TYPE_THREAD, ce_owner := owner,
                                    ce_flags := 0,
                                    ce_word0 := set_hi32 0 (set_lo32 thread_id (ce_word0 e)) \<rparr>) s))"

section \<open>Grant and transfer\<close>

definition cap_grant :: "u32 \<Rightarrow> u32 \<Rightarrow> bool \<Rightarrow> cap_state \<Rightarrow> u64 hic_result" where
  "cap_grant domain cap out_ok s =
     (if domain \<ge> HIC_DOMAIN_MAX \<or> cap \<ge> CAP_TABLE_SIZE \<or> \<not> out_ok
      then Inl HIC_ERROR_INVALID_PARAM
      else if ce_id (cap_at s cap) \<noteq> cap then Inl HIC_ERROR_CAP_INVALID
      else Inr (cap_make_handle (g_domain_keys s) domain cap))"

definition cap_transfer :: "u32 \<Rightarrow> u32 \<Rightarrow> u32 \<Rightarrow> bool \<Rightarrow> cap_state \<Rightarrow> u64 hic_result \<times> cap_state" where
  "cap_transfer from to cap out_ok s =
     (if from \<ge> HIC_DOMAIN_MAX \<or> to \<ge> HIC_DOMAIN_MAX \<or> cap \<ge> CAP_TABLE_SIZE \<or> \<not> out_ok
      then (Inl HIC_ERROR_INVALID_PARAM, s)
      else if ce_id (cap_at s cap) \<noteq> cap then (Inl HIC_ERROR_CAP_INVALID, s)
      else if ce_owner (cap_at s cap) \<noteq> from then (Inl HIC_ERROR_PERMISSION, s)
      else let s' = upd_cap cap (\<lambda>e. e\<lparr> ce_owner := to \<rparr>) s
           in (cap_grant to cap out_ok s', s'))"

text \<open>Recording a child: \<^verbatim>\<open>children[child_count++] = c\<close>, guarded by the capacity.\<close>

definition add_child :: "u32 \<Rightarrow> u32 \<Rightarrow> cap_state \<Rightarrow> cap_state" where
  "add_child cap new_cap =
     upd_deriv cap (\<lambda>d. d\<lparr> dv_children := (dv_children d)(unat (dv_child_count d) := new_cap),
                            dv_child_count := dv_child_count d + 1 \<rparr>)"

definition has_child_room :: "u32 \<Rightarrow> cap_state \<Rightarrow> bool" where
  "has_child_room cap s \<longleftrightarrow> unat (dv_child_count (deriv_at s cap)) < MAX_DERIVATIVES_PER_CAP"

definition cap_transfer_with_attenuation ::
    "u32 \<Rightarrow> u32 \<Rightarrow> u32 \<Rightarrow> u32 \<Rightarrow> bool \<Rightarrow> cap_state \<Rightarrow> u64 hic_result \<times> cap_state" where
  "cap_transfer_with_attenuation from to cap attenuated_rights out_ok s =
     (if from \<ge> HIC_DOMAIN_MAX \<or> to \<ge> HIC_DOMAIN_MAX \<or> cap \<ge> CAP_TABLE_SIZE \<or> \<not> out_ok
      then (Inl HIC_ERROR_INVALID_PARAM, s)
      else if ce_id (cap_at s cap) \<noteq> cap then (Inl HIC_ERROR_CAP_INVALID, s)
      else if ce_owner (cap_at s cap) \<noteq> from then (Inl HIC_ERROR_PERMISSION, s)
      else if attenuated_rights AND ce_rights (cap_at s cap) \<noteq> attenuated_rights
      then (Inl HIC_ERROR_PERMISSION, s)
      else let new_cap = first_slot (\<lambda>i. ce_id (g_global_cap_table s i) \<noteq> of_nat i) 0
      in if new_cap = HIC_CAP_INVALID then (Inl HIC_ERROR_NO_MEMORY, s)
         else let s1 = upd_cap new_cap
                (\<lambda>e. e\<lparr> ce_id := new_cap, ce_rights := attenuated_rights, ce_owner := to, ce_flags := 0,
                         ce_word0 := ce_word0 (cap_at s cap), ce_word1 := ce_word1 (cap_at s cap) \<rparr>) s;
              s2 = (if has_child_room cap s1 then add_child cap new_cap s1 else s1)
         in (cap_grant to new_cap out_ok s2, s2))"

section \<open>Derivation\<close>

definition cap_derive :: "u32 \<Rightarrow> u32 \<Rightarrow> u32 \<Rightarrow> bool \<Rightarrow> cap_state \<Rightarrow> u32 hic_result \<times> cap_state" where
  "cap_derive owner parent sub_rights out_ok s =
     (if owner \<ge> HIC_DOMAIN_MAX \<or> parent \<ge> CAP_TABLE_SIZE \<or> \<not> out_ok
      then (Inl HIC_ERROR_INVALID_PARAM, s)
      else if ce_id (cap_at s parent) \<noteq> parent \<or> entry_revoked (cap_at s parent)
      then (Inl HIC_ERROR_CAP_INVALID, s)
      else if ce_owner (cap_at s parent) \<noteq> owner then (Inl HIC_ERROR_PERMISSION, s)
      else if sub_rights AND NOT (ce_rights (cap_at s parent)) \<noteq> 0
      then (Inl HIC_ERROR_PERMISSION, s)
      else let cap = first_slot (\<lambda>i. ce_id (g_global_cap_table s i) \<noteq> of_nat i) 0
      in if cap = HIC_CAP_INVALID then (Inl HIC_ERROR_NO_MEMORY, s)
         else let s1 = upd_cap cap
                (\<lambda>e. e\<lparr> ce_id := cap, ce_rights := sub_rights, ce_owner := owner, ce_flags := 0,
                         ce_word0 := ce_word0 (cap_at s parent),
                         ce_word1 := ce_word1 (cap_at s parent) \<rparr>) s;
              parent_max_policy = lc_max_derived_policy (cap_at s1 parent);
              s2 = upd_cap cap (\<lambda>e. e\<lparr> ce_word1 := set_byte 2 parent_max_policy (ce_word1 e) \<rparr>) s1;
              s3 = (if has_child_room parent s2
                    then upd_deriv cap (\<lambda>d. d\<lparr> dv_parent := parent \<rparr>) (add_child parent cap s2)
                    else s2)
         in (Inr cap, s3))"

definition cap_derive_with_policy ::
    "u32 \<Rightarrow> u32 \<Rightarrow> u32 \<Rightarrow> u8 \<Rightarrow> bool \<Rightarrow> cap_state \<Rightarrow> u32 hic_result \<times> cap_state" where
  "cap_derive_with_policy owner parent sub_rights derived_policy out_ok s =
     (case cap_derive owner parent sub_rights out_ok s of
        (Inl e, s1) \<Rightarrow> (Inl e, s1)
      | (Inr cap, s1) \<Rightarrow>
          (case domain_check_policy_derivation (lc_max_derived_policy (cap_at s1 parent)) derived_policy of
             None \<Rightarrow> (Inl HIC_ERROR_PERMISSION, s1\<lparr> cap_fault := True \<rparr>)
           | Some False \<Rightarrow>
               (Inl HIC_ERROR_PERMISSION, upd_cap cap (\<lambda>e. e\<lparr> ce_id := 0 \<rparr>) s1)
           | Some True \<Rightarrow>
               (Inr cap,
                upd_cap cap (\<lambda>e. e\<lparr> ce_word1 :=
                  set_byte 2 derived_policy (set_byte 1 derived_policy (ce_word1 e)) \<rparr>) s1)))"

section \<open>Revocation\<close>

definition region_pages :: "shmem_region \<Rightarrow> u32" where
  "region_pages r = ucast ((sr_size r + PAGE_SIZE - 1) div PAGE_SIZE)"

definition cap_release_shmem_if_needed :: "u32 \<Rightarrow> cap_state \<Rightarrow> cap_state" where
  "cap_release_shmem_if_needed cap s =
     (if cap \<ge> CAP_TABLE_SIZE then s
      else if ce_word0 (cap_at s cap) = 0 \<or> ce_word1 (cap_at s cap) = 0 then s
      else case find_first (\<lambda>i. sr_phys_base (g_shmem_regions s i) = ce_word0 (cap_at s cap))
                  0 MAX_SHMEM_REGIONS of
        None \<Rightarrow> s
      | Some i \<Rightarrow>
          let r = g_shmem_regions s i
          in if sr_ref_count r > 0 then
               let s1 = upd_region i (\<lambda>r. r\<lparr> sr_ref_count := sr_ref_count r - 1 \<rparr>) s
               in if sr_ref_count (g_shmem_regions s1 i) = 0 then
                    upd_region i (\<lambda>r. r\<lparr> sr_phys_base := 0, sr_size := 0 \<rparr>)
                      (s1\<lparr> cs_pmm := snd (pmm_free_frames (sr_phys_base r) (region_pages r) (cs_pmm s1)) \<rparr>)
                  else s1
             else s)"

text \<open>
  Removing \<open>cap\<close> from the child list of its parent: the first matching child is overwritten by
  the last one. The index of the last one is not checked against the capacity of the array.
\<close>

definition unlink_child :: "u32 \<Rightarrow> u32 \<Rightarrow> cap_state \<Rightarrow> cap_state" where
  "unlink_child parent cap s =
     (if parent = HIC_CAP_INVALID \<or> parent \<ge> CAP_TABLE_SIZE then s
      else let d = deriv_at s parent; last = unat (dv_child_count d - 1)
      in case find_first (\<lambda>i. dv_children d i = cap) 0
                (min (unat (dv_child_count d)) MAX_DERIVATIVES_PER_CAP) of
        None \<Rightarrow> s
      | Some i \<Rightarrow>
          upd_deriv parent
            (\<lambda>d. d\<lparr> dv_children := (dv_children d)(i := dv_children d last),
                    dv_child_count := dv_child_count d - 1 \<rparr>)
            (if last \<ge> MAX_DERIVATIVES_PER_CAP then s\<lparr> cap_fault := True \<rparr> else s))"

text \<open>
  The loop over the children of \<open>cap\<close>. The count is read again before every iteration: the
  recursive call may have changed it. \<open>n\<close> counts the iterations left below the capacity.
\<close>

primrec revoke_children :: "(u32 \<Rightarrow> cap_state \<Rightarrow> cap_state) \<Rightarrow> u32 \<Rightarrow> nat \<Rightarrow> nat \<Rightarrow> cap_state \<Rightarrow> cap_state" where
  "revoke_children f cap 0 i s = s"
| "revoke_children f cap (Suc n) i s =
     (if i < unat (dv_child_count (deriv_at s cap)) then
        let child = dv_children (deriv_at s cap) i
        in revoke_children f cap n (Suc i)
             (if child \<noteq> HIC_CAP_INVALID \<and> child < CAP_TABLE_SIZE \<and> \<not> entry_revoked (cap_at s child)
              then f child s else s)
      else s)"

definition set_revoked :: "u32 \<Rightarrow> cap_state \<Rightarrow> cap_state" where
  "set_revoked cap = upd_cap cap (\<lambda>e. e\<lparr> ce_flags := ce_flags e OR CAP_FLAG_REVOKED \<rparr>)"

definition clear_cap :: "u32 \<Rightarrow> cap_state \<Rightarrow> cap_state" where
  "clear_cap cap s =
     upd_cap cap (\<lambda>e. e\<lparr> ce_id := 0, ce_flags := 0, ce_rights := 0, ce_owner := 0 \<rparr>)
       (upd_deriv cap (\<lambda>d. d\<lparr> dv_child_count := 0, dv_parent := HIC_CAP_INVALID \<rparr>) s)"

text \<open>
  The recursion is cut off beyond depth 16; \<open>cap_revoke_r\<close> recurses on the number of levels
  left, so that \<open>cap_revoke_recursive_impl cap depth\<close> has \<open>17 - depth\<close> of them.
\<close>

primrec cap_revoke_r :: "nat \<Rightarrow> u32 \<Rightarrow> cap_state \<Rightarrow> cap_state" where
  "cap_revoke_r 0 cap s = s"
| "cap_revoke_r (Suc levels) cap s =
     (if cap \<ge> CAP_TABLE_SIZE then s
     else if ce_id (cap_at s cap) \<noteq> cap then s
     else if entry_revoked (cap_at s cap) then s
     else let s1 = set_revoked cap s;
              s2 = revoke_children (cap_revoke_r levels) cap MAX_DERIVATIVES_PER_CAP 0 s1;
              s3 = cap_release_shmem_if_needed cap s2;
              s4 = unlink_child (dv_parent (deriv_at s3 cap)) cap s3
          in clear_cap cap s4)"

definition cap_revoke_recursive_impl :: "u32 \<Rightarrow> nat \<Rightarrow> cap_state \<Rightarrow> cap_state" where
  "cap_revoke_recursive_impl cap depth = cap_revoke_r (Suc CAP_REVOKE_MAX_DEPTH - depth) cap"

definition cap_revoke :: "u32 \<Rightarrow> cap_state \<Rightarrow> unit hic_result \<times> cap_state" where
  "cap_revoke cap s =
     (if cap = HIC_CAP_INVALID then (Inl HIC_ERROR_CAP_INVALID, s)
      else if cap \<ge> CAP_TABLE_SIZE then (Inl HIC_ERROR_INVALID_PARAM, s)
      else if ce_id (cap_at s cap) \<noteq> cap then (Inl HIC_ERROR_CAP_INVALID, s)
      else if entry_revoked (cap_at s cap) then (Inr (), s)
      else (Inr (), cap_revoke_recursive_impl cap 0 s))"

section \<open>Access checks\<close>

definition cap_check_access :: "u32 \<Rightarrow> u64 \<Rightarrow> u32 \<Rightarrow> cap_state \<Rightarrow> unit hic_result" where
  "cap_check_access domain handle required s =
     (if handle = CAP_HANDLE_INVALID then Inl HIC_ERROR_INVALID_PARAM
      else let cap = cap_get_cap_id handle
      in if cap \<ge> CAP_TABLE_SIZE then Inl HIC_ERROR_INVALID_PARAM
         else if ce_id (cap_at s cap) \<noteq> cap then Inl HIC_ERROR_CAP_INVALID
         else if entry_revoked (cap_at s cap) then Inl HIC_ERROR_CAP_REVOKED
         else if ce_rights (cap_at s cap) AND required \<noteq> required then Inl HIC_ERROR_PERMISSION
         else if \<not> cap_validate_token (g_domain_keys s) domain cap (cap_get_token handle)
         then Inl HIC_ERROR_PERMISSION
         else Inr ())"

text \<open>
  The inlined checks index the table with the identifier in the handle, without a bound: the
  value at an index beyond the table is whatever lies there.
\<close>

definition cap_fast_check :: "u32 \<Rightarrow> u64 \<Rightarrow> u32 \<Rightarrow> cap_state \<Rightarrow> bool" where
  "cap_fast_check domain handle required s =
     (let cap = cap_get_cap_id handle; entry = cap_at s cap;
          valid = (ce_id entry = cap \<and> \<not> entry_revoked entry \<and> ce_rights entry AND required = required)
      in if \<not> valid then False
         else cap_get_token handle = cap_generate_token (g_domain_keys s) domain cap)"

definition cap_fast_check_rights :: "u64 \<Rightarrow> u32 \<Rightarrow> cap_state \<Rightarrow> bool" where
  "cap_fast_check_rights handle required s =
     (let cap = cap_get_cap_id handle; entry = cap_at s cap
      in ce_id entry = cap \<and> \<not> entry_revoked entry \<and> ce_rights entry AND required = required)"

section \<open>Privileged memory access\<close>

definition g_core0_mem_start :: u64 where [hic_consts]: "g_core0_mem_start = 0"
definition g_core0_mem_end :: u64 where [hic_consts]: "g_core0_mem_end = 0x00FFFFFF"
definition g_usable_memory_start :: u64 where [hic_consts]: "g_usable_memory_start = 0x01000000"
definition g_usable_memory_end :: u64 where [hic_consts]: "g_usable_memory_end = 0xFFFFFFFF"

definition cap_is_privileged_domain :: "u32 \<Rightarrow> cap_state \<Rightarrow> bool" where
  "cap_is_privileged_domain domain s \<longleftrightarrow>
     \<not> domain \<ge> HIC_DOMAIN_MAX \<and>
     g_privileged_domain_bitmap s (unat (domain div 32)) AND push_bit (unat (domain mod 32)) 1 \<noteq> 0"

definition cap_set_privileged_domain :: "u32 \<Rightarrow> bool \<Rightarrow> cap_state \<Rightarrow> cap_state" where
  "cap_set_privileged_domain domain privileged s =
     (if domain \<ge> HIC_DOMAIN_MAX then s
      else let i = unat (domain div 32); b = push_bit (unat (domain mod 32)) 1;
               w = g_privileged_domain_bitmap s i
      in s\<lparr> g_privileged_domain_bitmap :=
             (g_privileged_domain_bitmap s)(i := if privileged then w OR b else w AND NOT b) \<rparr>)"

definition cap_privileged_access_check :: "u32 \<Rightarrow> u64 \<Rightarrow> cap_state \<Rightarrow> bool" where
  "cap_privileged_access_check domain addr s =
     (let not_core0 = (addr < g_core0_mem_start \<or> addr \<ge> g_core0_mem_end);
          is_priv = (drop_bit (unat (domain AND 31))
                       (g_privileged_domain_bitmap s (unat (drop_bit 5 domain))) AND 1 \<noteq> 0)
      in not_core0 \<and> is_priv)"

text \<open>
  The full check also counts the access in the control block of the domain. The third
  component says that the control block indexed lies beyond the domain table.
\<close>

definition privileged_check_access ::
    "u32 \<Rightarrow> u64 \<Rightarrow> cap_state \<Rightarrow> domain_table \<Rightarrow> bool \<times> domain_table \<times> bool" where
  "privileged_check_access domain addr s doms =
     (if domain = HIC_DOMAIN_CORE
      then (addr \<ge> g_usable_memory_start \<and> addr < g_usable_memory_end, doms, False)
      else if addr < g_usable_memory_start \<or> addr \<ge> g_usable_memory_end then (False, doms, False)
      else if \<not> cap_is_privileged_domain domain s then (False, doms, False)
      else let d = doms (unat domain)
      in (True,
          if domain < HIC_DOMAIN_MAX \<and> domain_state d \<noteq> DOMAIN_STATE_INIT
          then doms(unat domain := d\<lparr> audit := (audit d)\<lparr> privileged_mem_access :=
                 privileged_mem_access (audit d) + 1 \<rparr> \<rparr>)
          else doms,
          domain \<ge> MAX_DOMAINS))"

section \<open>Queries\<close>

datatype cap_type =
    CAP_MEMORY | CAP_DEVICE | CAP_THREAD | CAP_SHARED | CAP_CAP_DERIVE | CAP_IRQ | CAP_SERVICE | CAP_MMIO

datatype obj_type = OBJ_MEMORY | OBJ_DEVICE | OBJ_THREAD | OBJ_SHARED

definition capability_exists :: "u32 \<Rightarrow> cap_state \<Rightarrow> bool" where
  "capability_exists cap s \<longleftrightarrow>
     \<not> cap \<ge> CAP_TABLE_SIZE \<and> ce_id (cap_at s cap) = cap \<and> \<not> entry_revoked (cap_at s cap)"

definition get_capability_permissions :: "u32 \<Rightarrow> cap_state \<Rightarrow> u64" where
  "get_capability_permissions cap s =
     (if \<not> capability_exists cap s then 0 else ucast (ce_rights (cap_at s cap)))"

definition get_capability_object_type :: "u32 \<Rightarrow> cap_state \<Rightarrow> obj_type" where
  "get_capability_object_type cap s =
     (if \<not> capability_exists cap s then OBJ_MEMORY
      else let rights = ce_rights (cap_at s cap)
      in if rights AND CAP_MEM_DEVICE \<noteq> 0 then OBJ_DEVICE
         else if rights AND (CAP_MEM_READ OR CAP_MEM_WRITE) = (CAP_MEM_READ OR CAP_MEM_WRITE) \<and>
                 ce_word1 (cap_at s cap) > 0 \<and> rights AND CAP_MEM_EXEC = 0 then OBJ_SHARED
         else if rights AND (CAP_LCORE_USE OR CAP_LCORE_QUERY) \<noteq> 0 then OBJ_THREAD
         else OBJ_MEMORY)"

definition get_capability_type :: "u32 \<Rightarrow> cap_state \<Rightarrow> cap_type" where
  "get_capability_type cap s =
     (if \<not> capability_exists cap s then CAP_MEMORY
      else let rights = ce_rights (cap_at s cap)
      in if rights AND CAP_MEM_DEVICE \<noteq> 0 then CAP_MMIO
         else if rights AND 0x100000 \<noteq> 0 then CAP_IRQ
         else if rights AND CAP_LCORE_QUERY \<noteq> 0 then CAP_SERVICE
         else if rights AND (CAP_LCORE_USE OR CAP_LCORE_MIGRATE) \<noteq> 0 then CAP_THREAD
         else if rights AND (CAP_MEM_READ OR CAP_MEM_WRITE) = (CAP_MEM_READ OR CAP_MEM_WRITE) \<and>
                 rights AND CAP_MEM_EXEC = 0 then CAP_SHARED
         else if rights AND 0x10000 \<noteq> 0 then CAP_DEVICE
         else if rights AND CAP_LCORE_BORROW \<noteq> 0 then CAP_CAP_DERIVE
         else CAP_MEMORY)"

text \<open>
  The list of children, up to the terminator that the C function stores behind them. The second
  component says that the terminator is stored beyond the 17 elements of the buffer.
\<close>

definition get_capability_derivatives :: "u32 \<Rightarrow> cap_state \<Rightarrow> u32 list option \<times> bool" where
  "get_capability_derivatives cap s =
     (if \<not> capability_exists cap s then (None, False)
      else let d = deriv_at s cap
      in (Some (map (dv_children d) [0..<min (unat (dv_child_count d)) MAX_DERIVATIVES_PER_CAP]),
          unat (dv_child_count d) > MAX_DERIVATIVES_PER_CAP))"

section \<open>Logical-core capabilities\<close>

definition policy_SHARED :: u8 where
  "policy_SHARED = 2"

definition cap_create_logical_core ::
    "u32 \<Rightarrow> u32 \<Rightarrow> u32 \<Rightarrow> u8 \<Rightarrow> u32 \<Rightarrow> bool \<Rightarrow> cap_state \<Rightarrow> u32 hic_result \<times> cap_state" where
  "cap_create_logical_core owner logical_core_id flgs qta rights out_ok s =
     (if owner \<ge> HIC_DOMAIN_MAX \<or> \<not> out_ok then (Inl HIC_ERROR_INVALID_PARAM, s)
      else let cap = cap_slot_scan (g_global_cap_table s) (unat CAP_TABLE_SIZE - 1) 1 HIC_CAP_INVALID
      in if cap = HIC_CAP_INVALID then (Inl HIC_ERROR_NO_RESOURCE, s)
         else (Inr cap,
               upd_cap cap (\<lambda>e. e\<lparr> ce_id := cap, ce_rights := rights, ce_owner := owner, ce_flags := 0,
                 ce_word0 := set_hi32 flgs (set_lo32 logical_core_id (ce_word0 e)),
                 ce_word1 := set_byte 2 policy_SHARED (set_byte 1 policy_SHARED
                               (set_byte 0 qta (ce_word1 e))) \<rparr>) s))"

definition cap_create_logical_core_with_policy ::
    "u32 \<Rightarrow> u32 \<Rightarrow> u32 \<Rightarrow> u8 \<Rightarrow> u32 \<Rightarrow> u8 \<Rightarrow> bool \<Rightarrow> domain_table \<Rightarrow> cap_state \<Rightarrow> u32 hic_result \<times> cap_state"
  where
  "cap_create_logical_core_with_policy owner logical_core_id flgs qta rights policy out_ok doms s =
     (if \<not> domain_can_create_sched_policy owner policy doms then (Inl HIC_ERROR_PERMISSION_DENIED, s)
      else case cap_create_logical_core owner logical_core_id flgs qta rights out_ok s of
        (Inl e, s1) \<Rightarrow> (Inl e, s1)
      | (Inr cap, s1) \<Rightarrow>
          (Inr cap, upd_cap cap (\<lambda>e. e\<lparr> ce_word1 :=
             set_byte 2 policy (set_byte 1 policy (ce_word1 e)) \<rparr>) s1))"

definition cap_get_logical_core_info :: "u32 \<Rightarrow> cap_state \<Rightarrow> (u32 \<times> u32 \<times> u8) hic_result" where
  "cap_get_logical_core_info cap s =
     (if cap \<ge> CAP_TABLE_SIZE \<or> \<not> capability_exists cap s then Inl HIC_ERROR_INVALID_PARAM
      else let e = cap_at s cap
      in Inr (ucast (ce_word0 e), ucast (drop_bit 32 (ce_word0 e)), lc_quota e))"

definition cap_get_logical_core_policy :: "u32 \<Rightarrow> cap_state \<Rightarrow> (u8 \<times> u8) hic_result" where
  "cap_get_logical_core_policy cap s =
     (if cap \<ge> CAP_TABLE_SIZE \<or> \<not> capability_exists cap s then Inl HIC_ERROR_INVALID_PARAM
      else Inr (lc_sched_policy (cap_at s cap), lc_max_derived_policy (cap_at s cap)))"

end
