(* ===== verification/Hic_Cap_Invariant.thy ===== *)
theory Hic_Cap_Invariant
  imports Hic_Capability
begin

text \<open>
  The invariant of the capability state and the effect of each operation: the free-slot
  searches satisfy the slot-table interface, creation, transfer, derivation and revocation keep
  the table and the derivation lists well formed, and revocation only clears entries.
\<close>

section \<open>Observing updates\<close>

lemma upd_cap_sel [cap_ops, simp]:
  "g_global_cap_table (upd_cap c f s) i =
     (if i = unat c then f (cap_at s c) else g_global_cap_table s i)"
  "g_derivatives (upd_cap c f s) = g_derivatives s"
  "g_domain_keys (upd_cap c f s) = g_domain_keys s"
  "g_privileged_domain_bitmap (upd_cap c f s) = g_privileged_domain_bitmap s"
  "g_shmem_regions (upd_cap c f s) = g_shmem_regions s"
  "cs_pmm (upd_cap c f s) = cs_pmm s"
  "cap_fault (upd_cap c f s) = cap_fault s"
  by (simp_all add: upd_cap_def)

lemma upd_deriv_sel [cap_ops, simp]:
  "g_global_cap_table (upd_deriv c g s) = g_global_cap_table s"
  "g_derivatives (upd_deriv c g s) i =
     (if i = unat c then g (deriv_at s c) else g_derivatives s i)"
  "g_domain_keys (upd_deriv c g s) = g_domain_keys s"
  "g_privileged_domain_bitmap (upd_deriv c g s) = g_privileged_domain_bitmap s"
  "g_shmem_regions (upd_deriv c g s) = g_shmem_regions s"
  "cs_pmm (upd_deriv c g s) = cs_pmm s"
  "cap_fault (upd_deriv c g s) = cap_fault s"
  by (simp_all add: upd_deriv_def)

lemma upd_region_sel [cap_ops, simp]:
  "g_global_cap_table (upd_region k h s) = g_global_cap_table s"
  "g_derivatives (upd_region k h s) = g_derivatives s"
  "g_domain_keys (upd_region k h s) = g_domain_keys s"
  "g_privileged_domain_bitmap (upd_region k h s) = g_privileged_domain_bitmap s"
  "g_shmem_regions (upd_region k h s) i =
     (if i = k then h (g_shmem_regions s k) else g_shmem_regions s i)"
  "cs_pmm (upd_region k h s) = cs_pmm s"
  "cap_fault (upd_region k h s) = cap_fault s"
  by (simp_all add: upd_region_def)

lemma add_child_sel [cap_ops, simp]:
  "g_global_cap_table (add_child p c s) = g_global_cap_table s"
  "g_domain_keys (add_child p c s) = g_domain_keys s"
  "g_privileged_domain_bitmap (add_child p c s) = g_privileged_domain_bitmap s"
  "g_shmem_regions (add_child p c s) = g_shmem_regions s"
  "cs_pmm (add_child p c s) = cs_pmm s"
  "cap_fault (add_child p c s) = cap_fault s"
  by (simp_all add: add_child_def)

section \<open>Free slots\<close>

definition cap_ids_ok :: "(nat \<Rightarrow> cap_entry) \<Rightarrow> bool" where
  "cap_ids_ok t \<longleftrightarrow> (\<forall>i. i < 2048 \<longrightarrow> ce_id (t i) = 0 \<or> ce_id (t i) = of_nat i)"

definition slot_opt :: "u32 \<Rightarrow> nat option" where
  "slot_opt c = (if c = HIC_CAP_INVALID then None else Some (unat c))"

lemma unat_of_nat_u32: "i < 4294967296 \<Longrightarrow> unat (of_nat i :: u32) = i"
  by (simp add: unat_of_nat)

lemma of_nat_u32_eq_0: "i < 4294967296 \<Longrightarrow> (of_nat i :: u32) = 0 \<longleftrightarrow> i = 0"
  using nat_dvd_not_less [of i 4294967296] by (cases "i = 0") (simp_all add: word_of_nat_eq_0_iff)

lemma cap_slot_scan_find:
  assumes "i + n \<le> 2048"
  shows "slot_opt (cap_slot_scan t n i HIC_CAP_INVALID) =
    find_first (\<lambda>k. k \<noteq> 0 \<and> ce_id (t k) = 0) i n"
  using assms
proof (induction n arbitrary: i)
  case 0
  then show ?case by (simp add: slot_opt_def)
next
  case (Suc n)
  have stop: "cap_slot_scan t n k c = c" if "c \<noteq> HIC_CAP_INVALID" for k c
    using that by (cases n) simp_all
  show ?case
  proof (cases "i \<noteq> 0 \<and> ce_id (t i) = 0")
    case True
    then have "(of_nat i :: u32) \<noteq> 0" using Suc.prems by (simp add: of_nat_u32_eq_0)
    then show ?thesis using True Suc.prems
      by (simp add: stop hic_consts slot_opt_def unat_of_nat_u32)
  next
    case False
    then have "cap_slot_scan t (Suc n) i HIC_CAP_INVALID = cap_slot_scan t n (Suc i) HIC_CAP_INVALID"
      by (auto simp: hic_consts)
    moreover have "find_first (\<lambda>k. k \<noteq> 0 \<and> ce_id (t k) = 0) i (Suc n) =
        find_first (\<lambda>k. k \<noteq> 0 \<and> ce_id (t k) = 0) (Suc i) n"
      using False by (simp only: find_first.simps if_False)
    ultimately show ?thesis using Suc.IH [of "Suc i"] Suc.prems by (simp only: add_Suc add_Suc_right)
  qed
qed

lemma first_slot_find:
  assumes "lo \<le> 2048" and "\<not> p 0 \<or> 0 < lo"
  shows "slot_opt (first_slot p lo) = find_first p lo (2048 - lo)"
proof (cases "find_first p lo (2048 - lo)")
  case None
  then show ?thesis by (simp add: first_slot_def slot_opt_def hic_consts)
next
  case (Some i)
  then have "i < 2048" and "i \<noteq> 0"
    using find_first_SomeD [OF Some] assms by (auto intro!: Nat.gr0I)
  then show ?thesis using Some
    by (simp add: first_slot_def slot_opt_def hic_consts of_nat_u32_eq_0 unat_of_nat_u32)
qed

text \<open>The free-slot searches of the capability table all satisfy the slot-table interface.\<close>

interpretation mem_slots: slot_table "\<lambda>_. True" "\<lambda>t i. ce_id (t i) \<noteq> 0"
  "\<lambda>t. slot_opt (cap_slot_scan t 2048 0 HIC_CAP_INVALID)" 1 2048
  by unfold_locales (auto simp: cap_slot_scan_find find_first_Some_iff find_first_None_iff)

interpretation lcore_slots: slot_table "\<lambda>_. True" "\<lambda>t i. ce_id (t i) \<noteq> 0"
  "\<lambda>t. slot_opt (cap_slot_scan t 2047 1 HIC_CAP_INVALID)" 1 2048
  by unfold_locales (auto simp: cap_slot_scan_find find_first_Some_iff find_first_None_iff)

interpretation thread_slots: slot_table "\<lambda>_. True" "\<lambda>t i. ce_id (t i) \<noteq> 0"
  "\<lambda>t. slot_opt (first_slot (\<lambda>i. ce_id (t i) = 0 \<or> ce_id (t i) = HIC_CAP_INVALID) 1)" 1 2048
  by unfold_locales
     (auto simp: first_slot_find find_first_Some_iff find_first_None_iff hic_consts)

interpretation derive_slots: slot_table cap_ids_ok "\<lambda>t i. ce_id (t i) \<noteq> 0"
  "\<lambda>t. slot_opt (first_slot (\<lambda>i. ce_id (t i) \<noteq> of_nat i) 0)" 1 2048
proof unfold_locales
  fix t :: "nat \<Rightarrow> cap_entry" and i :: nat
  assume ok: "cap_ids_ok t"
  then have "ce_id (t 0) = 0" unfolding cap_ids_ok_def by (auto dest!: spec [of _ 0])
  then have ff: "slot_opt (first_slot (\<lambda>i. ce_id (t i) \<noteq> of_nat i) 0) =
      find_first (\<lambda>i. ce_id (t i) \<noteq> of_nat i) 0 2048"
    by (subst first_slot_find) simp_all
  { assume "slot_opt (first_slot (\<lambda>i. ce_id (t i) \<noteq> of_nat i) 0) = Some i"
    then have i: "i < 2048" "ce_id (t i) \<noteq> of_nat i"
      unfolding ff by (auto dest: find_first_SomeD)
    then have "ce_id (t i) = 0" using ok unfolding cap_ids_ok_def by blast
    moreover have "i \<noteq> 0" using i(2) \<open>ce_id (t 0) = 0\<close> by (intro notI) simp
    ultimately show "1 \<le> i \<and> i < 2048 \<and> \<not> ce_id (t i) \<noteq> 0" using i(1) by simp }
  { assume "slot_opt (first_slot (\<lambda>i. ce_id (t i) \<noteq> of_nat i) 0) = None" "1 \<le> i" "i < 2048"
    then have "ce_id (t i) = of_nat i" unfolding ff find_first_None_iff by simp
    then show "ce_id (t i) \<noteq> 0" using of_nat_u32_eq_0 [of i] \<open>1 \<le> i\<close> \<open>i < 2048\<close> by simp }
qed

lemma slot_opt_Some: "c \<noteq> HIC_CAP_INVALID \<Longrightarrow> slot_opt c = Some (unat c)"
  by (simp add: slot_opt_def)

lemma first_free_slot_ok:
  assumes "first_free_slot t = c" and "c \<noteq> HIC_CAP_INVALID"
  shows "1 \<le> unat c" and "unat c < 2048" and "ce_id (t (unat c)) = 0"
proof -
  have "slot_opt (first_slot (\<lambda>i. ce_id (t i) = 0) 1) = find_first (\<lambda>i. ce_id (t i) = 0) 1 (2048 - 1)"
    by (rule first_slot_find) simp_all
  then have "find_first (\<lambda>i. ce_id (t i) = 0) 1 2047 = Some (unat c)"
    using assms by (simp add: first_free_slot_def slot_opt_def)
  then show "1 \<le> unat c" and "unat c < 2048" and "ce_id (t (unat c)) = 0"
    by (simp_all add: find_first_Some_iff)
qed

section \<open>The invariant of the capability state\<close>

text \<open>
  A table entry is free or carries its own index; the child lists stay within their capacity
  and name entries of the table. \<open>cap_shape\<close> holds also in the middle of a revocation; between
  operations no entry carries the revocation mark, which \<open>cap_wf\<close> adds.
\<close>

definition deriv_ok :: "cap_derivative \<Rightarrow> bool" where
  "deriv_ok d \<longleftrightarrow> unat (dv_child_count d) \<le> 16 \<and> unat (dv_parent d) < 2048 \<and>
     (\<forall>k. k < unat (dv_child_count d) \<longrightarrow> dv_children d k \<noteq> 0 \<and> unat (dv_children d k) < 2048)"

definition cap_shape :: "cap_state \<Rightarrow> bool" where
  "cap_shape s \<longleftrightarrow> cap_ids_ok (g_global_cap_table s) \<and>
     (\<forall>i. i < 2048 \<longrightarrow> deriv_ok (g_derivatives s i)) \<and> pmm_wf (cs_pmm s)"

definition cap_wf :: "cap_state \<Rightarrow> bool" where
  "cap_wf s \<longleftrightarrow> cap_shape s \<and> (\<forall>i. i < 2048 \<longrightarrow> ce_flags (g_global_cap_table s i) = 0)"

lemma CAP_TABLE_SIZE_nat [simp]: "unat CAP_TABLE_SIZE = 2048" by (simp add: hic_consts)

lemma cap_lt_iff: "c < CAP_TABLE_SIZE \<longleftrightarrow> unat c < 2048" and cap_ge_iff: "CAP_TABLE_SIZE \<le> c \<longleftrightarrow> 2048 \<le> unat c"
  by (simp_all add: word_less_nat_alt word_le_nat_alt)

lemma cap_shapeD:
  assumes "cap_shape s"
  shows "cap_ids_ok (g_global_cap_table s)" and "\<And>i. i < 2048 \<Longrightarrow> deriv_ok (g_derivatives s i)"
    and "pmm_wf (cs_pmm s)"
  using assms by (auto simp: cap_shape_def)

lemma cap_wfD:
  assumes "cap_wf s"
  shows "cap_shape s" and "\<And>i. i < 2048 \<Longrightarrow> ce_flags (g_global_cap_table s i) = 0"
  using assms by (auto simp: cap_wf_def)

lemma cap_wf_not_revoked: "cap_wf s \<Longrightarrow> unat c < 2048 \<Longrightarrow> \<not> entry_revoked (cap_at s c)"
  by (simp add: cap_wf_def entry_revoked_def)

lemma cap_wf_null: "cap_wf s \<Longrightarrow> ce_id (g_global_cap_table s 0) = 0"
  unfolding cap_wf_def cap_shape_def cap_ids_ok_def by (auto dest!: spec [of _ 0])

lemma cap_shape_upd_cap:
  assumes "cap_shape s" and "ce_id (f (cap_at s c)) = c \<or> ce_id (f (cap_at s c)) = 0"
  shows "cap_shape (upd_cap c f s)"
  using assms by (auto simp: cap_shape_def cap_ids_ok_def)

lemma cap_wf_upd_cap:
  assumes "cap_wf s" and "ce_id (f (cap_at s c)) = c \<or> ce_id (f (cap_at s c)) = 0"
    and "ce_flags (f (cap_at s c)) = 0"
  shows "cap_wf (upd_cap c f s)"
  using assms cap_shape_upd_cap by (auto simp: cap_wf_def)

lemma cap_shape_upd_deriv:
  assumes "cap_shape s" and "deriv_ok (deriv_at s c) \<Longrightarrow> deriv_ok (g (deriv_at s c))"
  shows "cap_shape (upd_deriv c g s)"
  using assms by (auto simp: cap_shape_def)

lemma cap_wf_upd_deriv:
  assumes "cap_wf s" and "deriv_ok (deriv_at s c) \<Longrightarrow> deriv_ok (g (deriv_at s c))"
  shows "cap_wf (upd_deriv c g s)"
  using assms cap_shape_upd_deriv by (auto simp: cap_wf_def)

lemma cap_wf_add_child:
  assumes "cap_wf s" and "has_child_room p s" and "c \<noteq> 0" and "unat c < 2048"
  shows "cap_wf (add_child p c s)"
  unfolding add_child_def
proof (rule cap_wf_upd_deriv [OF assms(1)])
  let ?d = "deriv_at s p"
  assume d: "deriv_ok ?d"
  have "unat (dv_child_count ?d + 1) = Suc (unat (dv_child_count ?d))"
    using assms(2) by (simp add: has_child_room_def hic_consts unat_word_ariths)
  then show "deriv_ok (?d\<lparr> dv_children := (dv_children ?d)(unat (dv_child_count ?d) := c),
                           dv_child_count := dv_child_count ?d + 1 \<rparr>)"
    using d assms(2-4) by (auto simp: deriv_ok_def has_child_room_def hic_consts less_Suc_eq)
qed

lemma picked_slot:
  assumes "cap_wf s"
  shows "c = cap_slot_scan (g_global_cap_table s) 2048 0 HIC_CAP_INVALID \<Longrightarrow> c \<noteq> HIC_CAP_INVALID \<Longrightarrow>
      1 \<le> unat c \<and> unat c < 2048 \<and> ce_id (cap_at s c) = 0"
    and "c = cap_slot_scan (g_global_cap_table s) 2047 1 HIC_CAP_INVALID \<Longrightarrow> c \<noteq> HIC_CAP_INVALID \<Longrightarrow>
      1 \<le> unat c \<and> unat c < 2048 \<and> ce_id (cap_at s c) = 0"
    and "c = first_slot (\<lambda>i. ce_id (g_global_cap_table s i) = 0 \<or>
        ce_id (g_global_cap_table s i) = HIC_CAP_INVALID) 1 \<Longrightarrow> c \<noteq> HIC_CAP_INVALID \<Longrightarrow>
      1 \<le> unat c \<and> unat c < 2048 \<and> ce_id (cap_at s c) = 0"
    and "c = first_slot (\<lambda>i. ce_id (g_global_cap_table s i) \<noteq> of_nat i) 0 \<Longrightarrow> c \<noteq> HIC_CAP_INVALID \<Longrightarrow>
      1 \<le> unat c \<and> unat c < 2048 \<and> ce_id (cap_at s c) = 0"
  using mem_slots.pick_Some [of "g_global_cap_table s" "unat c"]
    lcore_slots.pick_Some [of "g_global_cap_table s" "unat c"]
    thread_slots.pick_Some [of "g_global_cap_table s" "unat c"]
    derive_slots.pick_Some [OF cap_shapeD(1) [OF cap_wfD(1) [OF assms]], of "unat c"]
  by (simp_all add: slot_opt_Some)

lemma unat_pos_neq0: "1 \<le> unat (c :: u32) \<longleftrightarrow> c \<noteq> 0"
  by (simp add: unat_gt_0 Suc_le_eq)

section \<open>Creation, transfer and derivation keep the invariant\<close>

lemma cap_create_memory_okD:
  assumes "cap_wf s" and "cap_create_memory owner base sz rights out_ok s = (Inr c, s')"
  shows "c \<noteq> 0" "unat c < 2048" "ce_id (cap_at s c) = 0" "owner < HIC_DOMAIN_MAX"
    "s' = upd_cap c (\<lambda>e. e\<lparr> ce_id := c, ce_rights := rights, ce_owner := owner,
            ce_flags := 0, ce_word0 := base, ce_word1 := sz \<rparr>) s"
  using assms(2) picked_slot(1) [OF assms(1), of c] unat_pos_neq0 [of c]
  by (auto simp: cap_create_memory_def Let_def hic_consts not_le split: if_splits)

lemma cap_create_memory_errD:
  "cap_create_memory owner base sz rights out_ok s = (Inl e, s') \<Longrightarrow>
     s' = s \<and> (e = HIC_ERROR_INVALID_PARAM \<or> e = HIC_ERROR_NO_MEMORY)"
  by (auto simp: cap_create_memory_def Let_def split: if_splits)

lemma cap_create_memory_full:
  assumes "cap_create_memory owner base sz rights out_ok s = (Inl HIC_ERROR_NO_MEMORY, s')"
    and "1 \<le> i" and "i < 2048"
  shows "ce_id (g_global_cap_table s i) \<noteq> 0"
  using assms mem_slots.pick_None [of "g_global_cap_table s" i]
  by (auto simp: cap_create_memory_def Let_def slot_opt_def split: if_splits)

lemma cap_create_thread_okD:
  assumes "cap_wf s" and "cap_create_thread owner tid out_ok s = (Inr c, s')"
  shows "c \<noteq> 0" "unat c < 2048" "ce_id (cap_at s c) = 0" "owner < HIC_DOMAIN_MAX"
    "s' = upd_cap c (\<lambda>e. e\<lparr> ce_id := c, ce_rights := CAP_TYPE_THREAD, ce_owner := owner,
            ce_flags := 0, ce_word0 := set_hi32 0 (set_lo32 tid (ce_word0 e)) \<rparr>) s"
  using assms(2) picked_slot(3) [OF assms(1), of c] unat_pos_neq0 [of c]
  by (auto simp: cap_create_thread_def Let_def not_le HIC_CAP_INVALID_def split: if_splits)

lemma cap_create_thread_errD:
  "cap_create_thread owner tid out_ok s = (Inl e, s') \<Longrightarrow> s' = s"
  by (auto simp: cap_create_thread_def Let_def split: if_splits)

lemma cap_create_logical_core_okD:
  assumes "cap_wf s" and "cap_create_logical_core owner lc flgs qta rights out_ok s = (Inr c, s')"
  shows "c \<noteq> 0" "unat c < 2048" "ce_id (cap_at s c) = 0" "owner < HIC_DOMAIN_MAX"
    "s' = upd_cap c (\<lambda>e. e\<lparr> ce_id := c, ce_rights := rights, ce_owner := owner, ce_flags := 0,
                 ce_word0 := set_hi32 flgs (set_lo32 lc (ce_word0 e)),
                 ce_word1 := set_byte 2 policy_SHARED (set_byte 1 policy_SHARED
                               (set_byte 0 qta (ce_word1 e))) \<rparr>) s"
  using assms(2) picked_slot(2) [OF assms(1), of c] unat_pos_neq0 [of c]
  by (auto simp: cap_create_logical_core_def Let_def not_le HIC_CAP_INVALID_def split: if_splits)

lemma cap_create_logical_core_errD:
  "cap_create_logical_core owner lc flgs qta rights out_ok s = (Inl e, s') \<Longrightarrow> s' = s"
  by (auto simp: cap_create_logical_core_def Let_def split: if_splits)

lemma cap_transfer_okD:
  assumes "cap_transfer from to cap out_ok s = (Inr h, s')"
  shows "from < HIC_DOMAIN_MAX" "to < HIC_DOMAIN_MAX" "unat cap < 2048" "ce_id (cap_at s cap) = cap"
    "ce_owner (cap_at s cap) = from" "h = cap_make_handle (g_domain_keys s) to cap"
    "s' = upd_cap cap (\<lambda>e. e\<lparr> ce_owner := to \<rparr>) s"
  using assms
  by (auto simp: cap_transfer_def cap_grant_def Let_def not_le cap_lt_iff split: if_splits)

lemma cap_transfer_errD: "cap_transfer from to cap out_ok s = (Inl e, s') \<Longrightarrow> s' = s"
  by (auto simp: cap_transfer_def cap_grant_def Let_def split: if_splits)

lemma cap_transfer_with_attenuation_okD:
  assumes "cap_wf s" and "cap_transfer_with_attenuation from to cap r out_ok s = (Inr h, s')"
  obtains c where "unat cap < 2048" "ce_id (cap_at s cap) = cap" "ce_owner (cap_at s cap) = from"
    "to < HIC_DOMAIN_MAX" "r AND ce_rights (cap_at s cap) = r"
    "c \<noteq> 0" "unat c < 2048" "ce_id (cap_at s c) = 0" "c \<noteq> cap \<or> cap = 0"
    "h = cap_make_handle (g_domain_keys s) to c"
    "s' = (let s1 = upd_cap c (\<lambda>e. e\<lparr> ce_id := c, ce_rights := r, ce_owner := to, ce_flags := 0,
                         ce_word0 := ce_word0 (cap_at s cap), ce_word1 := ce_word1 (cap_at s cap) \<rparr>) s
           in if has_child_room cap s1 then add_child cap c s1 else s1)"
proof -
  define c where "c = first_slot (\<lambda>i. ce_id (g_global_cap_table s i) \<noteq> of_nat i) 0"
  note D = assms(2) [unfolded cap_transfer_with_attenuation_def Let_def, folded c_def]
  have c: "c \<noteq> HIC_CAP_INVALID" using D by (auto split: if_splits)
  note P = picked_slot(4) [OF assms(1) c_def c]
  have live: "ce_id (cap_at s cap) = cap" using D by (auto split: if_splits)
  show thesis
  proof (rule that [of c])
    show "unat cap < 2048" "ce_id (cap_at s cap) = cap" "ce_owner (cap_at s cap) = from"
      "to < HIC_DOMAIN_MAX" "r AND ce_rights (cap_at s cap) = r"
      using D by (auto simp: not_le cap_lt_iff split: if_splits)
    show "c \<noteq> 0" "unat c < 2048" "ce_id (cap_at s c) = 0" using P by auto
    show "c \<noteq> cap \<or> cap = 0" using P live by auto
    show "h = cap_make_handle (g_domain_keys s) to c"
      using D c by (auto simp: cap_grant_def split: if_splits)
    show "s' = (let s1 = upd_cap c (\<lambda>e. e\<lparr> ce_id := c, ce_rights := r, ce_owner := to, ce_flags := 0,
                         ce_word0 := ce_word0 (cap_at s cap), ce_word1 := ce_word1 (cap_at s cap) \<rparr>) s
           in if has_child_room cap s1 then add_child cap c s1 else s1)"
      using D c by (auto simp: Let_def split: if_splits)
  qed
qed

lemma cap_transfer_with_attenuation_errD:
  assumes "cap_wf s" and "cap_transfer_with_attenuation from to cap r out_ok s = (Inl e, s')"
  shows "s' = s"
proof -
  define c where "c = first_slot (\<lambda>i. ce_id (g_global_cap_table s i) \<noteq> of_nat i) 0"
  note D = assms(2) [unfolded cap_transfer_with_attenuation_def Let_def, folded c_def]
  show ?thesis
  proof (cases "c = HIC_CAP_INVALID")
    case True
    then show ?thesis using D by (auto split: if_splits)
  next
    case False
    then show ?thesis using D picked_slot(4) [OF assms(1) c_def]
      by (auto simp: cap_grant_def cap_ge_iff not_le split: if_splits)
  qed
qed

lemma set_byte_mask: "set_byte n b w = (w AND NOT (push_bit (8 * n) (mask 8))) OR push_bit (8 * n) (ucast b)"
  by (simp add: set_byte_def mask_eq_exp_minus_1)

lemma bit_set_byte:
  assumes "k < 64"
  shows "bit (set_byte n b w) k \<longleftrightarrow>
    (if 8 * n \<le> k \<and> k < 8 * n + 8 then bit b (k - 8 * n) else bit w k)"
  using assms bit_imp_le_length [of b "k - 8 * n"]
  by (auto simp: set_byte_mask bit_simps)

lemma bit_get_byte: "bit (get_byte n w) k \<longleftrightarrow> k < 8 \<and> bit w (8 * n + k)"
  by (auto simp: get_byte_def bit_simps)

lemma set_get_byte_id [simp]: "set_byte n (get_byte n w) w = w"
  by (rule bit_word_eqI) (auto simp: bit_set_byte bit_get_byte)

lemma get_set_byte [simp]: "n < 8 \<Longrightarrow> get_byte n (set_byte n b w) = b"
  by (rule bit_word_eqI) (auto simp: bit_set_byte bit_get_byte)

lemma get_set_byte_other: "n \<noteq> m \<Longrightarrow> n < 8 \<Longrightarrow> get_byte n (set_byte m b w) = get_byte n w"
  by (rule bit_word_eqI) (auto simp: bit_set_byte bit_get_byte)

lemma cap_derive_okD:
  assumes "cap_wf s" and "cap_derive owner parent r out_ok s = (Inr c, s')"
  shows "unat parent < 2048" "ce_id (cap_at s parent) = parent" "ce_owner (cap_at s parent) = owner"
    "r AND NOT (ce_rights (cap_at s parent)) = 0" "owner < HIC_DOMAIN_MAX"
    "c \<noteq> 0" "unat c < 2048" "ce_id (cap_at s c) = 0" "c \<noteq> parent"
    "s' = (let s1 = upd_cap c (\<lambda>e. e\<lparr> ce_id := c, ce_rights := r, ce_owner := owner, ce_flags := 0,
                         ce_word0 := ce_word0 (cap_at s parent), ce_word1 := ce_word1 (cap_at s parent) \<rparr>) s
           in if has_child_room parent s1
              then upd_deriv c (\<lambda>d. d\<lparr> dv_parent := parent \<rparr>) (add_child parent c s1) else s1)"
proof -
  define k where "k = first_slot (\<lambda>i. ce_id (g_global_cap_table s i) \<noteq> of_nat i) 0"
  note D = assms(2) [unfolded cap_derive_def Let_def, folded k_def]
  have k: "k \<noteq> HIC_CAP_INVALID" "c = k" using D by (auto split: if_splits)
  note P = picked_slot(4) [OF assms(1) k_def k(1), folded k(2)]
  show G: "unat parent < 2048" "ce_id (cap_at s parent) = parent" "ce_owner (cap_at s parent) = owner"
      "r AND NOT (ce_rights (cap_at s parent)) = 0" "owner < HIC_DOMAIN_MAX"
    using D by (auto simp: not_le cap_lt_iff split: if_splits)
  show "c \<noteq> 0" "unat c < 2048" "ce_id (cap_at s c) = 0" using P by auto
  show ne: "c \<noteq> parent"
  proof
    assume "c = parent"
    then have "c = 0" using P G(2) by simp
    with P show False by simp
  qed
  then have "unat parent \<noteq> unat c" by (simp add: word_unat_eq_iff eq_commute)
  define s1 where "s1 = upd_cap c (\<lambda>e. e\<lparr> ce_id := c, ce_rights := r, ce_owner := owner, ce_flags := 0,
      ce_word0 := ce_word0 (cap_at s parent), ce_word1 := ce_word1 (cap_at s parent) \<rparr>) s"
  have "ce_word1 (cap_at s1 parent) = ce_word1 (cap_at s1 c)"
    using \<open>unat parent \<noteq> unat c\<close> by (simp add: s1_def)
  then have same: "upd_cap c (\<lambda>e. e\<lparr> ce_word1 :=
      set_byte 2 (lc_max_derived_policy (cap_at s1 parent)) (ce_word1 e) \<rparr>) s1 = s1"
    by (simp add: upd_cap_def)
  note D' = D [folded k(2), folded s1_def, unfolded same]
  show "s' = (let s1 = upd_cap c (\<lambda>e. e\<lparr> ce_id := c, ce_rights := r, ce_owner := owner, ce_flags := 0,
                         ce_word0 := ce_word0 (cap_at s parent), ce_word1 := ce_word1 (cap_at s parent) \<rparr>) s
           in if has_child_room parent s1
              then upd_deriv c (\<lambda>d. d\<lparr> dv_parent := parent \<rparr>) (add_child parent c s1) else s1)"
    unfolding Let_def s1_def [symmetric] using D' by (simp split: if_splits)
qed

lemma cap_derive_errD: "cap_derive owner parent r out_ok s = (Inl e, s') \<Longrightarrow> s' = s"
  by (auto simp: cap_derive_def Let_def split: if_splits)

lemma cap_create_memory_wf:
  assumes "cap_wf s" and "cap_create_memory owner base sz rights out_ok s = (r, s')"
  shows "cap_wf s'"
proof (cases r)
  case (Inl e)
  then show ?thesis using assms cap_create_memory_errD by blast
next
  case (Inr c)
  note D = cap_create_memory_okD [OF assms(1) assms(2) [unfolded Inr]]
  show ?thesis unfolding D(5) by (rule cap_wf_upd_cap [OF assms(1)]) simp_all
qed

lemma cap_create_thread_wf:
  assumes "cap_wf s" and "cap_create_thread owner tid out_ok s = (r, s')"
  shows "cap_wf s'"
proof (cases r)
  case (Inl e)
  then show ?thesis using assms cap_create_thread_errD by blast
next
  case (Inr c)
  note D = cap_create_thread_okD [OF assms(1) assms(2) [unfolded Inr]]
  show ?thesis unfolding D(5) by (rule cap_wf_upd_cap [OF assms(1)]) simp_all
qed

lemma cap_create_logical_core_wf:
  assumes "cap_wf s" and "cap_create_logical_core owner lc flgs qta rights out_ok s = (r, s')"
  shows "cap_wf s'"
proof (cases r)
  case (Inl e)
  then show ?thesis using assms cap_create_logical_core_errD by blast
next
  case (Inr c)
  note D = cap_create_logical_core_okD [OF assms(1) assms(2) [unfolded Inr]]
  show ?thesis unfolding D(5) by (rule cap_wf_upd_cap [OF assms(1)]) simp_all
qed

lemma cap_create_logical_core_with_policy_wf:
  assumes "cap_wf s"
    and "cap_create_logical_core_with_policy owner lc flgs qta rights policy out_ok doms s = (r, s')"
  shows "cap_wf s'"
proof (cases "cap_create_logical_core owner lc flgs qta rights out_ok s")
  case (Pair r1 s1)
  note wf1 = cap_create_logical_core_wf [OF assms(1) Pair]
  show ?thesis
  proof (cases r1)
    case (Inl e)
    then show ?thesis using assms Pair wf1
      by (auto simp: cap_create_logical_core_with_policy_def split: if_splits)
  next
    case (Inr c)
    note D = cap_create_logical_core_okD [OF assms(1) Pair [unfolded Inr]]
    have "cap_wf (upd_cap c (\<lambda>e. e\<lparr> ce_word1 := set_byte 2 policy (set_byte 1 policy (ce_word1 e)) \<rparr>) s1)"
      by (rule cap_wf_upd_cap [OF wf1]) (simp_all add: D(5))
    then show ?thesis using assms Pair Inr wf1
      by (auto simp: cap_create_logical_core_with_policy_def split: if_splits)
  qed
qed

lemma cap_transfer_wf:
  assumes "cap_wf s" and "cap_transfer from to cap out_ok s = (r, s')"
  shows "cap_wf s'"
proof (cases r)
  case (Inl e)
  then show ?thesis using assms cap_transfer_errD by blast
next
  case (Inr h)
  note D = cap_transfer_okD [OF assms(2) [unfolded Inr]]
  show ?thesis
    unfolding D(7) by (rule cap_wf_upd_cap [OF assms(1)]) (use D(3,4) cap_wfD(2) [OF assms(1)] in simp_all)
qed

lemma cap_transfer_with_attenuation_wf:
  assumes "cap_wf s" and "cap_transfer_with_attenuation from to cap rg out_ok s = (r, s')"
  shows "cap_wf s'"
proof (cases r)
  case (Inl e)
  then show ?thesis using assms cap_transfer_with_attenuation_errD by blast
next
  case (Inr h)
  from assms(2) [unfolded Inr] obtain c where D: "c \<noteq> 0" "unat c < 2048"
    "s' = (let s1 = upd_cap c (\<lambda>e. e\<lparr> ce_id := c, ce_rights := rg, ce_owner := to, ce_flags := 0,
                         ce_word0 := ce_word0 (cap_at s cap), ce_word1 := ce_word1 (cap_at s cap) \<rparr>) s
           in if has_child_room cap s1 then add_child cap c s1 else s1)"
    by (rule cap_transfer_with_attenuation_okD [OF assms(1)])
  have "cap_wf (upd_cap c (\<lambda>e. e\<lparr> ce_id := c, ce_rights := rg, ce_owner := to, ce_flags := 0,
                         ce_word0 := ce_word0 (cap_at s cap), ce_word1 := ce_word1 (cap_at s cap) \<rparr>) s)"
    by (rule cap_wf_upd_cap [OF assms(1)]) simp_all
  then show ?thesis unfolding D(3) Let_def using cap_wf_add_child D(1,2) by simp
qed

lemma cap_derive_wf:
  assumes "cap_wf s" and "cap_derive owner parent rg out_ok s = (r, s')"
  shows "cap_wf s'"
proof (cases r)
  case (Inl e)
  then show ?thesis using assms cap_derive_errD by blast
next
  case (Inr c)
  note D = cap_derive_okD [OF assms(1) assms(2) [unfolded Inr]]
  let ?s1 = "upd_cap c (\<lambda>e. e\<lparr> ce_id := c, ce_rights := rg, ce_owner := owner, ce_flags := 0,
               ce_word0 := ce_word0 (cap_at s parent), ce_word1 := ce_word1 (cap_at s parent) \<rparr>) s"
  have wf1: "cap_wf ?s1" by (rule cap_wf_upd_cap [OF assms(1)]) simp_all
  have "cap_wf (upd_deriv c (\<lambda>d. d\<lparr> dv_parent := parent \<rparr>) (add_child parent c ?s1))"
    if "has_child_room parent ?s1"
    by (rule cap_wf_upd_deriv [OF cap_wf_add_child [OF wf1 that D(6,7)]])
       (use D(1) in \<open>simp add: deriv_ok_def\<close>)
  with wf1 show ?thesis unfolding D(10) Let_def by simp
qed

lemma cap_derive_with_policy_wf:
  assumes "cap_wf s" and "cap_derive_with_policy owner parent rg policy out_ok s = (r, s')"
  shows "cap_wf s'"
proof (cases "cap_derive owner parent rg out_ok s")
  case (Pair r1 s1)
  note wf1 = cap_derive_wf [OF assms(1) Pair]
  have fault: "cap_wf (s1\<lparr> cap_fault := True \<rparr>)"
    using wf1 by (simp add: cap_wf_def cap_shape_def)
  show ?thesis
  proof (cases r1)
    case (Inl e)
    then show ?thesis using assms Pair wf1 by (simp add: cap_derive_with_policy_def)
  next
    case (Inr c)
    note D = cap_derive_okD [OF assms(1) Pair [unfolded Inr]]
    have flg: "ce_flags (cap_at s1 c) = 0" using cap_wfD(2) [OF wf1 D(7)] .
    have id: "ce_id (cap_at s1 c) = c" using D(10) by (simp add: Let_def)
    have "cap_wf (upd_cap c (\<lambda>e. e\<lparr> ce_id := 0 \<rparr>) s1)"
      "cap_wf (upd_cap c (\<lambda>e. e\<lparr> ce_word1 := set_byte 2 policy (set_byte 1 policy (ce_word1 e)) \<rparr>) s1)"
      by (rule cap_wf_upd_cap [OF wf1]; simp add: flg id)+
    then show ?thesis using assms Pair Inr fault
      by (auto simp: cap_derive_with_policy_def split: option.splits bool.splits)
  qed
qed

section \<open>Revocation\<close>

text \<open>
  What revocation may do to the table: an entry stays as it is or is cleared. Keys and the
  privileged bitmap stay. No array access leaves its bounds.
\<close>

definition cleared :: "cap_entry \<Rightarrow> cap_entry" where
  "cleared e = e\<lparr> ce_id := 0, ce_flags := 0, ce_rights := 0, ce_owner := 0 \<rparr>"

definition only_clears :: "cap_state \<Rightarrow> cap_state \<Rightarrow> bool" where
  "only_clears s s' \<longleftrightarrow>
     (\<forall>i. g_global_cap_table s' i = g_global_cap_table s i \<or>
          g_global_cap_table s' i = cleared (g_global_cap_table s i)) \<and>
     g_domain_keys s' = g_domain_keys s \<and>
     g_privileged_domain_bitmap s' = g_privileged_domain_bitmap s \<and>
     cap_fault s' = cap_fault s \<and> cap_shape s'"

lemma cleared_cleared [simp]: "cleared (cleared e) = cleared e"
  by (simp add: cleared_def)

lemma only_clears_refl: "cap_shape s \<Longrightarrow> only_clears s s"
  by (simp add: only_clears_def)

lemma only_clears_trans: "only_clears s t \<Longrightarrow> only_clears t u \<Longrightarrow> only_clears s u"
proof -
  assume st: "only_clears s t" and tu: "only_clears t u"
  have "g_global_cap_table u i = g_global_cap_table s i \<or>
      g_global_cap_table u i = cleared (g_global_cap_table s i)" for i
    using st [unfolded only_clears_def, THEN conjunct1, rule_format, of i]
      tu [unfolded only_clears_def, THEN conjunct1, rule_format, of i] by auto
  with st tu show ?thesis by (auto simp: only_clears_def)
qed

lemma only_clearsD:
  assumes "only_clears s s'"
  shows "g_global_cap_table s' i = g_global_cap_table s i \<or>
      g_global_cap_table s' i = cleared (g_global_cap_table s i)"
    and "g_domain_keys s' = g_domain_keys s" and "cap_fault s' = cap_fault s" and "cap_shape s'"
    and "g_privileged_domain_bitmap s' = g_privileged_domain_bitmap s"
  using assms by (auto simp: only_clears_def)

lemma release_sel [simp]:
  "g_global_cap_table (cap_release_shmem_if_needed c s) = g_global_cap_table s"
  "g_derivatives (cap_release_shmem_if_needed c s) = g_derivatives s"
  "g_domain_keys (cap_release_shmem_if_needed c s) = g_domain_keys s"
  "g_privileged_domain_bitmap (cap_release_shmem_if_needed c s) = g_privileged_domain_bitmap s"
  "cap_fault (cap_release_shmem_if_needed c s) = cap_fault s"
  by (simp_all add: cap_release_shmem_if_needed_def Let_def split: option.splits)

lemma release_pmm_wf:
  assumes "pmm_wf (cs_pmm s)"
  shows "pmm_wf (cs_pmm (cap_release_shmem_if_needed c s))"
  using assms pmm_free_frames_wf [OF assms]
  by (auto simp: cap_release_shmem_if_needed_def Let_def split: option.splits) (metis prod.collapse)

lemma cap_shape_release: "cap_shape s \<Longrightarrow> cap_shape (cap_release_shmem_if_needed c s)"
  by (simp add: cap_shape_def release_pmm_wf)

lemma unlink_child_sel [simp]:
  "g_global_cap_table (unlink_child p c s) = g_global_cap_table s"
  "g_domain_keys (unlink_child p c s) = g_domain_keys s"
  "g_privileged_domain_bitmap (unlink_child p c s) = g_privileged_domain_bitmap s"
  "g_shmem_regions (unlink_child p c s) = g_shmem_regions s"
  "cs_pmm (unlink_child p c s) = cs_pmm s"
  by (simp_all add: unlink_child_def Let_def split: option.splits)

lemma unlink_child_shape:
  assumes "cap_shape s"
  shows "cap_shape (unlink_child p c s)" and "cap_fault (unlink_child p c s) = cap_fault s"
proof -
  let ?d = "deriv_at s p" let ?last = "unat (dv_child_count ?d - 1)"
  have "cap_shape (unlink_child p c s) \<and> cap_fault (unlink_child p c s) = cap_fault s"
  proof (cases "p = HIC_CAP_INVALID \<or> p \<ge> CAP_TABLE_SIZE \<or>
      find_first (\<lambda>i. dv_children ?d i = c) 0 (min (unat (dv_child_count ?d)) MAX_DERIVATIVES_PER_CAP) = None")
    case True
    then show ?thesis using assms by (auto simp: unlink_child_def Let_def)
  next
    case False
    then obtain i where i: "find_first (\<lambda>i. dv_children ?d i = c) 0
        (min (unat (dv_child_count ?d)) MAX_DERIVATIVES_PER_CAP) = Some i" by auto
    from False have p: "unat p < 2048" by (simp add: cap_ge_iff not_le)
    have d: "deriv_ok ?d" using cap_shapeD(2) [OF assms p] .
    have pos: "0 < unat (dv_child_count ?d)" using find_first_SomeD(2) [OF i] by simp
    then have last: "?last = unat (dv_child_count ?d) - 1"
      by (intro unat_minus_one) auto
    then have lt: "?last < 16" using d pos unfolding deriv_ok_def by linarith
    have "deriv_ok (?d\<lparr> dv_children := (dv_children ?d)(i := dv_children ?d ?last),
        dv_child_count := dv_child_count ?d - 1 \<rparr>)"
      using d pos last by (auto simp: deriv_ok_def)
    then have "cap_shape (upd_deriv p (\<lambda>d. d\<lparr> dv_children := (dv_children d)(i := dv_children d ?last),
        dv_child_count := dv_child_count d - 1 \<rparr>) s)"
      by (intro cap_shape_upd_deriv [OF assms])
    then show ?thesis using False i lt by (simp add: unlink_child_def Let_def hic_consts)
  qed
  then show "cap_shape (unlink_child p c s)" and "cap_fault (unlink_child p c s) = cap_fault s"
    by auto
qed

lemma revoke_children_only_clears:
  assumes "\<And>c s. cap_shape s \<Longrightarrow> only_clears s (f c s)" and "cap_shape s"
  shows "only_clears s (revoke_children f cap n i s)"
  using assms(2)
proof (induction n arbitrary: i s)
  case 0
  then show ?case by (simp add: only_clears_refl)
next
  case (Suc n)
  let ?child = "dv_children (deriv_at s cap) i"
  let ?s = "if ?child \<noteq> HIC_CAP_INVALID \<and> ?child < CAP_TABLE_SIZE \<and> \<not> entry_revoked (cap_at s ?child)
            then f ?child s else s"
  have "only_clears s ?s" using assms(1) Suc.prems only_clears_refl by simp
  moreover have "only_clears ?s (revoke_children f cap n (Suc i) ?s)"
    by (rule Suc.IH) (rule only_clearsD(4) [OF calculation])
  ultimately have "only_clears s (revoke_children f cap n (Suc i) ?s)" by (rule only_clears_trans)
  then show ?case using only_clears_refl [OF Suc.prems] by (simp only: revoke_children.simps Let_def split: if_split) blast
qed

lemma clear_cap_table:
  "g_global_cap_table (clear_cap c s) i =
     (if i = unat c then cleared (cap_at s c) else g_global_cap_table s i)"
  by (simp add: clear_cap_def cleared_def)

lemma clear_cap_sel [simp]:
  "g_domain_keys (clear_cap c s) = g_domain_keys s"
  "g_privileged_domain_bitmap (clear_cap c s) = g_privileged_domain_bitmap s"
  "g_shmem_regions (clear_cap c s) = g_shmem_regions s"
  "cs_pmm (clear_cap c s) = cs_pmm s"
  "cap_fault (clear_cap c s) = cap_fault s"
  by (simp_all add: clear_cap_def)

lemma clear_cap_shape:
  assumes "cap_shape s"
  shows "cap_shape (clear_cap c s)"
proof -
  have "cap_shape (upd_deriv c (\<lambda>d. d\<lparr> dv_child_count := 0, dv_parent := HIC_CAP_INVALID \<rparr>) s)"
    by (rule cap_shape_upd_deriv [OF assms]) (simp add: deriv_ok_def hic_consts)
  then show ?thesis unfolding clear_cap_def by (rule cap_shape_upd_cap) simp
qed

lemma set_revoked_shape: "cap_shape s \<Longrightarrow> ce_id (cap_at s c) = c \<Longrightarrow> cap_shape (set_revoked c s)"
  unfolding set_revoked_def by (rule cap_shape_upd_cap) simp_all

text \<open>The body of one level: the children are handled by \<open>f\<close>, then the entry itself is cleared.\<close>

definition revoke_body :: "(u32 \<Rightarrow> cap_state \<Rightarrow> cap_state) \<Rightarrow> u32 \<Rightarrow> cap_state \<Rightarrow> cap_state" where
  "revoke_body f cap s =
     (let s2 = revoke_children f cap MAX_DERIVATIVES_PER_CAP 0 (set_revoked cap s);
          s3 = cap_release_shmem_if_needed cap s2
      in clear_cap cap (unlink_child (dv_parent (deriv_at s3 cap)) cap s3))"

lemma cap_revoke_r_Suc:
  "cap_revoke_r (Suc levels) cap s =
     (if cap \<ge> CAP_TABLE_SIZE \<or> ce_id (cap_at s cap) \<noteq> cap \<or> entry_revoked (cap_at s cap) then s
      else revoke_body (cap_revoke_r levels) cap s)"
  by (simp add: revoke_body_def Let_def)

declare cap_revoke_r.simps(2) [simp del]

lemma revoke_body_effect:
  assumes f: "\<And>c s. cap_shape s \<Longrightarrow> only_clears s (f c s)" and s: "cap_shape s"
    and live: "ce_id (cap_at s c) = c"
  shows "only_clears s (revoke_body f c s)"
    and "g_global_cap_table (revoke_body f c s) (unat c) = cleared (cap_at s c)"
proof -
  let ?s2 = "revoke_children f c MAX_DERIVATIVES_PER_CAP 0 (set_revoked c s)"
  have oc: "only_clears (set_revoked c s) ?s2"
    by (rule revoke_children_only_clears [OF f set_revoked_shape [OF s live]])
  note D = only_clearsD [OF oc]
  have tab: "g_global_cap_table ?s2 i = g_global_cap_table s i \<or>
      g_global_cap_table ?s2 i = cleared (g_global_cap_table s i)" if "i \<noteq> unat c" for i
    using D(1) [of i] that by (simp add: set_revoked_def)
  have self: "cleared (cap_at ?s2 c) = cleared (cap_at s c)"
    using D(1) [of "unat c"] by (auto simp: set_revoked_def cleared_def)
  show cl: "g_global_cap_table (revoke_body f c s) (unat c) = cleared (cap_at s c)"
    by (simp add: revoke_body_def Let_def clear_cap_table self)
  have "g_global_cap_table (revoke_body f c s) i = g_global_cap_table s i \<or>
      g_global_cap_table (revoke_body f c s) i = cleared (g_global_cap_table s i)" for i
    using tab [of i] cl by (cases "i = unat c") (simp_all add: revoke_body_def Let_def clear_cap_table)
  moreover have "cap_shape (revoke_body f c s)"
    unfolding revoke_body_def Let_def
    by (intro clear_cap_shape unlink_child_shape cap_shape_release D(4))
  moreover have "cap_fault (revoke_body f c s) = cap_fault s"
    using D(3) D(4) by (simp add: revoke_body_def Let_def unlink_child_shape(2) cap_shape_release set_revoked_def)
  ultimately show "only_clears s (revoke_body f c s)"
    using D(2,5) unfolding only_clears_def by (simp add: revoke_body_def Let_def set_revoked_def)
qed

lemma cap_revoke_r_only_clears:
  assumes "cap_shape s"
  shows "only_clears s (cap_revoke_r levels cap s)"
  using assms
proof (induction levels arbitrary: cap s)
  case 0
  then show ?case by (simp add: only_clears_refl)
next
  case (Suc levels)
  show ?case
    unfolding cap_revoke_r_Suc using Suc.prems only_clears_refl revoke_body_effect(1) [OF Suc.IH] by auto
qed

lemma only_clears_flags:
  assumes "only_clears s s'" and "\<And>i. i < 2048 \<Longrightarrow> ce_flags (g_global_cap_table s i) = 0"
  shows "cap_wf s'"
  unfolding cap_wf_def
proof (intro conjI allI impI)
  show "cap_shape s'" by (rule only_clearsD(4) [OF assms(1)])
  fix i :: nat assume "i < 2048"
  then show "ce_flags (g_global_cap_table s' i) = 0"
    using only_clearsD(1) [OF assms(1), of i] assms(2) by (auto simp: cleared_def)
qed

lemma cap_revoke_wf:
  assumes "cap_wf s" and "cap_revoke c s = (r, s')"
  shows "cap_wf s'" and "only_clears s s'"
proof -
  note sh = cap_wfD(1) [OF assms(1)]
  show oc: "only_clears s s'"
    using assms(2) cap_revoke_r_only_clears [OF sh] only_clears_refl [OF sh]
    by (auto simp: cap_revoke_def cap_revoke_recursive_impl_def split: if_splits)
  show "cap_wf s'" by (rule only_clears_flags [OF oc cap_wfD(2) [OF assms(1)]])
qed

lemma cap_revoke_okD:
  assumes "cap_wf s" and "cap_revoke c s = (Inr u, s')"
  shows "c \<noteq> 0" "unat c < 2048" "ce_id (cap_at s c) = c"
    "g_global_cap_table s' (unat c) = cleared (cap_at s c)"
    "s' = revoke_body (cap_revoke_r 16) c s"
proof -
  show *: "c \<noteq> 0" "unat c < 2048" "ce_id (cap_at s c) = c"
    using assms(2) by (auto simp: cap_revoke_def HIC_CAP_INVALID_def cap_ge_iff not_le split: if_splits)
  have nr: "\<not> entry_revoked (cap_at s c)" using cap_wf_not_revoked [OF assms(1) *(2)] .
  have "s' = cap_revoke_r (Suc 16) c s"
    using assms(2) nr *
    by (simp add: cap_revoke_def cap_revoke_recursive_impl_def CAP_REVOKE_MAX_DEPTH_def HIC_CAP_INVALID_def cap_ge_iff)
  then show body: "s' = revoke_body (cap_revoke_r 16) c s"
    unfolding cap_revoke_r_Suc using nr * by (simp add: cap_ge_iff)
  show "g_global_cap_table s' (unat c) = cleared (cap_at s c)"
    unfolding body
    by (rule revoke_body_effect(2) [OF cap_revoke_r_only_clears cap_wfD(1) [OF assms(1)] *(3)])
qed

lemma cap_revoke_succeeds:
  assumes "c \<noteq> 0" and "unat c < 2048" and "ce_id (cap_at s c) = c"
  shows "fst (cap_revoke c s) = Inr ()"
  using assms by (simp add: cap_revoke_def HIC_CAP_INVALID_def cap_ge_iff)

section \<open>The child loop of revocation\<close>

text \<open>
  Revoking a leaf removes it from the child list of its parent by moving the last child into
  its place, while the loop over that same list goes on to the next index.
\<close>

definition is_leaf_of :: "u32 \<Rightarrow> u32 \<Rightarrow> cap_state \<Rightarrow> bool" where
  "is_leaf_of p c s \<longleftrightarrow> unat c < 2048 \<and> c \<noteq> 0 \<and> c \<noteq> p \<and> ce_id (cap_at s c) = c \<and>
     \<not> entry_revoked (cap_at s c) \<and> dv_child_count (deriv_at s c) = 0 \<and> dv_parent (deriv_at s c) = p"

lemma revoke_children_none:
  "dv_child_count (deriv_at s c) = 0 \<Longrightarrow> revoke_children f c n i s = s"
  by (cases n) simp_all

lemma unat_neq: "unat (a :: u32) \<noteq> unat b \<longleftrightarrow> a \<noteq> b"
  by (simp add: word_unat_eq_iff)

lemma revoke_leaf:
  assumes leaf: "is_leaf_of p c s" and p: "p \<noteq> 0" "unat p < 2048"
    and n: "unat (dv_child_count (deriv_at s p)) = n" "n \<le> 16" and k: "k < n"
    and at: "dv_children (deriv_at s p) k = c" and first: "\<And>j. j < k \<Longrightarrow> dv_children (deriv_at s p) j \<noteq> c"
    and t_def: "t = cap_revoke_r (Suc levels) c s"
  shows "g_global_cap_table t i = (if i = unat c then cleared (cap_at s c) else g_global_cap_table s i)"
    and "deriv_at t p = (deriv_at s p)\<lparr> dv_children := (dv_children (deriv_at s p))(k := dv_children (deriv_at s p) (n - 1)),
           dv_child_count := of_nat (n - 1) \<rparr>"
    and "i \<noteq> unat c \<Longrightarrow> i \<noteq> unat p \<Longrightarrow> g_derivatives t i = g_derivatives s i"
proof -
  let ?r = "cap_release_shmem_if_needed c (set_revoked c s)"
  have cp: "unat c \<noteq> unat p" using leaf by (simp add: is_leaf_of_def word_unat_eq_iff)
  have t: "t = clear_cap c (unlink_child p c ?r)"
    using leaf unfolding t_def cap_revoke_r_Suc
    by (simp add: is_leaf_of_def cap_ge_iff revoke_body_def Let_def revoke_children_none set_revoked_def)
  have n1: "unat (dv_child_count (deriv_at s p) - 1) = n - 1"
    using n(1) k by (subst unat_minus_one) (auto simp: unat_gt_0 [symmetric])
  then have cnt: "dv_child_count (deriv_at s p) - 1 = of_nat (n - 1)"
    using n(2) by (simp add: word_unat_eq_iff unat_of_nat_u32)
  have ff: "find_first (\<lambda>i. dv_children (deriv_at s p) i = c) 0 (min n MAX_DERIVATIVES_PER_CAP) = Some k"
    using at first k n(2) by (auto simp: find_first_Some_iff hic_consts)
  have d: "deriv_at ?r p = deriv_at s p" by (simp add: set_revoked_def)
  have u: "unlink_child p c ?r = upd_deriv p
      (\<lambda>d. d\<lparr> dv_children := (dv_children d)(k := dv_children d (n - 1)), dv_child_count := dv_child_count d - 1 \<rparr>) ?r"
    using p ff n k unfolding unlink_child_def Let_def d n1
    by (simp add: HIC_CAP_INVALID_def cap_ge_iff MAX_DERIVATIVES_PER_CAP_def)
  show "g_global_cap_table t i = (if i = unat c then cleared (cap_at s c) else g_global_cap_table s i)"
    by (simp add: t clear_cap_table set_revoked_def cleared_def)
  show "deriv_at t p = (deriv_at s p)\<lparr> dv_children := (dv_children (deriv_at s p))(k := dv_children (deriv_at s p) (n - 1)),
           dv_child_count := of_nat (n - 1) \<rparr>"
    using cp d cnt by (simp add: t u clear_cap_def)
  show "i \<noteq> unat c \<Longrightarrow> i \<noteq> unat p \<Longrightarrow> g_derivatives t i = g_derivatives s i"
    unfolding t clear_cap_def u by (simp add: set_revoked_def)
qed

definition half_inv :: "u32 \<Rightarrow> (nat \<Rightarrow> u32) \<Rightarrow> nat \<Rightarrow> cap_state \<Rightarrow> nat \<Rightarrow> cap_state \<Rightarrow> bool" where
  "half_inv p ch n s k t \<longleftrightarrow>
     unat (dv_child_count (deriv_at t p)) = n - k \<and>
     (\<forall>j. j < k \<longrightarrow> dv_children (deriv_at t p) j = ch (n - 1 - j)) \<and>
     (\<forall>j. k \<le> j \<longrightarrow> j < n - k \<longrightarrow> dv_children (deriv_at t p) j = ch j) \<and>
     (\<forall>j. k \<le> j \<longrightarrow> j < n \<longrightarrow> is_leaf_of p (ch j) t) \<and>
     (\<forall>j. j < n \<longrightarrow> cap_at t (ch j) = (if j < k then cleared (cap_at s (ch j)) else cap_at s (ch j)))"

lemma half_inv_step:
  assumes inv: "half_inv p ch n s k t" and p: "p \<noteq> 0" "unat p < 2048" and n: "n \<le> 16"
    and inj: "inj_on ch {..<n}" and k: "k < n - k"
  shows "half_inv p ch n s (Suc k) (cap_revoke_r (Suc levels) (ch k) t)"
proof -
  let ?t = "cap_revoke_r (Suc levels) (ch k) t"
  note I = inv [unfolded half_inv_def]
  have ne: "ch i \<noteq> ch j" if "i < n" "j < n" "i \<noteq> j" for i j
    using inj that by (auto simp: inj_on_def)
  have leaf: "is_leaf_of p (ch k) t" using I k by auto
  have at: "dv_children (deriv_at t p) k = ch k" using I k by auto
  have first: "dv_children (deriv_at t p) j \<noteq> ch k" if "j < k" for j
    using I that k ne [of "n - 1 - j" k] by auto
  note L = revoke_leaf [OF leaf p conjunct1 [OF I] _ k at first refl, where levels = levels]
  have L1: "g_global_cap_table ?t i = (if i = unat (ch k) then cleared (cap_at t (ch k)) else g_global_cap_table t i)" for i
    using L(1) n by simp
  have L2: "deriv_at ?t p = (deriv_at t p)\<lparr> dv_children := (dv_children (deriv_at t p))(k := dv_children (deriv_at t p) (n - k - 1)),
           dv_child_count := of_nat (n - k - 1) \<rparr>"
    using L(2) n by simp
  have L3: "g_derivatives ?t i = g_derivatives t i" if "i \<noteq> unat (ch k)" "i \<noteq> unat p" for i
    using L(3) n that by simp
  have last: "dv_children (deriv_at t p) (n - k - 1) = ch (n - 1 - k)" using I k by auto
  show ?thesis unfolding half_inv_def
  proof (intro conjI allI impI)
    show "unat (dv_child_count (deriv_at ?t p)) = n - Suc k"
      using n by (simp add: L2 unat_of_nat_u32)
    show "dv_children (deriv_at ?t p) j = ch (n - 1 - j)" if "j < Suc k" for j
      using I that last by (cases "j = k") (auto simp: L2)
    show "dv_children (deriv_at ?t p) j = ch j" if "Suc k \<le> j" "j < n - Suc k" for j
      using I that by (auto simp: L2)
    show "is_leaf_of p (ch j) ?t" if "Suc k \<le> j" "j < n" for j
    proof -
      have "is_leaf_of p (ch j) t" using I that by auto
      moreover have "unat (ch j) \<noteq> unat (ch k)" using ne [of j k] that k by (simp add: word_unat_eq_iff)
      moreover have "unat (ch j) \<noteq> unat p"
        using calculation(1) by (simp add: is_leaf_of_def word_unat_eq_iff)
      ultimately show ?thesis by (simp add: is_leaf_of_def L1 L3)
    qed
    show "cap_at ?t (ch j) = (if j < Suc k then cleared (cap_at s (ch j)) else cap_at s (ch j))" if "j < n" for j
      using I that k ne [of j k] by (cases "j = k") (auto simp: L1 word_unat_eq_iff)
  qed
qed

lemma half_loop:
  assumes "half_inv p ch n s k t" and p: "p \<noteq> 0" "unat p < 2048" and n: "n \<le> 16"
    and inj: "inj_on ch {..<n}" and "m + k = 16" and "k \<le> (n + 1) div 2"
  shows "half_inv p ch n s ((n + 1) div 2) (revoke_children (cap_revoke_r (Suc levels)) p m k t)"
  using assms(1,6,7)
proof (induction m arbitrary: k t)
  case 0
  then have "k = (n + 1) div 2" using n by simp
  with 0 show ?case by simp
next
  case (Suc m)
  show ?case
  proof (cases "k < n - k")
    case True
    have leaf: "is_leaf_of p (ch k) t" and at: "dv_children (deriv_at t p) k = ch k"
      and cnt: "unat (dv_child_count (deriv_at t p)) = n - k"
      using Suc.prems(1) True by (auto simp: half_inv_def)
    have "half_inv p ch n s ((n + 1) div 2)
        (revoke_children (cap_revoke_r (Suc levels)) p m (Suc k) (cap_revoke_r (Suc levels) (ch k) t))"
      using half_inv_step [OF Suc.prems(1) p n inj True] Suc.prems(2) True by (intro Suc.IH) auto
    then show ?thesis
      using True leaf at cnt
      by (simp add: is_leaf_of_def HIC_CAP_INVALID_def cap_lt_iff)
  next
    case False
    then have "k = (n + 1) div 2" using Suc.prems(3) by simp
    then show ?thesis using False Suc.prems(1) by (simp add: half_inv_def)
  qed
qed

text \<open>The whole loop of a parent all of whose children are leaves.\<close>

lemma revoke_leaves:
  assumes wf: "cap_wf s" and p: "p \<noteq> 0" "unat p < 2048" and live: "ce_id (cap_at s p) = p"
    and n: "n = unat (dv_child_count (deriv_at s p))" and ch: "ch = dv_children (deriv_at s p)"
    and leaf: "\<And>j. j < n \<Longrightarrow> is_leaf_of p (ch j) s" and inj: "inj_on ch {..<n}"
    and s': "s' = revoke_body (cap_revoke_r (Suc levels)) p s"
    and j: "j < n"
  shows "cap_at s' (ch j) = (if j < (n + 1) div 2 then cleared (cap_at s (ch j)) else cap_at s (ch j))"
proof -
  have n16: "n \<le> 16" using cap_shapeD(2) [OF cap_wfD(1) [OF wf] p(2)] n by (simp add: deriv_ok_def)
  have np: "unat (ch j) \<noteq> unat p" if "j < n" for j
    using leaf [OF that] by (simp add: is_leaf_of_def word_unat_eq_iff)
  have "half_inv p ch n s 0 (set_revoked p s)"
    using leaf np n ch by (auto simp: half_inv_def is_leaf_of_def set_revoked_def)
  from half_loop [OF this p n16 inj, of 16]
  have H: "half_inv p ch n s ((n + 1) div 2)
      (revoke_children (cap_revoke_r (Suc levels)) p MAX_DERIVATIVES_PER_CAP 0 (set_revoked p s))"
    by (simp add: MAX_DERIVATIVES_PER_CAP_def)
  show ?thesis
    using H np [OF j] j by (simp add: s' revoke_body_def Let_def clear_cap_table half_inv_def)
qed

end
