(* ===== verification/Hic_Cap_Authority.thy ===== *)
theory Hic_Cap_Authority
  imports Hic_Cap_Invariant
begin

text \<open>
  Histories of the capability table and the authority they can reach: a step relation over the
  operations of \<^verbatim>\<open>capability.c\<close>, and the invariant that every entry stays within an authority
  that some creating operation made.
\<close>

section \<open>Histories of the capability table\<close>

text \<open>
  An authority is what a table entry conveys: rights and the object words. A history starts
  with the initialised table and collects the authorities of the entries that the creating
  operations made; all other operations must live on these. Slot 0 carries its own index while
  it is empty, so every state also holds the null authority.
\<close>

type_synonym authority = "u32 \<times> u64 \<times> u64"

definition auth_of :: "cap_entry \<Rightarrow> authority" where
  "auth_of e = (ce_rights e, ce_word0 e, ce_word1 e)"

definition created :: "u32 hic_result \<Rightarrow> cap_state \<Rightarrow> authority set \<Rightarrow> authority set" where
  "created r s R = (case r of Inl _ \<Rightarrow> R | Inr c \<Rightarrow> insert (auth_of (cap_at s c)) R)"

inductive cap_step :: "cap_state \<times> authority set \<Rightarrow> cap_state \<times> authority set \<Rightarrow> bool" where
  create_memory: "cap_create_memory owner base sz rights out_ok s = (r, s') \<Longrightarrow>
     cap_step (s, R) (s', created r s' R)"
| create_thread: "cap_create_thread owner tid out_ok s = (r, s') \<Longrightarrow>
     cap_step (s, R) (s', created r s' R)"
| create_logical_core: "cap_create_logical_core owner lc flgs qta rights out_ok s = (r, s') \<Longrightarrow>
     cap_step (s, R) (s', created r s' R)"
| create_logical_core_with_policy:
    "cap_create_logical_core_with_policy owner lc flgs qta rights policy out_ok doms s = (r, s') \<Longrightarrow>
     cap_step (s, R) (s', created r s' R)"
| transfer: "cap_transfer from to cap out_ok s = (h, s') \<Longrightarrow> cap_step (s, R) (s', R)"
| attenuate: "cap_transfer_with_attenuation from to cap rights out_ok s = (h, s') \<Longrightarrow>
     cap_step (s, R) (s', R)"
| derive: "cap_derive owner parent rights out_ok s = (r, s') \<Longrightarrow> cap_step (s, R) (s', R)"
| derive_with_policy: "cap_derive_with_policy owner parent rights policy out_ok s = (r, s') \<Longrightarrow>
     cap_step (s, R) (s', R)"
| revoke: "cap_revoke cap s = (u, s') \<Longrightarrow> cap_step (s, R) (s', R)"
| init_key: "cap_step (s, R) (cap_init_domain_key domain ts s, R)"
| set_privileged: "cap_step (s, R) (cap_set_privileged_domain domain privileged s, R)"

inductive cap_reachable :: "cap_state \<times> authority set \<Rightarrow> bool" where
  boot: "pmm_wf (cs_pmm s) \<Longrightarrow> cap_reachable (capability_system_init s, {(0, 0, 0)})"
| step: "cap_reachable x \<Longrightarrow> cap_step x y \<Longrightarrow> cap_reachable y"

inductive_cases cap_stepE: "cap_step x y"

section \<open>Authority\<close>

text \<open>
  An entry is within an authority if its rights are a subset, the first object word is the
  same, and the second differs at most in the two policy bytes.
\<close>

definition within :: "authority \<Rightarrow> cap_entry \<Rightarrow> bool" where
  "within a e \<longleftrightarrow> (case a of (r, w0, w1) \<Rightarrow>
     ce_rights e AND NOT r = 0 \<and> ce_word0 e = w0 \<and>
     ce_word1 e AND NOT 0xFFFF00 = w1 AND NOT 0xFFFF00)"

definition authorised :: "authority set \<Rightarrow> cap_entry \<Rightarrow> bool" where
  "authorised R e \<longleftrightarrow> (\<exists>a\<in>R. within a e)"

definition auth_ok :: "cap_state \<times> authority set \<Rightarrow> bool" where
  "auth_ok x \<longleftrightarrow> (case x of (s, R) \<Rightarrow> cap_wf s \<and>
     (\<forall>c. unat c < 2048 \<longrightarrow> ce_id (cap_at s c) = c \<longrightarrow> authorised R (cap_at s c)))"

lemma subset_mask_trans:
  fixes a b c :: u32
  assumes "a AND NOT b = 0" and "b AND NOT c = 0"
  shows "a AND NOT c = 0"
proof (rule bit_word_eqI)
  fix n assume n: "n < LENGTH(32)"
  have "bit a n \<longrightarrow> bit b n" and "bit b n \<longrightarrow> bit c n"
    using arg_cong [OF assms(1), of "\<lambda>w. bit w n"] arg_cong [OF assms(2), of "\<lambda>w. bit w n"] n
    by (auto simp: bit_simps)
  then show "bit (a AND NOT c) n = bit (0 :: u32) n" by (auto simp: bit_simps)
qed

lemma and_eq_self_subset: "a AND b = a \<Longrightarrow> a AND NOT b = (0 :: u32)"
  by (rule bit_word_eqI) (auto simp: bit_simps bit_eq_iff [where 'a = "32 word"])

lemma set_byte_12_mask:
  assumes "n = 1 \<or> n = 2"
  shows "set_byte n b w AND NOT 0xFFFF00 = w AND NOT 0xFFFF00"
proof -
  have m: "(0xFFFF00 :: u64) = push_bit 8 (mask 16)" by (simp add: mask_eq_exp_minus_1 push_bit_eq_mult)
  show ?thesis unfolding m using assms
    by (intro bit_word_eqI) (auto simp: bit_simps bit_set_byte)
qed

lemma set_policy_mask:
  "set_byte 2 p (set_byte 1 q w) AND NOT 0xFFFF00 = w AND NOT 0xFFFF00"
  by (simp only: set_byte_12_mask simp_thms)

lemma authorised_attenuate:
  assumes "authorised R e" and "ce_rights e' AND NOT (ce_rights e) = 0" and "ce_word0 e' = ce_word0 e"
    and "ce_word1 e' AND NOT 0xFFFF00 = ce_word1 e AND NOT 0xFFFF00"
  shows "authorised R e'"
  using assms subset_mask_trans [OF assms(2)] by (fastforce simp: authorised_def within_def)

lemma authorised_mono: "authorised R e \<Longrightarrow> R \<subseteq> R' \<Longrightarrow> authorised R' e"
  by (auto simp: authorised_def)

lemma authorised_self: "auth_of e \<in> R \<Longrightarrow> authorised R e"
  by (force simp: authorised_def within_def auth_of_def)

text \<open>The common shape of every step: one entry changes, and it is authorised or free.\<close>

lemma auth_ok_one:
  assumes "auth_ok (s, R)" and "cap_wf s'" and "R \<subseteq> R'"
    and "\<And>i. i \<noteq> unat c \<Longrightarrow> g_global_cap_table s' i = g_global_cap_table s i"
    and "ce_id (cap_at s' c) = c \<Longrightarrow> unat c < 2048 \<Longrightarrow> authorised R' (cap_at s' c)"
  shows "auth_ok (s', R')"
  unfolding auth_ok_def prod.case
proof (intro conjI allI impI)
  fix d :: u32 assume d: "unat d < 2048" "ce_id (cap_at s' d) = d"
  show "authorised R' (cap_at s' d)"
  proof (cases "d = c")
    case True
    then show ?thesis using assms(5) d by simp
  next
    case False
    then have same: "cap_at s' d = cap_at s d" using assms(4) by (simp add: word_unat_eq_iff)
    then have "authorised R (cap_at s d)" using assms(1) d by (simp add: auth_ok_def)
    then show ?thesis using same assms(3) authorised_mono by simp
  qed
qed (fact assms(2))

lemma auth_ok_same:
  assumes "auth_ok (s, R)" and "cap_wf s'" and "g_global_cap_table s' = g_global_cap_table s"
  shows "auth_ok (s', R)"
  using assms by (simp add: auth_ok_def)

lemma auth_okD:
  assumes "auth_ok (s, R)"
  shows "cap_wf s" and "unat c < 2048 \<Longrightarrow> ce_id (cap_at s c) = c \<Longrightarrow> authorised R (cap_at s c)"
  using assms by (auto simp: auth_ok_def)

lemma auth_ok_created:
  assumes "auth_ok (s, R)" and "cap_wf s'" and err: "\<And>e. r = Inl e \<Longrightarrow> s' = s"
    and "\<And>c i. r = Inr c \<Longrightarrow> i \<noteq> unat c \<Longrightarrow> g_global_cap_table s' i = g_global_cap_table s i"
  shows "auth_ok (s', created r s' R)"
proof (cases r)
  case (Inl e)
  then show ?thesis using assms by (simp add: created_def)
next
  case (Inr c)
  then show ?thesis
    using assms by (intro auth_ok_one [OF assms(1,2), where c = c]) (auto simp: created_def intro: authorised_self)
qed

lemma auth_ok_transfer:
  assumes ok: "auth_ok (s, R)" and tr: "cap_transfer from to cap out_ok s = (h, s')"
  shows "auth_ok (s', R)"
proof (cases h)
  case (Inl e)
  then show ?thesis using ok tr cap_transfer_errD by blast
next
  case (Inr u)
  note D = cap_transfer_okD [OF tr [unfolded Inr]]
  note A = auth_okD(2) [OF ok D(3,4)]
  show ?thesis
    by (rule auth_ok_one [OF ok cap_transfer_wf [OF auth_okD(1) [OF ok] tr], where c = cap])
       (auto simp: D(7) intro: authorised_attenuate [OF A])
qed

lemma auth_ok_attenuate:
  assumes ok: "auth_ok (s, R)" and tr: "cap_transfer_with_attenuation from to cap rg out_ok s = (h, s')"
  shows "auth_ok (s', R)"
proof (cases h)
  case (Inl e)
  then show ?thesis using ok tr cap_transfer_with_attenuation_errD auth_okD(1) by blast
next
  case (Inr u)
  note wf = auth_okD(1) [OF ok]
  from tr [unfolded Inr] obtain c where D: "unat cap < 2048" "ce_id (cap_at s cap) = cap"
    "rg AND ce_rights (cap_at s cap) = rg"
    "s' = (let s1 = upd_cap c (\<lambda>e. e\<lparr> ce_id := c, ce_rights := rg, ce_owner := to, ce_flags := 0,
                         ce_word0 := ce_word0 (cap_at s cap), ce_word1 := ce_word1 (cap_at s cap) \<rparr>) s
           in if has_child_room cap s1 then add_child cap c s1 else s1)"
    by (rule cap_transfer_with_attenuation_okD [OF wf])
  note A = auth_okD(2) [OF ok D(1,2)]
  show ?thesis
    by (rule auth_ok_one [OF ok cap_transfer_with_attenuation_wf [OF wf tr], where c = c])
       (auto simp: D(4) Let_def intro!: authorised_attenuate [OF A] and_eq_self_subset [OF D(3)])
qed

lemma auth_ok_derive:
  assumes ok: "auth_ok (s, R)" and de: "cap_derive owner parent rg out_ok s = (h, s')"
  shows "auth_ok (s', R)"
proof (cases h)
  case (Inl e)
  then show ?thesis using ok de cap_derive_errD by blast
next
  case (Inr c)
  note wf = auth_okD(1) [OF ok]
  note D = cap_derive_okD [OF wf de [unfolded Inr]]
  note A = auth_okD(2) [OF ok D(1,2)]
  show ?thesis
    by (rule auth_ok_one [OF ok cap_derive_wf [OF wf de], where c = c])
       (auto simp: D(10) Let_def intro!: authorised_attenuate [OF A] D(4))
qed

lemma auth_ok_derive_with_policy:
  assumes ok: "auth_ok (s, R)" and de: "cap_derive_with_policy owner parent rg policy out_ok s = (h, s')"
  shows "auth_ok (s', R)"
proof (cases "cap_derive owner parent rg out_ok s")
  case (Pair r1 s1)
  note ok1 = auth_ok_derive [OF ok Pair]
  note wf = auth_okD(1) [OF ok]
  note wf' = cap_derive_with_policy_wf [OF wf de]
  show ?thesis
  proof (cases r1)
    case (Inl e)
    then show ?thesis using de Pair ok1 by (simp add: cap_derive_with_policy_def)
  next
    case (Inr c)
    note D = cap_derive_okD [OF wf Pair [unfolded Inr]]
    have "ce_id (cap_at s1 c) = c" by (simp add: D(10) Let_def)
    note A = auth_okD(2) [OF ok1 D(7) this]
    have "s' = s1\<lparr> cap_fault := True \<rparr> \<or> s' = upd_cap c (\<lambda>e. e\<lparr> ce_id := 0 \<rparr>) s1 \<or>
        s' = upd_cap c (\<lambda>e. e\<lparr> ce_word1 := set_byte 2 policy (set_byte 1 policy (ce_word1 e)) \<rparr>) s1"
      using de Pair Inr by (auto simp: cap_derive_with_policy_def split: option.splits bool.splits)
    then have "(\<forall>i. i \<noteq> unat c \<longrightarrow> g_global_cap_table s' i = g_global_cap_table s1 i) \<and>
        ce_rights (cap_at s' c) = ce_rights (cap_at s1 c) \<and> ce_word0 (cap_at s' c) = ce_word0 (cap_at s1 c) \<and>
        ce_word1 (cap_at s' c) AND NOT 0xFFFF00 = ce_word1 (cap_at s1 c) AND NOT 0xFFFF00"
      using set_policy_mask by (elim disjE) simp_all
    then show ?thesis
      by (intro auth_ok_one [OF ok1 wf', where c = c] authorised_attenuate [OF A]) simp_all
  qed
qed

lemma auth_ok_revoke:
  assumes ok: "auth_ok (s, R)" and rv: "cap_revoke cap s = (u, s')"
  shows "auth_ok (s', R)"
  unfolding auth_ok_def prod.case
proof (intro conjI allI impI)
  note wf = auth_okD(1) [OF ok]
  show "cap_wf s'" by (rule cap_revoke_wf(1) [OF wf rv])
  fix c assume c: "unat c < 2048" "ce_id (cap_at s' c) = c"
  from only_clearsD(1) [OF cap_revoke_wf(2) [OF wf rv], of "unat c"]
  show "authorised R (cap_at s' c)"
  proof
    assume "cap_at s' c = cap_at s c"
    then show ?thesis using auth_okD(2) [OF ok c(1)] c(2) by simp
  next
    assume cl: "cap_at s' c = cleared (cap_at s c)"
    then have "c = 0" using c(2) by (simp add: cleared_def)
    then have "authorised R (cap_at s c)" using auth_okD(2) [OF ok c(1)] cap_wf_null [OF wf] by simp
    then show ?thesis unfolding cl by (rule authorised_attenuate) (simp_all add: cleared_def)
  qed
qed

lemma cap_wf_key [simp]: "cap_wf (cap_init_domain_key d ts s) = cap_wf s"
  by (simp add: cap_init_domain_key_def cap_wf_def cap_shape_def)

lemma cap_wf_privileged [simp]: "cap_wf (cap_set_privileged_domain d b s) = cap_wf s"
  by (simp add: cap_set_privileged_domain_def cap_wf_def cap_shape_def Let_def)

lemma cap_create_with_policy_frame:
  assumes "cap_wf s"
    and "cap_create_logical_core_with_policy owner lc flgs qta rights policy out_ok doms s = (r, s')"
  shows "r = Inl e \<Longrightarrow> s' = s"
    and "r = Inr c \<Longrightarrow> i \<noteq> unat c \<Longrightarrow> g_global_cap_table s' i = g_global_cap_table s i"
proof -
  show "r = Inl e \<Longrightarrow> s' = s"
    using assms(2) cap_create_logical_core_errD
    by (auto simp: cap_create_logical_core_with_policy_def split: if_splits prod.splits sum.splits)
  assume "r = Inr c" and i: "i \<noteq> unat c"
  with assms(2) obtain s1 where "cap_create_logical_core owner lc flgs qta rights out_ok s = (Inr c, s1)"
    and "s' = upd_cap c (\<lambda>e. e\<lparr> ce_word1 := set_byte 2 policy (set_byte 1 policy (ce_word1 e)) \<rparr>) s1"
    by (auto simp: cap_create_logical_core_with_policy_def split: if_splits prod.splits sum.splits)
  with i cap_create_logical_core_okD(5) [OF assms(1) this(1)]
  show "g_global_cap_table s' i = g_global_cap_table s i" by simp
qed

lemma auth_ok_step:
  assumes "cap_step x y" and "auth_ok x"
  shows "auth_ok y"
  using assms
proof (induction rule: cap_step.induct)
  case (create_memory owner base sz rights out_ok s r s' R)
  note wf = auth_okD(1) [OF create_memory.prems]
  show ?case
  proof (rule auth_ok_created [OF create_memory.prems cap_create_memory_wf [OF wf create_memory.hyps]])
    show "s' = s" if "r = Inl e" for e using create_memory.hyps that cap_create_memory_errD by blast
    show "g_global_cap_table s' i = g_global_cap_table s i" if "r = Inr c" "i \<noteq> unat c" for c i
      using cap_create_memory_okD(5) [OF wf create_memory.hyps [unfolded that(1)]] that(2) by simp
  qed
next
  case (create_thread owner tid out_ok s r s' R)
  note wf = auth_okD(1) [OF create_thread.prems]
  show ?case
  proof (rule auth_ok_created [OF create_thread.prems cap_create_thread_wf [OF wf create_thread.hyps]])
    show "s' = s" if "r = Inl e" for e using create_thread.hyps that cap_create_thread_errD by blast
    show "g_global_cap_table s' i = g_global_cap_table s i" if "r = Inr c" "i \<noteq> unat c" for c i
      using cap_create_thread_okD(5) [OF wf create_thread.hyps [unfolded that(1)]] that(2) by simp
  qed
next
  case (create_logical_core owner lc flgs qta rights out_ok s r s' R)
  note wf = auth_okD(1) [OF create_logical_core.prems]
  show ?case
  proof (rule auth_ok_created [OF create_logical_core.prems cap_create_logical_core_wf [OF wf create_logical_core.hyps]])
    show "s' = s" if "r = Inl e" for e
      using create_logical_core.hyps that cap_create_logical_core_errD by blast
    show "g_global_cap_table s' i = g_global_cap_table s i" if "r = Inr c" "i \<noteq> unat c" for c i
      using cap_create_logical_core_okD(5) [OF wf create_logical_core.hyps [unfolded that(1)]] that(2) by simp
  qed
next
  case (create_logical_core_with_policy owner lc flgs qta rights policy out_ok doms s r s' R)
  note wf = auth_okD(1) [OF create_logical_core_with_policy.prems]
  note hyp = create_logical_core_with_policy.hyps
  show ?case
    using cap_create_with_policy_frame [OF wf hyp]
    by (rule auth_ok_created [OF create_logical_core_with_policy.prems
          cap_create_logical_core_with_policy_wf [OF wf hyp]])
next
  case (init_key s R domain ts)
  have "g_global_cap_table (cap_init_domain_key domain ts s) = g_global_cap_table s"
    by (simp add: cap_init_domain_key_def)
  with auth_okD(1) [OF init_key] show ?case by (intro auth_ok_same [OF init_key]) simp_all
next
  case (set_privileged s R domain privileged)
  have "g_global_cap_table (cap_set_privileged_domain domain privileged s) = g_global_cap_table s"
    by (simp add: cap_set_privileged_domain_def Let_def)
  with auth_okD(1) [OF set_privileged] show ?case by (intro auth_ok_same [OF set_privileged]) simp_all
qed (erule (1) auth_ok_transfer [rotated] auth_ok_attenuate [rotated] auth_ok_derive [rotated]
    auth_ok_derive_with_policy [rotated] auth_ok_revoke [rotated])+

lemma capability_system_init_wf: "pmm_wf (cs_pmm s) \<Longrightarrow> cap_wf (capability_system_init s)"
  by (auto simp: capability_system_init_def cap_wf_def cap_shape_def cap_ids_ok_def deriv_ok_def
        zero_cap_entry_def zero_derivative_def)

lemma reachable_auth_ok: "cap_reachable x \<Longrightarrow> auth_ok x"
proof (induction rule: cap_reachable.induct)
  case (boot s)
  have "authorised {(0, 0, 0)} zero_cap_entry"
    by (simp add: authorised_def within_def zero_cap_entry_def)
  then show ?case
    using capability_system_init_wf [OF boot] by (simp add: auth_ok_def capability_system_init_def)
qed (rule auth_ok_step)
end
