(* ===== verification/Hic_Cap_Props.thy ===== *)
theory Hic_Cap_Props
  imports Hic_Cap_Authority
begin

text \<open>
  The properties of the capability table that a client relies on, and the places where the
  code does less than its comments promise: authority and its confinement, revocation, handles
  and their reuse, the null capability.
\<close>

section \<open>A small history\<close>

text \<open>Domain 1 creates a page capability, derives two children and grants handles.\<close>

definition cap_zero_state :: cap_state where
  "cap_zero_state = \<lparr> g_global_cap_table = (\<lambda>_. zero_cap_entry), g_derivatives = (\<lambda>_. zero_derivative),
     g_domain_keys = (\<lambda>_. zero_key), g_privileged_domain_bitmap = (\<lambda>_. 0),
     g_shmem_regions = (\<lambda>_. \<lparr> sr_phys_base = 0, sr_size = 0, sr_owner = 0, sr_ref_count = 0, sr_flags = 0 \<rparr>),
     cs_pmm = pmm_small, cap_fault = False \<rparr>"

definition ex_boot :: cap_state where
  "ex_boot = cap_init_domain_key 2 7 (cap_init_domain_key 1 5 (capability_system_init cap_zero_state))"

definition ex_mem :: cap_state where
  "ex_mem = snd (cap_create_memory 1 0x100000 0x1000 3 True ex_boot)"

definition ex_two :: cap_state where
  "ex_two = snd (cap_derive 1 1 3 True (snd (cap_derive 1 1 1 True ex_mem)))"

lemma ex_mem_step: "cap_create_memory 1 0x100000 0x1000 3 True ex_boot = (Inr 1, ex_mem)"
proof -
  have "fst (cap_create_memory 1 0x100000 0x1000 3 True ex_boot) = Inr 1" by code_simp
  then show ?thesis by (simp add: ex_mem_def prod_eq_iff)
qed

lemma ex_two_step: "cap_derive 1 1 3 True (snd (cap_derive 1 1 1 True ex_mem)) = (Inr 3, ex_two)"
proof -
  have "fst (cap_derive 1 1 3 True (snd (cap_derive 1 1 1 True ex_mem))) = Inr 3" by code_simp
  then show ?thesis by (simp add: ex_two_def prod_eq_iff)
qed

lemma cap_reachable_boot: "cap_reachable (ex_boot, {(0, 0, 0)})"
proof -
  have "pmm_wf (cs_pmm cap_zero_state)" using pmm_small_wf by (simp add: cap_zero_state_def)
  then have "cap_reachable (capability_system_init cap_zero_state, {(0, 0, 0)})" by (rule cap_reachable.boot)
  then show ?thesis unfolding ex_boot_def
    by (rule cap_reachable.step [OF cap_reachable.step, OF _ cap_step.init_key cap_step.init_key])
qed

lemma cap_reachable_mem: "cap_reachable (ex_mem, {(3, 0x100000, 0x1000), (0, 0, 0)})"
proof -
  have "auth_of (cap_at ex_mem 1) = (3, 0x100000, 0x1000)" by code_simp
  then have "created (Inr 1) ex_mem {(0, 0, 0)} = {(3, 0x100000, 0x1000), (0, 0, 0)}"
    by (simp add: created_def)
  then show ?thesis
    using cap_reachable.step [OF cap_reachable_boot cap_step.create_memory [OF ex_mem_step]] by simp
qed

lemma cap_reachable_two: "cap_reachable (ex_two, {(3, 0x100000, 0x1000), (0, 0, 0)})"
  using cap_reachable.step [OF cap_reachable.step [OF cap_reachable_mem cap_step.derive [OF prod.collapse [symmetric]]]
      cap_step.derive [OF ex_two_step]] .

lemma ex_mem_wf: "cap_wf ex_mem" and ex_two_wf: "cap_wf ex_two"
  using reachable_auth_ok [OF cap_reachable_mem] reachable_auth_ok [OF cap_reachable_two]
  by (auto dest: auth_okD)

lemma cap_slot_scan_one:
  assumes "ce_id (t 1) = 0"
  shows "cap_slot_scan t 2048 0 HIC_CAP_INVALID = 1"
proof -
  have "find_first (\<lambda>k. k \<noteq> 0 \<and> ce_id (t k) = 0) 0 2048 = Some 1"
    using assms by (auto simp: find_first_Some_iff)
  then have "slot_opt (cap_slot_scan t 2048 0 HIC_CAP_INVALID) = Some 1"
    by (simp only: cap_slot_scan_find)
  then show ?thesis
    by (auto simp: slot_opt_def word_unat_eq_iff split: if_splits)
qed

section \<open>Authority\<close>



text \<open>
  The policy variant of derivation writes the policy into bytes 1 and 2 of the second
  object word whatever the kind of the parent. For a memory capability these are bytes of its
  size: from a capability for one page at \<open>0x100000\<close>, its owner derives one for \<open>0x30300\<close>
  bytes at the same address.
\<close>

lemma derive_with_policy_enlarges_memory:
  "\<exists>s'. cap_derive_with_policy 1 1 3 3 True ex_mem = (Inr 2, s') \<and>
     ce_word1 (cap_at ex_mem 1) = 0x1000 \<and>
     ce_word0 (cap_at s' 2) = 0x100000 \<and> ce_word1 (cap_at s' 2) = 0x30300"
proof -
  have "fst (cap_derive_with_policy 1 1 3 3 True ex_mem) = Inr 2"
    "ce_word1 (cap_at ex_mem 1) = 0x1000"
    "ce_word0 (cap_at (snd (cap_derive_with_policy 1 1 3 3 True ex_mem)) 2) = 0x100000"
    "ce_word1 (cap_at (snd (cap_derive_with_policy 1 1 3 3 True ex_mem)) 2) = 0x30300"
    by code_simp+
  then show ?thesis by (intro exI [of _ "snd (cap_derive_with_policy 1 1 3 3 True ex_mem)"])
      (simp add: prod_eq_iff)
qed

section \<open>Revocation\<close>

text \<open>
  C2. Revocation takes effect at once: after a successful \<open>cap_revoke c\<close> no handle for \<open>c\<close>,
  whatever its token, passes the access check for any domain and any rights, and no
  capability comes into being or changes: one that still exists has the entry it had before.
\<close>

theorem cap_revoke_effective:
  assumes "cap_wf s" and "cap_revoke c s = (Inr u, s')"
  shows "(\<forall>d h req. cap_get_cap_id h = c \<longrightarrow> cap_check_access d h req s' \<noteq> Inr ()) \<and>
    (\<forall>c'. c' \<noteq> 0 \<longrightarrow> capability_exists c' s' \<longrightarrow>
       capability_exists c' s \<and> cap_at s' c' = cap_at s c') \<and> cap_wf s'"
proof (intro conjI allI impI)
  note D = cap_revoke_okD [OF assms]
  show "cap_wf s'" by (rule cap_revoke_wf(1) [OF assms])
  show "cap_check_access d h req s' \<noteq> Inr ()" if "cap_get_cap_id h = c" for d h req
    using D(1,4) that by (auto simp: cap_check_access_def Let_def cleared_def)
  fix c' assume c': "c' \<noteq> 0" "capability_exists c' s'"
  then show same: "cap_at s' c' = cap_at s c'"
    using only_clearsD(1) [OF cap_revoke_wf(2) [OF assms], of "unat c'"]
    by (auto simp: capability_exists_def cleared_def)
  show "capability_exists c' s" using c'(2) same by (simp add: capability_exists_def)
qed

theorem cap_revoke_effective_witness:
  "cap_wf (snd (cap_revoke 2 ex_two)) \<and>
   cap_check_access 1 (cap_make_handle (g_domain_keys ex_two) 1 2) 0 (snd (cap_revoke 2 ex_two)) \<noteq> Inr ()"
proof -
  have "fst (cap_revoke 2 ex_two) = Inr ()" by code_simp
  then have "cap_revoke 2 ex_two = (Inr (), snd (cap_revoke 2 ex_two))" by (simp add: prod_eq_iff)
  from cap_revoke_effective [OF ex_two_wf this] show ?thesis
    by (metis cap_get_cap_id_make)
qed

text \<open>
  C24. Revocation of a capability misses half of its children. The loop over the child list
  advances by one while each revoked child takes itself out of that list by moving the last
  child into its place. When the \<open>n\<close> children are leaves made by \<open>cap_derive\<close>, exactly the
  first \<open>(n + 1) div 2\<close> are revoked and the others go on existing with all their rights.
\<close>

theorem cap_revoke_keeps_half_of_children:
  assumes "cap_wf s" and "p \<noteq> 0" and "capability_exists p s"
    and "n = unat (dv_child_count (deriv_at s p))" and "ch = dv_children (deriv_at s p)"
    and "\<And>j. j < n \<Longrightarrow> is_leaf_of p (ch j) s" and "inj_on ch {..<n}"
  shows "\<exists>s'. cap_revoke p s = (Inr (), s') \<and>
    (\<forall>j. j < n \<longrightarrow> (capability_exists (ch j) s' \<longleftrightarrow> (n + 1) div 2 \<le> j))"
proof -
  have p: "unat p < 2048" "ce_id (cap_at s p) = p"
    using assms(3) by (auto simp: capability_exists_def cap_ge_iff)
  define s' where "s' = snd (cap_revoke p s)"
  have rv: "cap_revoke p s = (Inr (), s')"
    using cap_revoke_succeeds [OF assms(2) p] by (simp add: s'_def prod_eq_iff)
  have body: "s' = revoke_body (cap_revoke_r (Suc 15)) p s"
    using cap_revoke_okD(5) [OF assms(1) rv] by simp
  have E: "cap_at s' (ch j) = (if j < (n + 1) div 2 then cleared (cap_at s (ch j)) else cap_at s (ch j))"
    if "j < n" for j
    by (rule revoke_leaves [OF assms(1,2) p assms(4,5) _ assms(7) body that]) (rule assms(6))
  have "capability_exists (ch j) s' \<longleftrightarrow> (n + 1) div 2 \<le> j" if "j < n" for j
    using E [OF that] assms(6) [OF that] by (simp add: capability_exists_def is_leaf_of_def cap_ge_iff cleared_def)
  with rv show ?thesis by blast
qed

theorem cap_revoke_keeps_half_of_children_witness:
  "\<exists>s'. cap_revoke 1 ex_two = (Inr (), s') \<and> \<not> capability_exists 2 s' \<and> capability_exists 3 s'"
proof -
  have "dv_child_count (deriv_at ex_two 1) = 2" "dv_children (deriv_at ex_two 1) 0 = 2"
    "dv_children (deriv_at ex_two 1) 1 = 3" "capability_exists 1 ex_two"
    "is_leaf_of 1 2 ex_two" "is_leaf_of 1 3 ex_two"
    by code_simp+
  moreover from this have "is_leaf_of 1 (dv_children (deriv_at ex_two 1) j) ex_two" if "j < 2" for j
    using that by (auto simp: less_2_cases_iff)
  moreover from calculation have "inj_on (dv_children (deriv_at ex_two 1)) {..<2}"
    by (auto simp: inj_on_def less_2_cases_iff)
  ultimately obtain s' where s': "cap_revoke 1 ex_two = (Inr (), s')" and
      half: "\<And>j. j < 2 \<Longrightarrow> capability_exists (dv_children (deriv_at ex_two 1) j) s' \<longleftrightarrow> (2 + 1) div 2 \<le> j"
    using cap_revoke_keeps_half_of_children [OF ex_two_wf, of 1 2] by auto
  show ?thesis
    using s' half [of 0] half [of 1] \<open>dv_children (deriv_at ex_two 1) 0 = 2\<close>
      \<open>dv_children (deriv_at ex_two 1) 1 = 3\<close> by auto
qed

section \<open>Handles\<close>

lemma cap_check_access_iff:
  "cap_check_access d h req s = Inr () \<longleftrightarrow>
     h \<noteq> CAP_HANDLE_INVALID \<and> cap_get_cap_id h < CAP_TABLE_SIZE \<and>
     ce_id (cap_at s (cap_get_cap_id h)) = cap_get_cap_id h \<and>
     \<not> entry_revoked (cap_at s (cap_get_cap_id h)) \<and>
     ce_rights (cap_at s (cap_get_cap_id h)) AND req = req \<and>
     cap_validate_token (g_domain_keys s) d (cap_get_cap_id h) (cap_get_token h)"
  by (simp add: cap_check_access_def Let_def not_le)

lemma own_handle_check:
  assumes "capability_exists c s"
  shows "cap_check_access d (cap_make_handle (g_domain_keys s) d c) req s = Inr () \<longleftrightarrow>
    ce_rights (cap_at s c) AND req = req"
  using assms cap_make_handle_valid [of "g_domain_keys s" d c]
  by (simp add: cap_check_access_iff capability_exists_def cap_validate_token_def not_le)

text \<open>
  C25. A granted handle opens exactly the rights of its capability: for an existing capability
  the handle returned by \<open>cap_grant\<close> passes the access check for the domain it was granted to
  if and only if the rights asked for are among those of the entry.
\<close>

theorem cap_grant_check:
  assumes "capability_exists c s" and "cap_grant d c True s = Inr h"
  shows "cap_check_access d h req s = Inr () \<longleftrightarrow> ce_rights (cap_at s c) AND req = req"
proof -
  have h: "h = cap_make_handle (g_domain_keys s) d c"
    using assms(2) by (auto simp: cap_grant_def split: if_splits)
  show ?thesis unfolding h by (rule own_handle_check [OF assms(1)])
qed

theorem cap_grant_check_witness:
  "cap_check_access 1 (cap_make_handle (g_domain_keys ex_two) 1 2) 1 ex_two = Inr () \<and>
   cap_check_access 1 (cap_make_handle (g_domain_keys ex_two) 1 2) 2 ex_two \<noteq> Inr ()"
proof -
  have ex: "capability_exists 2 ex_two" "ce_rights (cap_at ex_two 2) = 1" by code_simp+
  then have "cap_grant 1 2 True ex_two = Inr (cap_make_handle (g_domain_keys ex_two) 1 2)"
    by (simp add: cap_grant_def capability_exists_def hic_consts word_le_nat_alt)
  from cap_grant_check [OF ex(1) this] show ?thesis using ex(2) by simp
qed

text \<open>
  C26. The inlined check agrees with the full one on every handle whose identifier lies in the
  table, including the invalid handle 0: the forced top bit of the token makes it fail there.
\<close>

theorem cap_fast_check_agrees:
  assumes "cap_get_cap_id h < CAP_TABLE_SIZE"
  shows "cap_fast_check d h req s \<longleftrightarrow> cap_check_access d h req s = Inr ()"
proof (cases "h = CAP_HANDLE_INVALID")
  case True
  then have "cap_get_token h = 0" by (simp add: hic_consts cap_get_token_def)
  then have "cap_get_token h \<noteq> cap_generate_token k d c" for k c
    using token_top_bit [of k d c] by auto
  then show ?thesis using True by (simp add: cap_fast_check_def cap_check_access_iff Let_def)
next
  case False
  then show ?thesis using assms
    by (simp add: cap_fast_check_def cap_check_access_iff Let_def cap_validate_token_def) blast
qed

theorem cap_fast_check_agrees_witness:
  "cap_fast_check 1 (cap_make_handle (g_domain_keys ex_two) 1 2) 1 ex_two \<longleftrightarrow>
   cap_check_access 1 (cap_make_handle (g_domain_keys ex_two) 1 2) 1 ex_two = Inr ()"
  by (rule cap_fast_check_agrees) (simp add: hic_consts)

text \<open>
  C27. A handle survives the reuse of its slot. The token depends only on the key of the domain
  and on the identifier, so after a capability is revoked and its slot given to a new
  capability, of any owner and any memory, the old handle of any domain passes the access
  check on the new capability.
\<close>

theorem stale_handle_opens_new_capability:
  assumes "cap_wf s" and "cap_revoke c s = (Inr u, s1)"
    and "cap_create_memory owner base sz rights True s1 = (Inr c, s2)"
    and "rights AND req = req"
  shows "cap_check_access d (cap_make_handle (g_domain_keys s) d c) req s2 = Inr ()"
proof -
  have wf1: "cap_wf s1" by (rule cap_revoke_wf(1) [OF assms(1,2)])
  note D = cap_create_memory_okD [OF wf1 assms(3)]
  have keys: "g_domain_keys s2 = g_domain_keys s"
    using only_clearsD(2) [OF cap_revoke_wf(2) [OF assms(1,2)]] by (simp add: D(5))
  have "cap_at s2 c = (cap_at s1 c)\<lparr> ce_id := c, ce_rights := rights, ce_owner := owner,
            ce_flags := 0, ce_word0 := base, ce_word1 := sz \<rparr>" by (simp add: D(5))
  then show ?thesis
    using cap_make_handle_valid [of "g_domain_keys s" d c] D(2) assms(4)
    by (simp add: cap_check_access_iff cap_lt_iff keys cap_validate_token_def entry_revoked_def)
qed

theorem stale_handle_opens_new_capability_witness:
  "\<exists>s1 s2. cap_revoke 1 ex_mem = (Inr (), s1) \<and>
     cap_create_memory 2 0x200000 0x1000 3 True s1 = (Inr 1, s2) \<and>
     cap_check_access 1 (cap_make_handle (g_domain_keys ex_mem) 1 1) 3 s2 = Inr ()"
proof -
  define s1 where "s1 = snd (cap_revoke 1 ex_mem)"
  have "fst (cap_revoke 1 ex_mem) = Inr ()" by code_simp
  then have rv: "cap_revoke 1 ex_mem = (Inr (), s1)" by (simp add: s1_def prod_eq_iff)
  have "ce_id (g_global_cap_table s1 1) = 0"
    using cap_revoke_okD(4) [OF ex_mem_wf rv] by (simp add: cleared_def)
  from cap_slot_scan_one [of "g_global_cap_table s1", OF this] obtain s2 where
    cr: "cap_create_memory 2 0x200000 0x1000 3 True s1 = (Inr 1, s2)"
    by (simp add: cap_create_memory_def hic_consts)
  have "cap_check_access 1 (cap_make_handle (g_domain_keys ex_mem) 1 1) 3 s2 = Inr ()"
    by (rule stale_handle_opens_new_capability [OF ex_mem_wf rv cr]) simp
  with rv cr show ?thesis by blast
qed

text \<open>
  A transfer does not take the capability away from the sender: every handle for it that
  passed the access check before still passes afterwards, since the check looks at the token
  and not at the owner.
\<close>

lemma cap_transfer_keeps_old_handles:
  assumes "cap_transfer from to cap True s = (Inr h', s')"
    and "cap_check_access d h req s = Inr ()"
  shows "cap_check_access d h req s' = Inr ()"
proof -
  have s': "s' = upd_cap cap (\<lambda>e. e\<lparr> ce_owner := to \<rparr>) s" by (rule cap_transfer_okD(7) [OF assms(1)])
  have "entry_revoked (e\<lparr> ce_owner := to \<rparr>) = entry_revoked e" for e
    by (simp add: entry_revoked_def)
  then show ?thesis using assms(2) by (auto simp: s' cap_check_access_iff word_unat_eq_iff [symmetric])
qed

lemma cap_transfer_keeps_old_handles_witness:
  "\<exists>h' s'. cap_transfer 1 2 1 True ex_mem = (Inr h', s') \<and> ce_owner (cap_at s' 1) = 2 \<and>
     cap_check_access 1 (cap_make_handle (g_domain_keys ex_mem) 1 1) 3 s' = Inr ()"
proof -
  let ?s = "upd_cap 1 (\<lambda>e. e\<lparr> ce_owner := 2 \<rparr>) ex_mem"
  have ex: "capability_exists 1 ex_mem" "ce_rights (cap_at ex_mem 1) = 3" "ce_owner (cap_at ex_mem 1) = 1"
    by code_simp+
  then have tr: "cap_transfer 1 2 1 True ex_mem = (Inr (cap_make_handle (g_domain_keys ex_mem) 2 1), ?s)"
    by (simp add: cap_transfer_def cap_grant_def capability_exists_def hic_consts Let_def word_le_nat_alt)
  have "cap_check_access 1 (cap_make_handle (g_domain_keys ex_mem) 1 1) 3 ex_mem = Inr ()"
    using own_handle_check [OF ex(1)] ex(2) by simp
  from cap_transfer_keeps_old_handles [OF tr this] tr show ?thesis by auto
qed

text \<open>
  The null capability is not invalid. \<open>HIC_CAP_INVALID\<close> is 0 and slot 0 is never handed
  out, but an empty slot 0 carries its own index: in every well-formed state capability 0
  exists, can be granted to every domain, and its handle passes a check for no rights, while
  \<open>cap_revoke\<close> refuses it.
\<close>

lemma null_capability_exists:
  assumes "cap_wf s" and "d < HIC_DOMAIN_MAX"
  shows "capability_exists 0 s \<and>
    cap_grant d 0 True s = Inr (cap_make_handle (g_domain_keys s) d 0) \<and>
    cap_check_access d (cap_make_handle (g_domain_keys s) d 0) 0 s = Inr () \<and>
    cap_revoke 0 s = (Inl HIC_ERROR_CAP_INVALID, s)"
proof (intro conjI)
  note n = cap_wf_null [OF assms(1)]
  have nr: "\<not> entry_revoked (cap_at s 0)" by (rule cap_wf_not_revoked [OF assms(1)]) simp
  have lt: "\<not> CAP_TABLE_SIZE \<le> 0" by (simp add: hic_consts)
  show "capability_exists 0 s" using n nr lt by (simp add: capability_exists_def)
  show "cap_grant d 0 True s = Inr (cap_make_handle (g_domain_keys s) d 0)"
    using n assms(2) lt by (simp add: cap_grant_def not_le)
  show "cap_check_access d (cap_make_handle (g_domain_keys s) d 0) 0 s = Inr ()"
    using nr n lt cap_make_handle_valid [of "g_domain_keys s" d 0]
    by (simp add: cap_check_access_iff cap_validate_token_def word_gt_0)
  show "cap_revoke 0 s = (Inl HIC_ERROR_CAP_INVALID, s)" by (simp add: cap_revoke_def HIC_CAP_INVALID_def)
qed

lemma null_capability_exists_witness:
  "capability_exists 0 ex_mem \<and> cap_grant 5 0 True ex_mem = Inr (cap_make_handle (g_domain_keys ex_mem) 5 0)"
  using null_capability_exists [OF ex_mem_wf, of 5] by (simp add: hic_consts)
end
