(* ===== verification/Hic_Shmem.thy ===== *)
theory Hic_Shmem
  imports Hic_Cap_Props
begin

text \<open>
  Shared memory and the support for replacing running services, \<^verbatim>\<open>Core-0/capability.c\<close> from
  \<open>shmem_alloc\<close> to \<open>cap_get_service_instance_state\<close>. The region table is part of the capability
  state, because revocation releases regions; the tables of service instances and connection
  trackers form the record \<open>service_state\<close> around it.
\<close>

section \<open>Shared memory regions\<close>

definition SHMEM_FLAG_WRITABLE :: u32 where [hic_consts]: "SHMEM_FLAG_WRITABLE = 1"

text \<open>\<^verbatim>\<open>(u32)((size + PAGE_SIZE - 1) / PAGE_SIZE)\<close>, truncated to 32 bits.\<close>

definition shmem_pages :: "u64 \<Rightarrow> u32" where
  "shmem_pages sz = ucast ((sz + PAGE_SIZE - 1) div PAGE_SIZE)"

definition set_pmm :: "pmm \<Rightarrow> cap_state \<Rightarrow> cap_state" where
  "set_pmm p s = s\<lparr> cs_pmm := p \<rparr>"

definition free_region :: "cap_state \<Rightarrow> nat option" where
  "free_region s = find_first (\<lambda>i. sr_phys_base (g_shmem_regions s i) = 0) 0 MAX_SHMEM_REGIONS"

definition region_of :: "u64 \<Rightarrow> cap_state \<Rightarrow> nat option" where
  "region_of base s = find_first (\<lambda>i. sr_phys_base (g_shmem_regions s i) = base) 0 MAX_SHMEM_REGIONS"

definition shmem_alloc ::
    "u32 \<Rightarrow> u64 \<Rightarrow> u32 \<Rightarrow> bool \<Rightarrow> cap_state \<Rightarrow> (u32 \<times> u64) hic_result \<times> cap_state" where
  "shmem_alloc owner sz flgs outs_ok s =
     (if owner \<ge> HIC_DOMAIN_MAX \<or> sz = 0 \<or> \<not> outs_ok then (Inl HIC_ERROR_INVALID_PARAM, s)
      else case free_region s of
        None \<Rightarrow> (Inl HIC_ERROR_NO_RESOURCE, s)
      | Some i \<Rightarrow>
          let pages = shmem_pages sz
          in case pmm_alloc_frames pages True (cs_pmm s) of
            (Inl _, p) \<Rightarrow> (Inl HIC_ERROR_NO_MEMORY, set_pmm p s)
          | (Inr base, p) \<Rightarrow>
              let s1 = set_pmm p s;
                  rights = (if flgs AND SHMEM_FLAG_WRITABLE \<noteq> 0 then CAP_MEM_READ OR CAP_MEM_WRITE
                            else CAP_MEM_READ)
              in case cap_create_memory owner base (frames_to_bytes pages) rights True s1 of
                (Inl e, s2) \<Rightarrow> (Inl e, set_pmm (snd (pmm_free_frames base pages (cs_pmm s2))) s2)
              | (Inr cap, s2) \<Rightarrow>
                  let s3 = upd_region i (\<lambda>_. \<lparr> sr_phys_base = base, sr_size = frames_to_bytes pages,
                                              sr_owner = owner, sr_ref_count = 1, sr_flags = flgs \<rparr>) s2
                  in case cap_grant owner cap True s3 of
                    Inr h \<Rightarrow> (Inr (cap, h), s3)
                  | Inl e \<Rightarrow>
                      let s4 = snd (cap_revoke cap s3);
                          s5 = set_pmm (snd (pmm_free_frames base pages (cs_pmm s4))) s4
                      in (Inl e, upd_region i (\<lambda>r. r\<lparr> sr_phys_base := 0 \<rparr>) s5))"

definition shmem_map ::
    "u32 \<Rightarrow> u32 \<Rightarrow> u32 \<Rightarrow> u32 \<Rightarrow> bool \<Rightarrow> cap_state \<Rightarrow> u64 hic_result \<times> cap_state" where
  "shmem_map from to cap rights out_ok s =
     (if from \<ge> HIC_DOMAIN_MAX \<or> to \<ge> HIC_DOMAIN_MAX \<or> cap \<ge> CAP_TABLE_SIZE \<or> \<not> out_ok
      then (Inl HIC_ERROR_INVALID_PARAM, s)
      else if ce_id (cap_at s cap) \<noteq> cap \<or> entry_revoked (cap_at s cap)
      then (Inl HIC_ERROR_CAP_INVALID, s)
      else if ce_owner (cap_at s cap) \<noteq> from then (Inl HIC_ERROR_PERMISSION, s)
      else if rights AND ce_rights (cap_at s cap) \<noteq> rights then (Inl HIC_ERROR_PERMISSION, s)
      else case cap_transfer_with_attenuation from to cap rights out_ok s of
        (Inl e, s1) \<Rightarrow> (Inl e, s1)
      | (Inr h, s1) \<Rightarrow>
          (Inr h,
           case region_of (ce_word0 (cap_at s1 cap)) s1 of
             None \<Rightarrow> s1
           | Some i \<Rightarrow> upd_region i (\<lambda>r. r\<lparr> sr_ref_count := sr_ref_count r + 1 \<rparr>) s1))"

text \<open>The body of the search loop of \<open>shmem_unmap\<close> on the region that matches.\<close>

definition drop_region_ref :: "nat \<Rightarrow> cap_state \<Rightarrow> cap_state" where
  "drop_region_ref i s =
     (let s1 = (if sr_ref_count (g_shmem_regions s i) > 0
                then upd_region i (\<lambda>r. r\<lparr> sr_ref_count := sr_ref_count r - 1 \<rparr>) s else s);
          r = g_shmem_regions s1 i
      in if sr_ref_count r = 0
         then upd_region i (\<lambda>r. r\<lparr> sr_phys_base := 0 \<rparr>)
                (set_pmm (snd (pmm_free_frames (sr_phys_base r) (region_pages r) (cs_pmm s1))) s1)
         else s1)"

definition shmem_unmap :: "u32 \<Rightarrow> u64 \<Rightarrow> cap_state \<Rightarrow> unit hic_result \<times> cap_state" where
  "shmem_unmap domain handle s =
     (let cap = cap_get_cap_id handle
      in if cap \<ge> CAP_TABLE_SIZE then (Inl HIC_ERROR_INVALID_PARAM, s)
         else if \<not> cap_validate_token (g_domain_keys s) domain cap (cap_get_token handle)
         then (Inl HIC_ERROR_CAP_INVALID, s)
         else if ce_owner (cap_at s cap) \<noteq> domain then (Inl HIC_ERROR_PERMISSION, s)
         else let s1 = (case region_of (ce_word0 (cap_at s cap)) s of
                          None \<Rightarrow> s
                        | Some i \<Rightarrow> drop_region_ref i s)
         in (Inr (), upd_cap cap (\<lambda>e. e\<lparr> ce_flags := 0, ce_rights := 0, ce_owner := 0, ce_id := 0 \<rparr>) s1))"

definition shmem_get_info :: "u32 \<Rightarrow> bool \<Rightarrow> cap_state \<Rightarrow> shmem_region hic_result" where
  "shmem_get_info cap info_ok s =
     (if cap \<ge> CAP_TABLE_SIZE \<or> \<not> info_ok then Inl HIC_ERROR_INVALID_PARAM
      else if ce_id (cap_at s cap) \<noteq> cap then Inl HIC_ERROR_CAP_INVALID
      else case region_of (ce_word0 (cap_at s cap)) s of
        Some i \<Rightarrow> Inr (g_shmem_regions s i)
      | None \<Rightarrow> Inl HIC_ERROR_NOT_FOUND)"

definition cap_migration_channel_create ::
    "u32 \<Rightarrow> u32 \<Rightarrow> u64 \<Rightarrow> bool \<Rightarrow> cap_state \<Rightarrow> (u32 \<times> u64 \<times> u64) hic_result \<times> cap_state" where
  "cap_migration_channel_create from to buffer_size outs_ok s =
     (if from \<ge> HIC_DOMAIN_MAX \<or> to \<ge> HIC_DOMAIN_MAX \<or> \<not> outs_ok
      then (Inl HIC_ERROR_INVALID_PARAM, s)
      else let buffer_size = (if buffer_size = 0 then 64 * 1024 else buffer_size)
      in case shmem_alloc from buffer_size SHMEM_FLAG_WRITABLE True s of
        (Inl e, s1) \<Rightarrow> (Inl e, s1)
      | (Inr (shmem_cap, handle), s1) \<Rightarrow>
          (case shmem_map from to shmem_cap (CAP_MEM_READ OR CAP_MEM_WRITE) True s1 of
             (Inl e, s2) \<Rightarrow> (Inl e, snd (cap_revoke shmem_cap s2))
           | (Inr handle_to, s2) \<Rightarrow> (Inr (shmem_cap, handle, handle_to), s2)))"

section \<open>Service instances and connections\<close>

definition MAX_SERVICE_INSTANCES :: nat where [hic_consts]: "MAX_SERVICE_INSTANCES = 64"
definition MAX_CONNECTION_TRACKERS :: nat where [hic_consts]: "MAX_CONNECTION_TRACKERS = 1024"

datatype service_instance_state =
    SERVICE_INSTANCE_INIT
  | SERVICE_INSTANCE_WARMING
  | SERVICE_INSTANCE_ACTIVE
  | SERVICE_INSTANCE_DRAINING
  | SERVICE_INSTANCE_MIGRATING
  | SERVICE_INSTANCE_TERMINATING

record service_instance =
  sv_name :: "nat \<Rightarrow> u8"
  sv_version :: u32
  sv_domain :: u32
  sv_state :: service_instance_state
  sv_connection_count :: u32
  sv_flags :: u32
  sv_primary_cap :: u32
  sv_standby_cap :: u32

record connection_tracker =
  ct_cap_id :: u32
  ct_owner :: u32
  ct_original_owner :: u32
  ct_create_time :: u64
  ct_flags :: u32
  ct_state_data :: "nat \<Rightarrow> u8"
  ct_state_size :: u64

record service_state =
  sv_caps :: cap_state
  g_service_instances :: "nat \<Rightarrow> service_instance"
  g_connection_trackers :: "nat \<Rightarrow> connection_tracker"
  sv_fault :: bool

definition upd_instance :: "nat \<Rightarrow> (service_instance \<Rightarrow> service_instance) \<Rightarrow> service_state \<Rightarrow> service_state" where
  "upd_instance i f s = s\<lparr> g_service_instances := (g_service_instances s)(i := f (g_service_instances s i)) \<rparr>"

definition upd_tracker :: "nat \<Rightarrow> (connection_tracker \<Rightarrow> connection_tracker) \<Rightarrow> service_state \<Rightarrow> service_state" where
  "upd_tracker i f s = s\<lparr> g_connection_trackers := (g_connection_trackers s)(i := f (g_connection_trackers s i)) \<rparr>"

text \<open>
  \<open>state_data\<close> is \<open>None\<close> for the null pointer and otherwise the bytes it points to. The time
  stamp \<open>ts\<close> is an argument.
\<close>

definition cap_connection_migrate ::
    "u32 \<Rightarrow> u32 \<Rightarrow> u32 \<Rightarrow> (nat \<Rightarrow> u8) option \<Rightarrow> u64 \<Rightarrow> u64 \<Rightarrow> service_state \<Rightarrow> unit hic_result \<times> service_state" where
  "cap_connection_migrate conn_cap from to state_data state_size ts s =
     (if conn_cap \<ge> CAP_TABLE_SIZE \<or> from \<ge> HIC_DOMAIN_MAX \<or> to \<ge> HIC_DOMAIN_MAX
      then (Inl HIC_ERROR_INVALID_PARAM, s)
      else if state_size > 256 then (Inl HIC_ERROR_INVALID_PARAM, s)
      else if ce_id (cap_at (sv_caps s) conn_cap) \<noteq> conn_cap then (Inl HIC_ERROR_CAP_INVALID, s)
      else if ce_owner (cap_at (sv_caps s) conn_cap) \<noteq> from then (Inl HIC_ERROR_PERMISSION, s)
      else let found = find_first (\<lambda>i. ct_cap_id (g_connection_trackers s i) = conn_cap)
                         0 MAX_CONNECTION_TRACKERS;
               fresh = find_first (\<lambda>i. ct_cap_id (g_connection_trackers s i) = 0)
                         0 MAX_CONNECTION_TRACKERS
      in case (case found of
                 Some i \<Rightarrow> Some (i, s)
               | None \<Rightarrow>
                   (case fresh of
                      None \<Rightarrow> None
                    | Some i \<Rightarrow> Some (i, upd_tracker i (\<lambda>t. t\<lparr> ct_cap_id := conn_cap,
                        ct_original_owner := from, ct_create_time := ts \<rparr>) s))) of
        None \<Rightarrow> (Inl HIC_ERROR_NO_RESOURCE, s)
      | Some (i, s1) \<Rightarrow>
          let s2 = (case state_data of
                      Some bytes \<Rightarrow>
                        if state_size > 0
                        then upd_tracker i (\<lambda>t. t\<lparr>
                          ct_state_data := (\<lambda>k. if k < unat state_size then bytes k else ct_state_data t k),
                          ct_state_size := state_size \<rparr>) s1
                        else s1
                    | None \<Rightarrow> s1);
              s3 = s2\<lparr> sv_caps := upd_cap conn_cap (\<lambda>e. e\<lparr> ce_owner := to \<rparr>) (sv_caps s2) \<rparr>
          in (Inr (), upd_tracker i (\<lambda>t. t\<lparr> ct_owner := to \<rparr>) s3))"

text \<open>
  The service name is the list of bytes before its terminator, \<open>None\<close> for the null pointer. The
  63-byte \<open>strncpy\<close> is used with the behaviour proved of it in \<^verbatim>\<open>Hic_Lib\<close>: it pads a shorter name
  with zeros, and on a name of 63 bytes or more it overwrites all memory, which raises
  \<open>sv_fault\<close>.
\<close>

definition padded_name :: "u8 list \<Rightarrow> nat \<Rightarrow> u8" where
  "padded_name xs i = (if i < length xs then xs ! i else 0)"

definition cap_create_service_instance ::
    "u32 \<Rightarrow> u8 list option \<Rightarrow> u32 \<Rightarrow> u32 \<Rightarrow> bool \<Rightarrow> service_state \<Rightarrow> u32 hic_result \<times> service_state" where
  "cap_create_service_instance owner service_name version flgs out_ok s =
     (case service_name of
        None \<Rightarrow> (Inl HIC_ERROR_INVALID_PARAM, s)
      | Some name \<Rightarrow>
      if owner \<ge> HIC_DOMAIN_MAX \<or> \<not> out_ok then (Inl HIC_ERROR_INVALID_PARAM, s)
      else case find_first (\<lambda>i. sv_name (g_service_instances s i) 0 = 0) 0 MAX_SERVICE_INSTANCES of
        None \<Rightarrow> (Inl HIC_ERROR_NO_RESOURCE, s)
      | Some idx \<Rightarrow>
          if length name \<ge> 63 then (Inl HIC_ERROR_GENERIC, s\<lparr> sv_fault := True \<rparr>)
          else
          let s1 = upd_instance idx (\<lambda>v. v\<lparr> sv_name := padded_name name, sv_version := version,
                 sv_domain := owner, sv_state := SERVICE_INSTANCE_INIT, sv_connection_count := 0,
                 sv_flags := flgs, sv_primary_cap := HIC_CAP_INVALID,
                 sv_standby_cap := HIC_CAP_INVALID \<rparr>) s;
              cap = first_free_slot (g_global_cap_table (sv_caps s1))
          in if cap = HIC_CAP_INVALID
             then (Inl HIC_ERROR_NO_RESOURCE,
                   upd_instance idx (\<lambda>v. v\<lparr> sv_name := (sv_name v)(0 := 0) \<rparr>) s1)
             else (Inr cap,
                   s1\<lparr> sv_caps := upd_cap cap (\<lambda>e. e\<lparr> ce_id := cap, ce_rights := CAP_LCORE_QUERY OR flgs,
                        ce_owner := owner, ce_flags := 0 \<rparr>) (sv_caps s1) \<rparr>))"

definition instance_of :: "u32 \<Rightarrow> service_state \<Rightarrow> nat option" where
  "instance_of cap s =
     find_first (\<lambda>i. sv_primary_cap (g_service_instances s i) = cap \<or>
                     sv_standby_cap (g_service_instances s i) = cap) 0 MAX_SERVICE_INSTANCES"

definition cap_service_switch_primary ::
    "u32 \<Rightarrow> u32 \<Rightarrow> service_state \<Rightarrow> u32 hic_result \<times> service_state" where
  "cap_service_switch_primary service_cap new_primary_cap s =
     (if service_cap \<ge> CAP_TABLE_SIZE \<or> new_primary_cap \<ge> CAP_TABLE_SIZE
      then (Inl HIC_ERROR_INVALID_PARAM, s)
      else case instance_of service_cap s of
        None \<Rightarrow> (Inl HIC_ERROR_NOT_FOUND, s)
      | Some idx \<Rightarrow>
          if sv_standby_cap (g_service_instances s idx) \<noteq> new_primary_cap
          then (Inl HIC_ERROR_INVALID_PARAM, s)
          else let old_primary = sv_primary_cap (g_service_instances s idx)
          in (Inr old_primary,
              upd_instance idx (\<lambda>v. v\<lparr> sv_standby_cap := old_primary,
                                       sv_primary_cap := new_primary_cap \<rparr>) s))"

definition cap_get_service_instance_state ::
    "u32 \<Rightarrow> bool \<Rightarrow> service_state \<Rightarrow> (service_instance_state \<times> u32) hic_result" where
  "cap_get_service_instance_state instance_cap state_ok s =
     (if instance_cap \<ge> CAP_TABLE_SIZE \<or> \<not> state_ok then Inl HIC_ERROR_INVALID_PARAM
      else case instance_of instance_cap s of
        None \<Rightarrow> Inl HIC_ERROR_NOT_FOUND
      | Some idx \<Rightarrow> Inr (sv_state (g_service_instances s idx),
                          sv_connection_count (g_service_instances s idx)))"

section \<open>Reference counts\<close>

text \<open>
  The capabilities on a region are the table entries in use whose base is that of the region.
  A live region has frames of its own, all busy, and counts the capabilities on it; every
  capability lies on a live region. Frame 0 is never handed out, because base 0 marks a free
  region slot.
\<close>

definition caps_on :: "u64 \<Rightarrow> (nat \<Rightarrow> cap_entry) \<Rightarrow> nat set" where
  "caps_on b t = {c. 0 < c \<and> c < 2048 \<and> ce_id (t c) \<noteq> 0 \<and> ce_word0 (t c) = b}"

abbreviation live_region :: "shmem_region \<Rightarrow> bool" where
  "live_region r \<equiv> sr_phys_base r \<noteq> 0"

abbreviation region_frames :: "shmem_region \<Rightarrow> nat set" where
  "region_frames r \<equiv> frames_at (sr_phys_base r) (region_pages r)"

definition region_ok :: "(nat \<Rightarrow> cap_entry) \<Rightarrow> pmm \<Rightarrow> shmem_region \<Rightarrow> bool" where
  "region_ok t p r \<longleftrightarrow>
     caps_on (sr_phys_base r) t \<noteq> {} \<and> unat (sr_ref_count r) = card (caps_on (sr_phys_base r) t) \<and>
     region_pages r \<noteq> 0 \<and> (\<forall>j\<in>region_frames r. frame_busy p j \<and> j \<noteq> 0)"

definition entry_backed :: "(nat \<Rightarrow> shmem_region) \<Rightarrow> cap_entry \<Rightarrow> bool" where
  "entry_backed R e \<longleftrightarrow>
     (if ce_id e = 0 then ce_owner e = 0
      else ce_word1 e \<noteq> 0 \<and> ce_word0 e \<noteq> 0 \<and> (\<exists>i<64. sr_phys_base (R i) = ce_word0 e))"

definition shm_core :: "cap_state \<Rightarrow> bool" where
  "shm_core s \<longleftrightarrow>
     cap_shape s \<and> frame_busy (cs_pmm s) 0 \<and>
     (\<forall>i<64. live_region (g_shmem_regions s i) \<longrightarrow>
        region_ok (g_global_cap_table s) (cs_pmm s) (g_shmem_regions s i)) \<and>
     (\<forall>i<64. \<forall>j<64. i \<noteq> j \<longrightarrow> live_region (g_shmem_regions s i) \<longrightarrow> live_region (g_shmem_regions s j) \<longrightarrow>
        region_frames (g_shmem_regions s i) \<inter> region_frames (g_shmem_regions s j) = {}) \<and>
     (\<forall>c<2048. entry_backed (g_shmem_regions s) (g_global_cap_table s c))"

lemma shm_coreD:
  assumes "shm_core s"
  shows "cap_shape s" and "frame_busy (cs_pmm s) 0"
    and "\<And>i. i < 64 \<Longrightarrow> live_region (g_shmem_regions s i) \<Longrightarrow>
        region_ok (g_global_cap_table s) (cs_pmm s) (g_shmem_regions s i)"
    and "\<And>i j. i < 64 \<Longrightarrow> j < 64 \<Longrightarrow> i \<noteq> j \<Longrightarrow> live_region (g_shmem_regions s i) \<Longrightarrow>
        live_region (g_shmem_regions s j) \<Longrightarrow>
        region_frames (g_shmem_regions s i) \<inter> region_frames (g_shmem_regions s j) = {}"
    and "\<And>c. c < 2048 \<Longrightarrow> entry_backed (g_shmem_regions s) (g_global_cap_table s c)"
  using assms unfolding shm_core_def by blast+

lemma cap_shape_null: "cap_shape s \<Longrightarrow> ce_id (g_global_cap_table s 0) = 0"
  unfolding cap_shape_def cap_ids_ok_def by (auto dest!: spec [of _ 0])

lemma caps_on_finite [simp]: "finite (caps_on b t)"
  by (rule finite_subset [of _ "{..<2048}"]) (auto simp: caps_on_def)

lemma caps_on_card_lt: "card (caps_on b t) < 2048"
proof -
  have "caps_on b t \<subseteq> {1..<2048}" by (auto simp: caps_on_def)
  then have "card (caps_on b t) \<le> card {1..<2048 :: nat}" by (rule card_mono [rotated]) simp
  then show ?thesis by simp
qed

lemma first_frame: "region_pages r \<noteq> 0 \<Longrightarrow> unat (sr_phys_base r) div 4096 \<in> region_frames r"
  by (simp add: frames_at_def unat_gt_0)

lemma bases_distinct:
  assumes "shm_core s" and "i < 64" and "j < 64" and "live_region (g_shmem_regions s i)"
    and "sr_phys_base (g_shmem_regions s i) = sr_phys_base (g_shmem_regions s j)"
  shows "i = j"
proof (rule ccontr)
  let ?r = "\<lambda>i. g_shmem_regions s i"
  assume "i \<noteq> j"
  moreover have "live_region (?r j)" using assms by simp
  moreover have "region_pages (?r k) \<noteq> 0" if "k < 64" "live_region (?r k)" for k
    using shm_coreD(3) [OF assms(1) that] by (simp add: region_ok_def)
  ultimately show False
    using shm_coreD(4) [OF assms(1), of i j] assms first_frame [of "?r i"] first_frame [of "?r j"] by auto
qed

lemma region_of_base:
  assumes "shm_core s" and "i < 64" and "live_region (g_shmem_regions s i)"
  shows "region_of (sr_phys_base (g_shmem_regions s i)) s = Some i"
proof -
  have "sr_phys_base (g_shmem_regions s k) \<noteq> sr_phys_base (g_shmem_regions s i)" if "k < i" for k
    using bases_distinct [OF assms(1,2) _ assms(3), of k] that assms(2) by auto
  then show ?thesis using assms(2) by (auto simp: region_of_def find_first_Some_iff hic_consts)
qed

lemma caps_on_cong:
  assumes "\<And>c. ce_id (t c) = 0 \<longleftrightarrow> ce_id (t' c) = 0" and "\<And>c. ce_word0 (t c) = ce_word0 (t' c)"
  shows "caps_on b t = caps_on b t'"
  using assms by (simp add: caps_on_def)

lemma shm_core_cong:
  assumes "shm_core s" and "cap_shape s'"
    and "\<And>c. ce_id (g_global_cap_table s' c) = ce_id (g_global_cap_table s c) \<and>
        ce_owner (g_global_cap_table s' c) = ce_owner (g_global_cap_table s c) \<and>
        ce_word0 (g_global_cap_table s' c) = ce_word0 (g_global_cap_table s c) \<and>
        ce_word1 (g_global_cap_table s' c) = ce_word1 (g_global_cap_table s c)"
    and "g_shmem_regions s' = g_shmem_regions s" and "cs_pmm s' = cs_pmm s"
  shows "shm_core s'"
proof -
  have "caps_on b (g_global_cap_table s') = caps_on b (g_global_cap_table s)" for b
    using assms(3) by (intro caps_on_cong) simp_all
  then have "region_ok (g_global_cap_table s') p r = region_ok (g_global_cap_table s) p r" for p r
    by (simp add: region_ok_def)
  moreover have "entry_backed R (g_global_cap_table s' c) = entry_backed R (g_global_cap_table s c)" for R c
    using assms(3) [of c] by (simp add: entry_backed_def)
  ultimately show ?thesis using assms by (simp add: shm_core_def)
qed

text \<open>One capability less on its region: the count goes down, and the last one frees the frames.\<close>

lemma caps_on_drop:
  assumes "t' = t(c := e')" and "ce_id e' = 0"
  shows "caps_on b t' = caps_on b t - {c}"
  using assms by (auto simp: caps_on_def)

lemma shm_core_drop:
  assumes core: "shm_core s" and c: "0 < c" "c < 2048" "ce_id (g_global_cap_table s c) \<noteq> 0"
    and i: "i < 64" "sr_phys_base (g_shmem_regions s i) = ce_word0 (g_global_cap_table s c)"
    and t': "g_global_cap_table s' = (g_global_cap_table s)(c := e')" "ce_id e' = 0" "ce_owner e' = 0"
    and sh: "cap_shape s'"
    and R': "g_shmem_regions s' = (g_shmem_regions s)(i := r')"
    and last: "sr_ref_count (g_shmem_regions s i) = 1 \<Longrightarrow> sr_phys_base r' = 0 \<and>
        cs_pmm s' = snd (pmm_free_frames (sr_phys_base (g_shmem_regions s i)) (region_pages (g_shmem_regions s i)) (cs_pmm s))"
    and more: "sr_ref_count (g_shmem_regions s i) \<noteq> 1 \<Longrightarrow>
        r' = (g_shmem_regions s i)\<lparr> sr_ref_count := sr_ref_count (g_shmem_regions s i) - 1 \<rparr> \<and> cs_pmm s' = cs_pmm s"
  shows "shm_core s'"
proof -
  let ?t = "g_global_cap_table s" let ?R = "g_shmem_regions s" let ?r = "?R i" let ?p = "cs_pmm s"
  note D = shm_coreD [OF core]
  have live: "live_region ?r" using D(5) [OF c(2)] c(3) i(2) by (simp add: entry_backed_def)
  note ok = D(3) [OF i(1) live]
  have cin: "c \<in> caps_on (sr_phys_base ?r) ?t" using c i(2) by (simp add: caps_on_def)
  have on: "caps_on b (g_global_cap_table s') = caps_on b ?t - {c}" for b
    by (rule caps_on_drop [OF t'(1,2)])
  have other: "caps_on (sr_phys_base (?R j)) (g_global_cap_table s') = caps_on (sr_phys_base (?R j)) ?t"
    if "j < 64" "j \<noteq> i" "live_region (?R j)" for j
    using on bases_distinct [OF core that(1) i(1) that(3)] that(2) i(2) by (auto simp: caps_on_def)
  have backed: "entry_backed (g_shmem_regions s') (g_global_cap_table s' k)"
    if k: "k < 2048" and keep: "\<And>j. k \<noteq> c \<Longrightarrow> ce_id (?t k) \<noteq> 0 \<Longrightarrow> ce_word0 (?t k) = sr_phys_base ?r \<Longrightarrow>
        sr_phys_base r' = sr_phys_base ?r" for k
  proof (cases "k = c")
    case True
    then show ?thesis using t' by (simp add: entry_backed_def)
  next
    case False
    then have tk: "g_global_cap_table s' k = ?t k" using t'(1) by simp
    show ?thesis
    proof (cases "ce_id (?t k) = 0")
      case True
      then show ?thesis using D(5) [OF k] by (simp add: tk entry_backed_def)
    next
      case nz: False
      then obtain j where j: "j < 64" "sr_phys_base (?R j) = ce_word0 (?t k)" "ce_word0 (?t k) \<noteq> 0" "ce_word1 (?t k) \<noteq> 0"
        using D(5) [OF k] by (auto simp: entry_backed_def)
      have "sr_phys_base (g_shmem_regions s' j) = ce_word0 (?t k)"
        using keep [OF False nz] j(2) by (cases "j = i") (auto simp: R')
      then show ?thesis using j nz by (auto simp: tk entry_backed_def)
    qed
  qed
  show ?thesis
  proof (cases "sr_ref_count ?r = 1")
    case False
    note M = more [OF False]
    have cnt: "unat (sr_ref_count ?r - 1) = card (caps_on (sr_phys_base ?r) ?t - {c})"
      using ok cin by (subst unat_minus_one) (auto simp: region_ok_def word_unat_eq_iff)
    have card1: "card (caps_on (sr_phys_base ?r) ?t) \<noteq> 1"
      using False ok by (simp add: region_ok_def word_unat_eq_iff)
    have ne: "caps_on (sr_phys_base ?r) ?t - {c} \<noteq> {}"
    proof
      assume "caps_on (sr_phys_base ?r) ?t - {c} = {}"
      then have "caps_on (sr_phys_base ?r) ?t = {c}" using cin by blast
      with card1 show False by simp
    qed
    have pg: "region_pages r' = region_pages ?r" using M by (simp add: region_pages_def)
    have "region_ok (g_global_cap_table s') (cs_pmm s') (g_shmem_regions s' j)"
      if "j < 64" "live_region (g_shmem_regions s' j)" for j
    proof (cases "j = i")
      case True
      then show ?thesis using ok cnt ne pg M by (simp add: R' region_ok_def on)
    next
      case False
      then show ?thesis using D(3) [of j] that M other [of j] by (simp add: R' region_ok_def)
    qed
    moreover have "region_frames (g_shmem_regions s' j) \<inter> region_frames (g_shmem_regions s' k) = {}"
      if "j < 64" "k < 64" "j \<noteq> k" "live_region (g_shmem_regions s' j)" "live_region (g_shmem_regions s' k)" for j k
      using D(4) [OF that(1-3)] that pg M live by (auto simp: R' split: if_splits)
    moreover have "entry_backed (g_shmem_regions s') (g_global_cap_table s' k)" if "k < 2048" for k
      by (rule backed [OF that]) (simp add: M)
    ultimately show ?thesis using sh D(2) M unfolding shm_core_def by simp
  next
    case True
    note L = last [OF True]
    have single: "caps_on (sr_phys_base ?r) ?t = {c}"
    proof -
      have "card (caps_on (sr_phys_base ?r) ?t) = 1" using ok True by (simp add: region_ok_def)
      then show ?thesis using cin by (elim card_1_singletonE) simp
    qed
    have "pmm_wf ?p" by (rule cap_shapeD(3) [OF D(1)])
    moreover obtain p' where fr: "pmm_free_frames (sr_phys_base ?r) (region_pages ?r) ?p = (Inr (), p')"
      using pmm.release_total [OF calculation, of "region_pages ?r" "sr_phys_base ?r"] ok by (auto simp: region_ok_def)
    ultimately have busy: "frame_busy (cs_pmm s') j \<longleftrightarrow> frame_busy ?p j \<and> j \<notin> region_frames ?r" for j
      using pmm.release_busy [of ?p _ _ "()" p'] L by simp
    have "region_ok (g_global_cap_table s') (cs_pmm s') (g_shmem_regions s' j)"
      if "j < 64" "live_region (g_shmem_regions s' j)" for j
    proof -
      have ji: "j \<noteq> i" using that L by (auto simp: R')
      then have lj: "live_region (?R j)" using that by (simp add: R')
      have "region_frames (?R j) \<inter> region_frames ?r = {}" using D(4) [OF that(1) i(1) ji lj live] .
      then show ?thesis using D(3) [OF that(1) lj] other [OF that(1) ji lj] ji by (auto simp: R' region_ok_def busy)
    qed
    moreover have "region_frames (g_shmem_regions s' j) \<inter> region_frames (g_shmem_regions s' k) = {}"
      if "j < 64" "k < 64" "j \<noteq> k" "live_region (g_shmem_regions s' j)" "live_region (g_shmem_regions s' k)" for j k
      using D(4) [OF that(1-3)] that L by (auto simp: R' split: if_splits)
    moreover have "entry_backed (g_shmem_regions s') (g_global_cap_table s' k)" if "k < 2048" for k
    proof (rule backed [OF that])
      assume "k \<noteq> c" "ce_id (?t k) \<noteq> 0" "ce_word0 (?t k) = sr_phys_base ?r"
      moreover have "k \<noteq> 0" using calculation(2) cap_shape_null [OF D(1)] by (intro notI) simp
      ultimately have "k \<in> caps_on (sr_phys_base ?r) ?t" using that by (simp add: caps_on_def)
      then show "sr_phys_base r' = sr_phys_base ?r" using single \<open>k \<noteq> c\<close> by simp
    qed
    moreover have "frame_busy (cs_pmm s') 0" using D(2) ok busy by (auto simp: region_ok_def)
    ultimately show ?thesis using sh unfolding shm_core_def by simp
  qed
qed

section \<open>Revocation keeps the counts\<close>

text \<open>Entries already flagged as revoked are left alone by the recursion.\<close>

lemma revoke_children_keeps_flagged:
  assumes "\<And>c s i. entry_revoked (g_global_cap_table s i) \<Longrightarrow>
      g_global_cap_table (f c s) i = g_global_cap_table s i"
    and "entry_revoked (g_global_cap_table s i)"
  shows "g_global_cap_table (revoke_children f cap n k s) i = g_global_cap_table s i"
  using assms(2) by (induction n arbitrary: k s) (simp_all add: Let_def assms(1))

lemma revoke_body_keeps_flagged:
  assumes "\<And>c s i. entry_revoked (g_global_cap_table s i) \<Longrightarrow>
      g_global_cap_table (f c s) i = g_global_cap_table s i"
    and "entry_revoked (g_global_cap_table s i)" and "\<not> entry_revoked (cap_at s c)"
  shows "g_global_cap_table (revoke_body f c s) i = g_global_cap_table s i"
proof -
  have ne: "i \<noteq> unat c" using assms(2,3) by auto
  then have "g_global_cap_table (set_revoked c s) i = g_global_cap_table s i"
    by (simp add: set_revoked_def)
  then show ?thesis
    using revoke_children_keeps_flagged [OF assms(1), of "set_revoked c s" i] assms(2) ne
    by (simp add: revoke_body_def Let_def clear_cap_table)
qed

lemma cap_revoke_r_keeps_flagged:
  "entry_revoked (g_global_cap_table s i) \<Longrightarrow>
   g_global_cap_table (cap_revoke_r levels c s) i = g_global_cap_table s i"
proof (induction levels arbitrary: c s i)
  case 0
  then show ?case by simp
next
  case (Suc levels)
  then show ?case
    unfolding cap_revoke_r_Suc using revoke_body_keeps_flagged [OF Suc.IH] by simp
qed

lemma release_tail:
  assumes core: "shm_core s" and c: "c \<noteq> 0" "unat c < 2048" "ce_id (cap_at s c) = c"
  shows "shm_core (clear_cap c (unlink_child p c (cap_release_shmem_if_needed c s)))"
proof -
  let ?e = "cap_at s c" let ?s3 = "cap_release_shmem_if_needed c s"
  have e: "ce_word0 ?e \<noteq> 0" "ce_word1 ?e \<noteq> 0"
    using shm_coreD(5) [OF core c(2)] c(1,3) by (simp_all add: entry_backed_def)
  obtain i where i: "i < 64" "sr_phys_base (g_shmem_regions s i) = ce_word0 ?e"
    using shm_coreD(5) [OF core c(2)] c(1,3) by (auto simp: entry_backed_def)
  let ?r = "g_shmem_regions s i"
  have ff: "find_first (\<lambda>i. sr_phys_base (g_shmem_regions s i) = ce_word0 ?e) 0 MAX_SHMEM_REGIONS = Some i"
    using region_of_base [OF core i(1)] i(2) e(1) by (simp add: region_of_def)
  have ok: "region_ok (g_global_cap_table s) (cs_pmm s) ?r" using shm_coreD(3) [OF core i(1)] i(2) e(1) by simp
  then have pos: "sr_ref_count ?r > 0"
    by (auto simp: region_ok_def word_less_nat_alt card_gt_0_iff)
  have rel: "?s3 = (let s1 = upd_region i (\<lambda>r. r\<lparr> sr_ref_count := sr_ref_count r - 1 \<rparr>) s
      in if sr_ref_count (g_shmem_regions s1 i) = 0 then
           upd_region i (\<lambda>r. r\<lparr> sr_phys_base := 0, sr_size := 0 \<rparr>)
             (s1\<lparr> cs_pmm := snd (pmm_free_frames (sr_phys_base ?r) (region_pages ?r) (cs_pmm s1)) \<rparr>)
         else s1)"
    using c(2) e ff pos by (simp add: cap_release_shmem_if_needed_def cap_ge_iff Let_def)
  have one: "sr_ref_count ?r - 1 = 0 \<longleftrightarrow> sr_ref_count ?r = 1" by simp
  show ?thesis
  proof (rule shm_core_drop [OF core _ c(2) _ i])
    show "0 < unat c" "ce_id ?e \<noteq> 0" using c by (simp_all add: unat_gt_0)
    show "g_global_cap_table (clear_cap c (unlink_child p c ?s3)) =
        (g_global_cap_table s)(unat c := cleared ?e)" by (auto simp: clear_cap_table)
    show "cap_shape (clear_cap c (unlink_child p c ?s3))"
      by (intro clear_cap_shape unlink_child_shape cap_shape_release shm_coreD(1) [OF core])
    show "g_shmem_regions (clear_cap c (unlink_child p c ?s3)) =
        (g_shmem_regions s)(i := g_shmem_regions ?s3 i)"
      unfolding rel by (auto simp: Let_def)
  qed (simp_all add: rel Let_def one cleared_def)
qed

lemma shm_core_set_revoked:
  assumes "shm_core s" and "ce_id (cap_at s c) = c"
  shows "shm_core (set_revoked c s)"
  by (rule shm_core_cong [OF assms(1) set_revoked_shape [OF shm_coreD(1) [OF assms(1)] assms(2)]])
     (simp_all add: set_revoked_def upd_cap_def)

lemma revoke_children_core:
  assumes f: "\<And>c s. shm_core s \<Longrightarrow> c \<noteq> 0 \<Longrightarrow> shm_core (f c s)" and "shm_core s"
  shows "shm_core (revoke_children f cap n i s)"
  using assms(2) by (induction n arbitrary: i s) (simp_all add: Let_def f hic_consts)

lemma cap_revoke_r_core: "shm_core s \<Longrightarrow> c \<noteq> 0 \<Longrightarrow> shm_core (cap_revoke_r levels c s)"
proof (induction levels arbitrary: c s)
  case 0
  then show ?case by simp
next
  case (Suc levels)
  show ?case
  proof (cases "c \<ge> CAP_TABLE_SIZE \<or> ce_id (cap_at s c) \<noteq> c \<or> entry_revoked (cap_at s c)")
    case True
    then show ?thesis using Suc.prems by (simp add: cap_revoke_r_Suc)
  next
    case False
    let ?s1 = "set_revoked c s" let ?s2 = "revoke_children (cap_revoke_r levels) c MAX_DERIVATIVES_PER_CAP 0 ?s1"
    have core: "shm_core ?s2"
      using False Suc.prems by (intro revoke_children_core shm_core_set_revoked Suc.IH) auto
    have "entry_revoked (cap_at ?s1 c)"
      by (simp add: set_revoked_def entry_revoked_def hic_consts bit.conj_disj_distrib2)
    then have "cap_at ?s2 c = cap_at ?s1 c"
      by (intro revoke_children_keeps_flagged cap_revoke_r_keeps_flagged)
    then have "ce_id (cap_at ?s2 c) = c" using False by (simp add: set_revoked_def)
    then show ?thesis
      using release_tail [OF core Suc.prems(2)] False
      by (simp add: cap_revoke_r_Suc revoke_body_def Let_def cap_ge_iff)
  qed
qed

lemma cap_revoke_core: "shm_core s \<Longrightarrow> cap_revoke c s = (r, s') \<Longrightarrow> shm_core s'"
  using cap_revoke_r_core [of s c]
  by (auto simp: cap_revoke_def cap_revoke_recursive_impl_def hic_consts split: if_splits)

section \<open>Allocation, mapping and unmapping keep the counts\<close>

lemma set_pmm_sel [simp]:
  "g_global_cap_table (set_pmm p s) = g_global_cap_table s" "g_derivatives (set_pmm p s) = g_derivatives s"
  "g_domain_keys (set_pmm p s) = g_domain_keys s" "g_shmem_regions (set_pmm p s) = g_shmem_regions s"
  "cs_pmm (set_pmm p s) = p" "cap_fault (set_pmm p s) = cap_fault s"
  "g_privileged_domain_bitmap (set_pmm p s) = g_privileged_domain_bitmap s"
  by (simp_all add: set_pmm_def)

lemma set_pmm_same [simp]: "set_pmm (cs_pmm s) s = s" "set_pmm p (set_pmm q s) = set_pmm p s"
  by (simp_all add: set_pmm_def)

lemma cap_wf_set_pmm: "cap_wf s \<Longrightarrow> pmm_wf p \<Longrightarrow> cap_wf (set_pmm p s)"
  by (simp add: cap_wf_def cap_shape_def)

definition alloc_rights :: "u32 \<Rightarrow> u32" where
  "alloc_rights flgs =
     (if flgs AND SHMEM_FLAG_WRITABLE \<noteq> 0 then CAP_MEM_READ OR CAP_MEM_WRITE else CAP_MEM_READ)"

definition new_region :: "u32 \<Rightarrow> u64 \<Rightarrow> u32 \<Rightarrow> u32 \<Rightarrow> shmem_region" where
  "new_region owner base pages flgs =
     \<lparr> sr_phys_base = base, sr_size = frames_to_bytes pages, sr_owner = owner, sr_ref_count = 1,
       sr_flags = flgs \<rparr>"

definition new_mem_cap :: "u32 \<Rightarrow> u32 \<Rightarrow> u64 \<Rightarrow> u64 \<Rightarrow> u32 \<Rightarrow> cap_entry \<Rightarrow> cap_entry" where
  "new_mem_cap c owner base sz rights e =
     e\<lparr> ce_id := c, ce_rights := rights, ce_owner := owner, ce_flags := 0, ce_word0 := base, ce_word1 := sz \<rparr>"

lemma shmem_alloc_okD:
  assumes wf: "cap_wf s" and al: "shmem_alloc owner sz flgs outs_ok s = (Inr (c, h), s')"
  obtains i base p where "free_region s = Some i"
    "pmm_alloc_frames (shmem_pages sz) True (cs_pmm s) = (Inr base, p)"
    "c \<noteq> 0" "unat c < 2048" "ce_id (cap_at s c) = 0" "owner < HIC_DOMAIN_MAX" "sz \<noteq> 0"
    "h = cap_make_handle (g_domain_keys s) owner c"
    "s' = upd_region i (\<lambda>_. new_region owner base (shmem_pages sz) flgs)
            (upd_cap c (new_mem_cap c owner base (frames_to_bytes (shmem_pages sz)) (alloc_rights flgs)) (set_pmm p s))"
proof -
  let ?n = "shmem_pages sz"
  from al obtain i where g: "owner < HIC_DOMAIN_MAX" "sz \<noteq> 0" and i: "free_region s = Some i"
    by (auto simp: shmem_alloc_def not_le split: option.splits if_splits)
  show ?thesis
  proof (cases "pmm_alloc_frames ?n True (cs_pmm s)")
    case (Pair r p)
    show ?thesis
    proof (cases r)
      case (Inl e)
      then show ?thesis using al g i Pair by (simp add: shmem_alloc_def split: if_splits)
    next
      case (Inr base)
      note al' = Pair [unfolded Inr]
      have wf1: "cap_wf (set_pmm p s)"
        by (rule cap_wf_set_pmm [OF wf pmm.alloc_sound [OF cap_shapeD(3) [OF cap_wfD(1) [OF wf]] al']])
      show ?thesis
      proof (cases "cap_create_memory owner base (frames_to_bytes ?n) (alloc_rights flgs) True (set_pmm p s)")
        case (Pair r2 s2)
        show ?thesis
        proof (cases r2)
          case (Inl e)
          then show ?thesis using al g i al' Pair
            by (simp add: shmem_alloc_def Let_def alloc_rights_def [symmetric] not_le split: if_splits)
        next
          case (Inr cap)
          note cm = cap_create_memory_okD [OF wf1 Pair [unfolded Inr]]
          let ?s3 = "upd_region i (\<lambda>_. new_region owner base ?n flgs) s2"
          have "cap_grant owner cap True ?s3 = Inr (cap_make_handle (g_domain_keys s) owner cap)"
            using cm by (simp add: cap_grant_def not_le cap_ge_iff)
          then have "c = cap" "h = cap_make_handle (g_domain_keys s) owner cap" "s' = ?s3"
            using al g i al' Pair Inr
            by (auto simp: shmem_alloc_def Let_def alloc_rights_def [symmetric] new_region_def not_le split: if_splits)
          then show ?thesis using that [OF i al'] cm g by (simp add: new_mem_cap_def [abs_def])
        qed
      qed
    qed
  qed
qed

lemma shmem_alloc_errD:
  assumes wf: "cap_wf s" and al: "shmem_alloc owner sz flgs outs_ok s = (Inl e, s')"
  shows "s' = s"
proof (cases "owner \<ge> HIC_DOMAIN_MAX \<or> sz = 0 \<or> \<not> outs_ok \<or> free_region s = None")
  case True
  then show ?thesis using al by (auto simp: shmem_alloc_def split: if_splits)
next
  case False
  then obtain i where i: "free_region s = Some i" by auto
  let ?n = "shmem_pages sz"
  have pw: "pmm_wf (cs_pmm s)" by (rule cap_shapeD(3) [OF cap_wfD(1) [OF wf]])
  show ?thesis
  proof (cases "pmm_alloc_frames ?n True (cs_pmm s)")
    case (Pair r p)
    show ?thesis
    proof (cases r)
      case (Inl e1)
      then have "p = cs_pmm s" using pmm.alloc_refused Pair by blast
      then show ?thesis using al False i Pair Inl by (auto simp: shmem_alloc_def)
    next
      case (Inr base)
      note al' = Pair [unfolded Inr]
      have wf1: "cap_wf (set_pmm p s)" by (rule cap_wf_set_pmm [OF wf pmm.alloc_sound [OF pw al']])
      show ?thesis
      proof (cases "cap_create_memory owner base (frames_to_bytes ?n) (alloc_rights flgs) True (set_pmm p s)")
        case (Pair r2 s2)
        show ?thesis
        proof (cases r2)
          case (Inl e2)
          then have "s2 = set_pmm p s" using cap_create_memory_errD Pair by blast
          then show ?thesis using al False i al' Pair Inl pmm_alloc_then_free [OF pw al']
            by (auto simp: shmem_alloc_def Let_def alloc_rights_def [symmetric])
        next
          case (Inr cap)
          note cm = cap_create_memory_okD [OF wf1 Pair [unfolded Inr]]
          let ?s3 = "upd_region i (\<lambda>_. new_region owner base ?n flgs) s2"
          have "cap_grant owner cap True ?s3 = Inr (cap_make_handle (g_domain_keys s) owner cap)"
            using cm by (simp add: cap_grant_def not_le cap_ge_iff)
          then show ?thesis
            using al False i al' Pair Inr
            by (auto simp: shmem_alloc_def Let_def alloc_rights_def [symmetric] new_region_def)
        qed
      qed
    qed
  qed
qed

lemma frames_to_bytes_pages:
  assumes "n \<noteq> 0" and "unat n < 1048576"
  shows "unat (frames_to_bytes n) = unat n * 4096" and "region_pages (new_region owner base n flgs) = n"
proof -
  have m: "unat (n * ucast PAGE_SIZE) = unat n * 4096"
    using assms(2) by (simp add: unat_word_ariths PAGE_SIZE_def)
  then show *: "unat (frames_to_bytes n) = unat n * 4096" by (simp add: frames_to_bytes_def)
  have "unat (frames_to_bytes n + PAGE_SIZE - 1) = unat n * 4096 + 4095"
    using * assms(2) by (simp add: unat_word_ariths PAGE_SIZE_def)
  then have "unat ((frames_to_bytes n + PAGE_SIZE - 1) div PAGE_SIZE) = unat n"
    by (simp add: unat_div PAGE_SIZE_def)
  then show "region_pages (new_region owner base n flgs) = n"
    by (simp add: region_pages_def new_region_def word_unat_eq_iff unsigned_ucast_eq take_bit_nat_eq_self_iff)
qed

lemma shmem_pages_small:
  assumes "unat sz \<le> 4294963200"
  shows "unat (shmem_pages sz) = (unat sz + 4095) div 4096" and "unat (shmem_pages sz) < 1048576"
proof -
  have "unat (sz + PAGE_SIZE - 1) = unat sz + 4095"
    using assms by (simp add: unat_word_ariths PAGE_SIZE_def)
  then show "unat (shmem_pages sz) = (unat sz + 4095) div 4096"
    using assms by (simp add: shmem_pages_def unat_div PAGE_SIZE_def unsigned_ucast_eq take_bit_nat_eq_self_iff)
  then show "unat (shmem_pages sz) < 1048576" using assms by simp
qed

lemma caps_on_add:
  assumes "t' = t(c := e')" and "0 < c" and "c < 2048" and "ce_id (t c) = 0" and "ce_id e' \<noteq> 0"
  shows "caps_on b t' = (if ce_word0 e' = b then insert c (caps_on b t) else caps_on b t)"
  using assms by (auto simp: caps_on_def)

lemma shm_core_alloc:
  assumes wf: "cap_wf s" and core: "shm_core s" and small: "unat sz \<le> 4294963200"
    and al: "shmem_alloc owner sz flgs outs_ok s = (Inr (c, h), s')"
  shows "shm_core s'"
proof -
  let ?n = "shmem_pages sz" let ?t = "g_global_cap_table s" let ?R = "g_shmem_regions s"
  obtain i base p where i: "free_region s = Some i"
    and pal: "pmm_alloc_frames ?n True (cs_pmm s) = (Inr base, p)"
    and c: "c \<noteq> 0" "unat c < 2048" "ce_id (cap_at s c) = 0" and "owner < HIC_DOMAIN_MAX" "sz \<noteq> 0"
      "h = cap_make_handle (g_domain_keys s) owner c"
    and s': "s' = upd_region i (\<lambda>_. new_region owner base ?n flgs)
            (upd_cap c (new_mem_cap c owner base (frames_to_bytes ?n) (alloc_rights flgs)) (set_pmm p s))"
    by (rule shmem_alloc_okD [OF wf al])
  note D = shm_coreD [OF core]
  have pw: "pmm_wf (cs_pmm s)" by (rule cap_shapeD(3) [OF D(1)])
  note n0 = pmm.alloc_nonzero [OF pw pal] and busy = pmm.alloc_busy [OF pw pal]
    and idle = pmm.alloc_idle [OF pw pal]
  note pages = frames_to_bytes_pages [OF n0 shmem_pages_small(2) [OF small]]
  have i64: "i < 64" and free: "\<not> live_region (?R i)"
    using i by (auto simp: free_region_def find_first_Some_iff hic_consts)
  have first: "unat base div 4096 \<in> frames_at base ?n" using n0 by (simp add: frames_at_def unat_gt_0)
  have z: "0 \<notin> frames_at base ?n" using idle D(2) by blast
  have b0: "base \<noteq> 0" using first z by auto
  have apart: "frames_at base ?n \<inter> region_frames (?R j) = {}" if "j < 64" "live_region (?R j)" for j
    using idle D(3) [OF that] by (auto simp: region_ok_def)
  have fresh: "sr_phys_base (?R j) \<noteq> base" if j: "j < 64" "live_region (?R j)" for j
    using apart [OF j] first first_frame [of "?R j"] D(3) [OF j] by (auto simp: region_ok_def)
  have none: "caps_on base ?t = {}"
  proof (rule equals0I)
    fix k assume "k \<in> caps_on base ?t"
    then have "entry_backed ?R (?t k)" "ce_id (?t k) \<noteq> 0" "ce_word0 (?t k) = base"
      using D(5) by (simp_all add: caps_on_def)
    then obtain j where "j < 64" "sr_phys_base (?R j) = base" by (auto simp: entry_backed_def)
    with fresh [of j] b0 show False by simp
  qed
  have on: "caps_on b (g_global_cap_table s') = (if base = b then insert (unat c) (caps_on b ?t) else caps_on b ?t)" for b
    using c by (subst caps_on_add [where t = ?t and c = "unat c"]) (auto simp: s' new_mem_cap_def unat_gt_0)
  have "cap_shape s'"
    using cap_shape_upd_cap [of "set_pmm p s" _ c] cap_wf_set_pmm [OF wf pmm.alloc_sound [OF pw pal]]
    by (simp add: s' cap_wf_def cap_shape_def new_mem_cap_def cap_ids_ok_def)
  moreover have "frame_busy (cs_pmm s') 0" using D(2) busy by (simp add: s')
  moreover have "region_ok (g_global_cap_table s') (cs_pmm s') (g_shmem_regions s' j)"
    if "j < 64" "live_region (g_shmem_regions s' j)" for j
  proof (cases "j = i")
    case True
    have "region_ok (g_global_cap_table s') (cs_pmm s') (new_region owner base ?n flgs)"
      unfolding region_ok_def pages using on [of base] none n0 busy z
      by (auto simp: s' new_region_def intro: ccontr)
    then show ?thesis using True by (simp add: s')
  next
    case False
    then have lj: "live_region (?R j)" and R: "g_shmem_regions s' j = ?R j" using that by (simp_all add: s')
    have "cs_pmm s' = p" by (simp add: s')
    then show ?thesis using D(3) [OF that(1) lj] fresh [OF that(1) lj] on [of "sr_phys_base (?R j)"] busy
      by (simp add: R region_ok_def)
  qed
  moreover have "region_frames (g_shmem_regions s' j) \<inter> region_frames (g_shmem_regions s' k) = {}"
    if "j < 64" "k < 64" "j \<noteq> k" "live_region (g_shmem_regions s' j)" "live_region (g_shmem_regions s' k)" for j k
  proof -
    have R: "g_shmem_regions s' m = ?R m" if "m \<noteq> i" for m using that by (simp add: s')
    have Ri: "region_frames (g_shmem_regions s' i) = frames_at base ?n"
      using pages(2) by (simp add: s') (simp add: new_region_def)
    consider "j = i" "k \<noteq> i" | "k = i" "j \<noteq> i" | "j \<noteq> i" "k \<noteq> i" using \<open>j \<noteq> k\<close> by blast
    then show ?thesis
      using apart [of j] apart [of k] D(4) [OF that(1-3)] that(1,2,4,5) by cases (simp_all add: R Ri Int_commute)
  qed
  moreover have "entry_backed (g_shmem_regions s') (g_global_cap_table s' k)" if k: "k < 2048" for k
  proof (cases "k = unat c")
    case True
    have "frames_to_bytes ?n \<noteq> 0" using pages(1) n0 by (auto simp: word_unat_eq_iff)
    then show ?thesis using True i64 b0 c
      by (auto simp: s' entry_backed_def new_mem_cap_def new_region_def intro!: exI [of _ i])
  next
    case False
    then have t: "g_global_cap_table s' k = ?t k" by (simp add: s')
    show ?thesis
    proof (cases "ce_id (?t k) = 0")
      case True
      then show ?thesis using D(5) [OF k] by (simp add: t entry_backed_def)
    next
      case nz: False
      then obtain j where j: "j < 64" "sr_phys_base (?R j) = ce_word0 (?t k)" "ce_word0 (?t k) \<noteq> 0" "ce_word1 (?t k) \<noteq> 0"
        using D(5) [OF k] by (auto simp: entry_backed_def)
      have "j \<noteq> i" using j(2,3) free by auto
      then have "g_shmem_regions s' j = ?R j" by (simp add: s')
      then show ?thesis using nz j by (auto simp: t entry_backed_def intro!: exI [of _ j])
    qed
  qed
  ultimately show ?thesis unfolding shm_core_def by simp
qed

lemma shmem_map_okD:
  assumes wf: "cap_wf s" and mp: "shmem_map from to cap rights out_ok s = (Inr h, s')"
  obtains s1 where "cap_transfer_with_attenuation from to cap rights out_ok s = (Inr h, s1)"
    "s' = (case region_of (ce_word0 (cap_at s1 cap)) s1 of
             None \<Rightarrow> s1
           | Some i \<Rightarrow> upd_region i (\<lambda>r. r\<lparr> sr_ref_count := sr_ref_count r + 1 \<rparr>) s1)"
  using mp by (auto simp: shmem_map_def split: if_splits prod.splits sum.splits)

lemma shmem_map_errD:
  assumes "cap_wf s" and "shmem_map from to cap rights out_ok s = (Inl e, s')"
  shows "s' = s"
  using assms cap_transfer_with_attenuation_errD [OF assms(1)]
  by (auto simp: shmem_map_def split: if_splits prod.splits sum.splits)

lemma shm_core_map:
  assumes wf: "cap_wf s" and core: "shm_core s" and cap: "cap \<noteq> 0"
    and mp: "shmem_map from to cap rights out_ok s = (Inr h, s')"
  shows "shm_core s'"
proof -
  let ?t = "g_global_cap_table s" let ?R = "g_shmem_regions s" let ?e = "cap_at s cap"
  from shmem_map_okD [OF wf mp] obtain s1 where
    tr: "cap_transfer_with_attenuation from to cap rights out_ok s = (Inr h, s1)"
    and s': "s' = (case region_of (ce_word0 (cap_at s1 cap)) s1 of
             None \<Rightarrow> s1
           | Some i \<Rightarrow> upd_region i (\<lambda>r. r\<lparr> sr_ref_count := sr_ref_count r + 1 \<rparr>) s1)" .
  obtain c where
    src: "unat cap < 2048" "ce_id ?e = cap" and "ce_owner ?e = from" "to < HIC_DOMAIN_MAX"
      "rights AND ce_rights ?e = rights"
    and c: "c \<noteq> 0" "unat c < 2048" "ce_id (cap_at s c) = 0" "c \<noteq> cap \<or> cap = 0"
    and "h = cap_make_handle (g_domain_keys s) to c"
    and s1: "s1 = (let s1 = upd_cap c (\<lambda>e. e\<lparr> ce_id := c, ce_rights := rights, ce_owner := to, ce_flags := 0,
                 ce_word0 := ce_word0 ?e, ce_word1 := ce_word1 ?e \<rparr>) s
               in if has_child_room cap s1 then add_child cap c s1 else s1)"
    by (rule cap_transfer_with_attenuation_okD [OF wf tr])
  note D = shm_coreD [OF core]
  obtain e' where t1: "g_global_cap_table s1 = ?t(unat c := e')"
    and e': "ce_id e' = c" "ce_word0 e' = ce_word0 ?e" "ce_word1 e' = ce_word1 ?e" and R1: "g_shmem_regions s1 = ?R"
    and p1: "cs_pmm s1 = cs_pmm s"
    by (rule that [of "(cap_at s c)\<lparr> ce_id := c, ce_rights := rights, ce_owner := to, ce_flags := 0,
                 ce_word0 := ce_word0 ?e, ce_word1 := ce_word1 ?e \<rparr>"]) (auto simp: s1 Let_def)
  have ne: "unat cap \<noteq> unat c" using c(4) cap by (auto simp: word_unat_eq_iff)
  obtain i where i: "i < 64" "sr_phys_base (?R i) = ce_word0 ?e" and w: "ce_word0 ?e \<noteq> 0" "ce_word1 ?e \<noteq> 0"
    using D(5) [OF src(1)] src(2) cap by (auto simp: entry_backed_def)
  have "region_of (ce_word0 ?e) s1 = Some i"
    using region_of_base [OF core i(1)] i(2) w by (simp add: region_of_def R1)
  then have s'_eq: "s' = upd_region i (\<lambda>r. r\<lparr> sr_ref_count := sr_ref_count r + 1 \<rparr>) s1"
    using ne by (simp add: s' t1)
  have sh1: "cap_shape s1" using cap_wfD(1) [OF cap_transfer_with_attenuation_wf [OF wf tr]] .
  have on: "caps_on b (g_global_cap_table s') = (if ce_word0 ?e = b then insert (unat c) (caps_on b ?t) else caps_on b ?t)" for b
    using caps_on_add [OF t1 _ c(2,3), of b] e' c(1) by (simp add: s'_eq unat_gt_0)
  have nin: "unat c \<notin> caps_on b ?t" for b using c(3) by (simp add: caps_on_def)
  have R': "g_shmem_regions s' j = (if j = i then (?R i)\<lparr> sr_ref_count := sr_ref_count (?R i) + 1 \<rparr> else ?R j)" for j
    by (simp add: s'_eq R1)
  have p': "cs_pmm s' = cs_pmm s" by (simp add: s'_eq p1)
  have t': "g_global_cap_table s' = g_global_cap_table s1" by (simp add: s'_eq)
  have same: "sr_phys_base (g_shmem_regions s' j) = sr_phys_base (?R j)"
    "region_pages (g_shmem_regions s' j) = region_pages (?R j)" for j
    by (simp_all add: R' region_pages_def)
  have "region_ok (g_global_cap_table s') (cs_pmm s') (g_shmem_regions s' j)"
    if "j < 64" "live_region (g_shmem_regions s' j)" for j
  proof (cases "j = i")
    case True
    have ok: "region_ok ?t (cs_pmm s) (?R i)" using D(3) [OF i(1)] i(2) w by simp
    have "unat (sr_ref_count (?R i) + 1) = Suc (card (caps_on (ce_word0 ?e) ?t))"
      using ok i(2) caps_on_card_lt [of "ce_word0 ?e" ?t] by (simp add: region_ok_def unat_word_ariths)
    then show ?thesis using True ok on [of "sr_phys_base (?R i)"] nin i(2)
      by (simp add: region_ok_def same p') (simp add: R')
  next
    case False
    then have "sr_phys_base (?R j) \<noteq> ce_word0 ?e"
      using bases_distinct [OF core that(1) i(1)] that(2) i(2) by (auto simp: R')
    then show ?thesis using False D(3) [OF that(1)] that(2) on [of "sr_phys_base (?R j)"]
      by (simp add: region_ok_def R' p')
  qed
  moreover have "region_frames (g_shmem_regions s' j) \<inter> region_frames (g_shmem_regions s' k) = {}"
    if "j < 64" "k < 64" "j \<noteq> k" "live_region (g_shmem_regions s' j)" "live_region (g_shmem_regions s' k)" for j k
    using D(4) [OF that(1-3)] that(4,5) by (simp add: same)
  moreover have "entry_backed (g_shmem_regions s') (g_global_cap_table s' k)" if k: "k < 2048" for k
    using D(5) [OF k] i w e' c(1) by (cases "k = unat c") (auto simp: entry_backed_def same t' t1)
  moreover have "cap_shape s'" using sh1 by (simp add: s'_eq cap_shape_def)
  ultimately show ?thesis using D(2) unfolding shm_core_def by (simp add: p')
qed

lemma shmem_unmap_okD:
  assumes "shmem_unmap domain handle s = (Inr u, s')"
  shows "unat (cap_get_cap_id handle) < 2048" and "ce_owner (cap_at s (cap_get_cap_id handle)) = domain"
    and "cap_validate_token (g_domain_keys s) domain (cap_get_cap_id handle) (cap_get_token handle)"
    and "s' = upd_cap (cap_get_cap_id handle) (\<lambda>e. e\<lparr> ce_flags := 0, ce_rights := 0, ce_owner := 0, ce_id := 0 \<rparr>)
      (case region_of (ce_word0 (cap_at s (cap_get_cap_id handle))) s of None \<Rightarrow> s | Some i \<Rightarrow> drop_region_ref i s)"
  using assms by (auto simp: shmem_unmap_def Let_def cap_ge_iff not_le split: if_splits)

lemma shmem_unmap_errD: "shmem_unmap domain handle s = (Inl e, s') \<Longrightarrow> s' = s"
  by (auto simp: shmem_unmap_def Let_def split: if_splits)

lemma drop_region_ref_sel [simp]:
  "g_global_cap_table (drop_region_ref i s) = g_global_cap_table s"
  "g_derivatives (drop_region_ref i s) = g_derivatives s"
  "g_domain_keys (drop_region_ref i s) = g_domain_keys s"
  "cap_fault (drop_region_ref i s) = cap_fault s"
  "g_privileged_domain_bitmap (drop_region_ref i s) = g_privileged_domain_bitmap s"
  by (simp_all add: drop_region_ref_def Let_def)

lemma drop_region_ref_shape:
  assumes "cap_shape s"
  shows "cap_shape (drop_region_ref i s)"
proof -
  have "pmm_wf (snd (pmm_free_frames a n (cs_pmm s)))" for a n
    using pmm_free_frames_wf [OF cap_shapeD(3) [OF assms], of a n] by (metis prod.collapse)
  then show ?thesis using assms by (auto simp: drop_region_ref_def Let_def cap_shape_def)
qed

lemma shmem_unmap_wf:
  assumes wf: "cap_wf s" and um: "shmem_unmap domain handle s = (r, s')"
  shows "cap_wf s'"
proof (cases r)
  case (Inl e)
  then show ?thesis using um wf shmem_unmap_errD by blast
next
  case (Inr u)
  note U = shmem_unmap_okD [OF um [unfolded Inr]]
  have "cap_wf (drop_region_ref i s)" for i
    using wf drop_region_ref_shape by (simp add: cap_wf_def)
  then show ?thesis unfolding U(4) using wf by (intro cap_wf_upd_cap) (auto split: option.split)
qed

lemma shm_core_unmap:
  assumes core: "shm_core s" and um: "shmem_unmap domain handle s = (Inr u, s')"
    and live: "ce_id (cap_at s (cap_get_cap_id handle)) \<noteq> 0"
  shows "shm_core s'"
proof -
  let ?c = "cap_get_cap_id handle" let ?e = "cap_at s ?c"
  note U = shmem_unmap_okD [OF um] and D = shm_coreD [OF core]
  have c0: "?c \<noteq> 0" using live cap_shape_null [OF D(1)] by auto
  obtain i where i: "i < 64" "sr_phys_base (g_shmem_regions s i) = ce_word0 ?e" and w: "ce_word0 ?e \<noteq> 0"
    using D(5) [OF U(1)] live by (auto simp: entry_backed_def)
  let ?r = "g_shmem_regions s i"
  have "region_of (ce_word0 ?e) s = Some i" using region_of_base [OF core i(1)] i(2) w by simp
  then have s': "s' = upd_cap ?c (\<lambda>e. e\<lparr> ce_flags := 0, ce_rights := 0, ce_owner := 0, ce_id := 0 \<rparr>) (drop_region_ref i s)"
    using U(4) by simp
  have "region_ok (g_global_cap_table s) (cs_pmm s) ?r" using D(3) [OF i(1)] i(2) w by simp
  then have pos: "sr_ref_count ?r > 0" by (auto simp: region_ok_def word_less_nat_alt card_gt_0_iff)
  have one: "sr_ref_count ?r - 1 = 0 \<longleftrightarrow> sr_ref_count ?r = 1" by simp
  show ?thesis
  proof (rule shm_core_drop [OF core _ U(1) live i])
    show "0 < unat ?c" using c0 by (simp add: unat_gt_0)
    show "g_global_cap_table s' = (g_global_cap_table s)(unat ?c := cleared ?e)"
      by (auto simp: s' cleared_def)
    show "cap_shape s'"
      unfolding s' by (intro cap_shape_upd_cap drop_region_ref_shape D(1)) simp
    show "g_shmem_regions s' = (g_shmem_regions s)(i := g_shmem_regions s' i)"
      using pos by (auto simp: s' drop_region_ref_def Let_def)
  qed (use pos in \<open>simp_all add: s' drop_region_ref_def Let_def one cleared_def region_pages_def\<close>)
qed

section \<open>Histories of shared memory\<close>

text \<open>
  A history starts with an empty capability table, no region and frame 0 in use, and runs the
  operations on shared memory and revocation. Requests stay below 4 GiB; the null capability is
  never mapped; Core-0 unmaps only capabilities that exist.
\<close>

inductive shm_step :: "cap_state \<Rightarrow> cap_state \<Rightarrow> bool" where
  alloc: "shmem_alloc owner sz flgs outs_ok s = (r, s') \<Longrightarrow> sz \<le> 0xFFFFF000 \<Longrightarrow> shm_step s s'"
| mapping: "shmem_map from to cap rights out_ok s = (r, s') \<Longrightarrow> cap \<noteq> HIC_CAP_INVALID \<Longrightarrow> shm_step s s'"
| unmap: "shmem_unmap domain handle s = (r, s') \<Longrightarrow>
     domain \<noteq> HIC_DOMAIN_CORE \<or>
       (capability_exists (cap_get_cap_id handle) s \<and> cap_get_cap_id handle \<noteq> HIC_CAP_INVALID) \<Longrightarrow>
     shm_step s s'"
| revoke: "cap_revoke cap s = (r, s') \<Longrightarrow> shm_step s s'"
| channel: "cap_migration_channel_create from to buffer_size outs_ok s = (r, s') \<Longrightarrow>
     buffer_size \<le> 0xFFFFF000 \<Longrightarrow> shm_step s s'"
| init_key: "shm_step s (cap_init_domain_key domain ts s)"

inductive shm_reachable :: "cap_state \<Rightarrow> bool" where
  boot: "pmm_wf (cs_pmm s) \<Longrightarrow> frame_busy (cs_pmm s) 0 \<Longrightarrow>
     (\<And>i. i < MAX_SHMEM_REGIONS \<Longrightarrow> sr_phys_base (g_shmem_regions s i) = 0) \<Longrightarrow>
     shm_reachable (capability_system_init s)"
| step: "shm_reachable s \<Longrightarrow> shm_step s s' \<Longrightarrow> shm_reachable s'"

definition shm_inv :: "cap_state \<Rightarrow> bool" where
  "shm_inv s \<longleftrightarrow> cap_wf s \<and> shm_core s"

lemma shm_inv_boot:
  assumes "pmm_wf (cs_pmm s)" and "frame_busy (cs_pmm s) 0"
    and "\<And>i. i < MAX_SHMEM_REGIONS \<Longrightarrow> sr_phys_base (g_shmem_regions s i) = 0"
  shows "shm_inv (capability_system_init s)"
proof -
  have wf: "cap_wf (capability_system_init s)" by (rule capability_system_init_wf [OF assms(1)])
  have "entry_backed R zero_cap_entry" for R by (simp add: entry_backed_def zero_cap_entry_def)
  then show ?thesis
    using wf assms(2,3) cap_wfD(1) [OF wf]
    by (simp add: shm_inv_def shm_core_def capability_system_init_def hic_consts)
qed

lemma new_mem_cap_wf_region: "cap_wf (upd_region i f s) = cap_wf s"
  by (simp add: cap_wf_def cap_shape_def)

lemma shmem_alloc_wf:
  assumes wf: "cap_wf s" and al: "shmem_alloc owner sz flgs outs_ok s = (r, s')"
  shows "cap_wf s'"
proof (cases r)
  case (Inl e)
  then show ?thesis using wf al shmem_alloc_errD by blast
next
  case (Inr ch)
  obtain c h where ch: "ch = (c, h)" by (cases ch)
  obtain i base p where "free_region s = Some i"
    and pal: "pmm_alloc_frames (shmem_pages sz) True (cs_pmm s) = (Inr base, p)"
    and "c \<noteq> 0" "unat c < 2048" "ce_id (cap_at s c) = 0" and "owner < HIC_DOMAIN_MAX" "sz \<noteq> 0"
      "h = cap_make_handle (g_domain_keys s) owner c"
    and s': "s' = upd_region i (\<lambda>_. new_region owner base (shmem_pages sz) flgs)
            (upd_cap c (new_mem_cap c owner base (frames_to_bytes (shmem_pages sz)) (alloc_rights flgs)) (set_pmm p s))"
    by (rule shmem_alloc_okD [OF wf al [unfolded Inr ch]])
  have "cap_wf (set_pmm p s)"
    by (rule cap_wf_set_pmm [OF wf pmm.alloc_sound [OF cap_shapeD(3) [OF cap_wfD(1) [OF wf]] pal]])
  then show ?thesis
    unfolding s' new_mem_cap_wf_region by (rule cap_wf_upd_cap) (simp_all add: new_mem_cap_def)
qed

lemma shmem_map_wf:
  assumes wf: "cap_wf s" and mp: "shmem_map from to cap rights out_ok s = (r, s')"
  shows "cap_wf s'"
proof (cases r)
  case (Inl e)
  then show ?thesis using wf mp shmem_map_errD by blast
next
  case (Inr h)
  obtain s1 where tr: "cap_transfer_with_attenuation from to cap rights out_ok s = (Inr h, s1)"
    and s': "s' = (case region_of (ce_word0 (cap_at s1 cap)) s1 of
             None \<Rightarrow> s1
           | Some i \<Rightarrow> upd_region i (\<lambda>r. r\<lparr> sr_ref_count := sr_ref_count r + 1 \<rparr>) s1)"
    by (rule shmem_map_okD [OF wf mp [unfolded Inr]])
  from cap_transfer_with_attenuation_wf [OF wf tr] show ?thesis
    by (simp add: s' new_mem_cap_wf_region split: option.split)
qed

lemma shm_inv_alloc:
  assumes "shm_inv s" and "shmem_alloc owner sz flgs outs_ok s = (r, s')" and "sz \<le> 0xFFFFF000"
  shows "shm_inv s'"
proof (cases r)
  case (Inl e)
  have "cap_wf s" using assms(1) by (simp add: shm_inv_def)
  then have "s' = s" by (rule shmem_alloc_errD [OF _ assms(2) [unfolded Inl]])
  then show ?thesis using assms(1) by simp
next
  case (Inr ch)
  obtain c h where ch: "ch = (c, h)" by (cases ch)
  have "unat sz \<le> 4294963200" using assms(3) by (simp add: word_le_nat_alt)
  then show ?thesis
    using assms Inr ch shm_core_alloc [of s sz] shmem_alloc_wf by (auto simp: shm_inv_def)
qed

lemma shm_inv_map:
  assumes "shm_inv s" and "shmem_map from to cap rights out_ok s = (r, s')" and "cap \<noteq> HIC_CAP_INVALID"
  shows "shm_inv s'"
proof (cases r)
  case (Inl e)
  have "cap_wf s" using assms(1) by (simp add: shm_inv_def)
  then have "s' = s" by (rule shmem_map_errD [OF _ assms(2) [unfolded Inl]])
  then show ?thesis using assms(1) by simp
next
  case (Inr h)
  then show ?thesis
    using assms shm_core_map [of s cap] shmem_map_wf by (auto simp: shm_inv_def HIC_CAP_INVALID_def)
qed

lemma shm_inv_revoke: "shm_inv s \<Longrightarrow> cap_revoke cap s = (r, s') \<Longrightarrow> shm_inv s'"
  using cap_revoke_core cap_revoke_wf(1) by (auto simp: shm_inv_def)

lemma shm_inv_unmap:
  assumes inv: "shm_inv s" and um: "shmem_unmap domain handle s = (r, s')"
    and dom: "domain \<noteq> HIC_DOMAIN_CORE \<or>
       (capability_exists (cap_get_cap_id handle) s \<and> cap_get_cap_id handle \<noteq> HIC_CAP_INVALID)"
  shows "shm_inv s'"
proof (cases r)
  case (Inl e)
  then show ?thesis using um inv shmem_unmap_errD by blast
next
  case (Inr u)
  note um = um [unfolded Inr]
  let ?c = "cap_get_cap_id handle"
  have core: "shm_core s" and wf: "cap_wf s" using inv by (simp_all add: shm_inv_def)
  have "ce_id (cap_at s ?c) \<noteq> 0"
    using dom shm_coreD(5) [OF core shmem_unmap_okD(1) [OF um]] shmem_unmap_okD(2) [OF um]
    by (auto simp: entry_backed_def capability_exists_def hic_consts)
  then show ?thesis using shm_core_unmap [OF core um] shmem_unmap_wf [OF wf um] by (simp add: shm_inv_def)
qed

lemma shm_inv_channel:
  assumes inv: "shm_inv s" and ch: "cap_migration_channel_create from to buffer_size outs_ok s = (r, s')"
    and small: "buffer_size \<le> 0xFFFFF000"
  shows "shm_inv s'"
proof -
  let ?b = "if buffer_size = 0 then 64 * 1024 else buffer_size"
  have b: "?b \<le> 0xFFFFF000" using small by simp
  show ?thesis
  proof (cases "shmem_alloc from ?b SHMEM_FLAG_WRITABLE True s")
    case al: (Pair r1 s1)
    note inv1 = shm_inv_alloc [OF inv al b]
    show ?thesis
    proof (cases r1)
      case (Inl e)
      then show ?thesis using inv inv1 ch al
        by (simp add: cap_migration_channel_create_def Let_def split: if_splits)
    next
      case (Inr x)
      obtain c h where x: "x = (c, h)" by (cases x)
      have c0: "c \<noteq> HIC_CAP_INVALID"
      proof -
        have "cap_wf s" using inv by (simp add: shm_inv_def)
        then have "c \<noteq> 0" by (rule shmem_alloc_okD [OF _ al [unfolded Inr x]])
        then show ?thesis by (simp add: HIC_CAP_INVALID_def)
      qed
      show ?thesis
      proof (cases "shmem_map from to c (CAP_MEM_READ OR CAP_MEM_WRITE) True s1")
        case (Pair r2 s2)
        have "shm_inv s2" by (rule shm_inv_map [OF inv1 Pair c0])
        then have "shm_inv (snd (cap_revoke c s2))" 
          by (rule shm_inv_revoke [OF _ prod.collapse [symmetric]])
        then show ?thesis
          using \<open>shm_inv s2\<close> inv ch al Inr x Pair
          by (auto simp: cap_migration_channel_create_def Let_def split: if_splits sum.splits)
      qed
    qed
  qed
qed

lemma cap_init_domain_key_sel [simp]:
  "g_global_cap_table (cap_init_domain_key d ts s) = g_global_cap_table s"
  "g_shmem_regions (cap_init_domain_key d ts s) = g_shmem_regions s"
  "cs_pmm (cap_init_domain_key d ts s) = cs_pmm s"
  by (simp_all add: cap_init_domain_key_def)

lemma shm_inv_key:
  assumes "shm_inv s"
  shows "shm_inv (cap_init_domain_key domain ts s)"
proof -
  have wf: "cap_wf (cap_init_domain_key domain ts s)" using assms by (simp add: shm_inv_def)
  have "shm_core s" using assms by (simp add: shm_inv_def)
  then have "shm_core (cap_init_domain_key domain ts s)"
    by (rule shm_core_cong [OF _ cap_wfD(1) [OF wf]]) simp_all
  with wf show ?thesis by (simp add: shm_inv_def)
qed

lemma shm_step_inv: "shm_step s s' \<Longrightarrow> shm_inv s \<Longrightarrow> shm_inv s'"
proof (induction rule: shm_step.induct)
  case alloc
  show ?case by (rule shm_inv_alloc [OF alloc(3,1,2)])
next
  case mapping
  show ?case by (rule shm_inv_map [OF mapping(3,1,2)])
next
  case unmap
  show ?case by (rule shm_inv_unmap [OF unmap(3,1,2)])
next
  case revoke
  show ?case by (rule shm_inv_revoke [OF revoke(2,1)])
next
  case channel
  show ?case by (rule shm_inv_channel [OF channel(3,1,2)])
next
  case init_key
  then show ?case by (rule shm_inv_key)
qed

lemma shm_reachable_inv: "shm_reachable s \<Longrightarrow> shm_inv s"
proof (induction rule: shm_reachable.induct)
  case (boot s)
  then show ?case by (rule shm_inv_boot)
next
  case (step s s')
  then show ?case using shm_step_inv by blast
qed

section \<open>Properties of shared memory\<close>

text \<open>Domain 1 allocates two pages and maps them, read-only, to domain 2.\<close>

definition shm_ex1 :: cap_state where
  "shm_ex1 = snd (shmem_alloc 1 0x1800 1 True ex_boot)"

definition shm_ex2 :: cap_state where
  "shm_ex2 = snd (shmem_map 1 2 1 1 True shm_ex1)"

lemma pmm_small_frame0: "frame_busy pmm_small 0"
  by code_simp

lemma shm_reachable_boot: "shm_reachable ex_boot"
proof -
  have "shm_reachable (capability_system_init cap_zero_state)"
    using pmm_small_wf pmm_small_frame0 by (intro shm_reachable.boot) (simp_all add: cap_zero_state_def)
  then show ?thesis unfolding ex_boot_def
    by (rule shm_reachable.step [OF shm_reachable.step, OF _ shm_step.init_key shm_step.init_key])
qed

lemma shm_reachable_ex1: "shm_reachable shm_ex1"
  unfolding shm_ex1_def
  by (rule shm_reachable.step [OF shm_reachable_boot shm_step.alloc [OF prod.collapse [symmetric]]]) simp

lemma shm_reachable_ex2: "shm_reachable shm_ex2"
  unfolding shm_ex2_def
  by (rule shm_reachable.step [OF shm_reachable_ex1 shm_step.mapping [OF prod.collapse [symmetric]]])
     (simp add: hic_consts)



text \<open>
  C33. The capability that \<open>shmem_alloc\<close> returns covers the requested size exactly for requests up
  to \<open>0xFFFFF000\<close> bytes: the page count and its product with the page size are cut to 32 bits, so
  a larger request succeeds with less memory than asked for.
\<close>

theorem shmem_alloc_covers_request:
  assumes "cap_wf s" and "shmem_alloc owner sz flgs outs_ok s = (Inr (c, h), s')"
  shows "sz \<le> ce_word1 (cap_at s' c) \<longleftrightarrow> sz \<le> 0xFFFFF000"
proof -
  let ?n = "shmem_pages sz"
  obtain i base p where "free_region s = Some i"
    and pal: "pmm_alloc_frames ?n True (cs_pmm s) = (Inr base, p)"
    and c: "c \<noteq> 0" "unat c < 2048" "ce_id (cap_at s c) = 0" and "owner < HIC_DOMAIN_MAX" "sz \<noteq> 0"
      "h = cap_make_handle (g_domain_keys s) owner c"
    and s': "s' = upd_region i (\<lambda>_. new_region owner base ?n flgs)
            (upd_cap c (new_mem_cap c owner base (frames_to_bytes ?n) (alloc_rights flgs)) (set_pmm p s))"
    by (rule shmem_alloc_okD [OF assms])
  have w: "ce_word1 (cap_at s' c) = frames_to_bytes ?n" by (simp add: s' new_mem_cap_def)
  have n0: "?n \<noteq> 0" using pmm.alloc_nonzero [OF cap_shapeD(3) [OF cap_wfD(1) [OF assms(1)]] pal] .
  have "unat (frames_to_bytes ?n) = unat ?n * 4096 mod 4294967296"
    by (simp add: frames_to_bytes_def unat_word_ariths PAGE_SIZE_def)
  also have "\<dots> = (unat ?n mod 1048576) * 4096"
    using mult_mod_left [of "unat ?n" 1048576 4096] by simp
  also have "\<dots> \<le> 4294963200" by simp
  finally have "frames_to_bytes ?n \<le> 0xFFFFF000" by (simp add: word_le_nat_alt)
  moreover have "sz \<le> frames_to_bytes ?n" if "sz \<le> 0xFFFFF000"
  proof -
    have small: "unat sz \<le> 4294963200" using that by (simp add: word_le_nat_alt)
    then show ?thesis
      using frames_to_bytes_pages(1) [OF n0 shmem_pages_small(2) [OF small]] shmem_pages_small(1) [OF small]
      by (simp add: word_le_nat_alt)
  qed
  ultimately show ?thesis unfolding w by auto
qed

theorem shmem_alloc_covers_request_witness:
  "\<exists>c h. fst (shmem_alloc 1 0x100000000001 1 True ex_boot) = Inr (c, h) \<and>
     \<not> 0x100000000001 \<le> ce_word1 (cap_at (snd (shmem_alloc 1 0x100000000001 1 True ex_boot)) c)"
proof -
  have "\<not> isl (fst (shmem_alloc 1 0x100000000001 1 True ex_boot))" by code_simp
  then obtain c h where r: "fst (shmem_alloc 1 0x100000000001 1 True ex_boot) = Inr (c, h)"
    by (cases "fst (shmem_alloc 1 0x100000000001 1 True ex_boot)") auto
  have "cap_wf ex_boot" using shm_reachable_inv [OF shm_reachable_boot] by (simp add: shm_inv_def)
  then have "\<not> 0x100000000001 \<le> ce_word1 (cap_at (snd (shmem_alloc 1 0x100000000001 1 True ex_boot)) c)"
    using shmem_alloc_covers_request [of ex_boot 1 "0x100000000001" 1 True c h, OF _ prod_eqI] r by simp
  with r show ?thesis by blast
qed

text \<open>
  Revoking a capability clears the first capability on its child list, whatever put it there.
\<close>

lemma revoke_clears_first_child:
  assumes sh: "cap_shape s" and p: "unat p < 2048" "ce_id (cap_at s p) = p"
    and n: "dv_child_count (deriv_at s p) \<noteq> 0" and k: "k = dv_children (deriv_at s p) 0" "k \<noteq> p" "k \<noteq> 0"
    and live: "capability_exists k s"
  shows "ce_id (cap_at (revoke_body (cap_revoke_r (Suc levels)) p s) k) = 0"
proof -
  let ?f = "cap_revoke_r (Suc levels)" let ?s1 = "set_revoked p s"
  note f = cap_revoke_r_only_clears
  have kk: "unat k < 2048" "ce_id (cap_at s k) = k" "\<not> entry_revoked (cap_at s k)"
    using live by (simp_all add: capability_exists_def cap_ge_iff)
  have np: "unat k \<noteq> unat p" using k(2) by (simp add: word_unat_eq_iff)
  have sh1: "cap_shape ?s1" by (rule set_revoked_shape [OF sh p(2)])
  have k1: "cap_at ?s1 k = cap_at s k" using np by (simp add: set_revoked_def)
  let ?t = "?f k ?s1"
  have "?t = revoke_body (cap_revoke_r levels) k ?s1"
    using kk k1 by (simp add: cap_revoke_r_Suc cap_ge_iff)
  then have tk: "cap_at ?t k = cleared (cap_at s k)"
    using revoke_body_effect(2) [OF f sh1, of k] kk k1 by simp
  have sht: "cap_shape ?t" by (rule only_clearsD(4) [OF f [OF sh1]])
  have loop: "revoke_children ?f p MAX_DERIVATIVES_PER_CAP 0 ?s1 = revoke_children ?f p 15 (Suc 0) ?t"
  proof -
    have m: "MAX_DERIVATIVES_PER_CAP = Suc 15" by (simp add: MAX_DERIVATIVES_PER_CAP_def)
    have d: "deriv_at ?s1 p = deriv_at s p" by (simp add: set_revoked_def)
    show ?thesis
      using n k kk k1 unfolding m revoke_children.simps Let_def d
      by (simp add: unat_gt_0 HIC_CAP_INVALID_def cap_lt_iff)
  qed
  have "only_clears ?t (revoke_children ?f p 15 (Suc 0) ?t)" by (rule revoke_children_only_clears [OF f sht])
  then have "cap_at (revoke_children ?f p 15 (Suc 0) ?t) k = cleared (cap_at s k)"
    using only_clearsD(1) [of ?t _ "unat k"] tk by fastforce
  then show ?thesis
    using np by (simp add: revoke_body_def Let_def loop clear_cap_table cleared_def)
qed

text \<open>
  \<open>shmem_unmap\<close> frees the table entry but leaves its list of children. Whoever gets the slot
  next and revokes its own, fresh capability thereby revokes a capability of another domain:
  the one the former owner had mapped.
\<close>

lemma unmap_leaves_children:
  assumes "cap_wf s" and "shmem_unmap domain handle s = (Inr u, s1)"
    and "dv_child_count (deriv_at s (cap_get_cap_id handle)) \<noteq> 0"
    and "k = dv_children (deriv_at s (cap_get_cap_id handle)) 0"
    and "capability_exists k s" and "k \<noteq> cap_get_cap_id handle"
    and "cap_create_memory owner base sz rights out_ok s1 = (Inr (cap_get_cap_id handle), s2)"
    and "cap_revoke (cap_get_cap_id handle) s2 = (Inr v, s3)"
  shows "capability_exists k s2 \<and> cap_at s2 k = cap_at s k \<and> \<not> capability_exists k s3"
proof -
  let ?c = "cap_get_cap_id handle"
  note U = shmem_unmap_okD [OF assms(2)]
  have wf1: "cap_wf s1" by (rule shmem_unmap_wf [OF assms(1,2)])
  note C = cap_create_memory_okD [OF wf1 assms(7)]
  have wf2: "cap_wf s2" by (rule cap_create_memory_wf [OF wf1 assms(7)])
  note V = cap_revoke_okD [OF wf2 assms(8)]
  have nc: "unat k \<noteq> unat ?c" using assms(6) by (simp add: word_unat_eq_iff)
  have same: "cap_at s2 k = cap_at s k" "deriv_at s2 ?c = deriv_at s ?c"
    using nc unfolding C(5) U(4) by (simp_all split: option.split)
  have k0: "k \<noteq> 0"
    using cap_shapeD(2) [OF cap_wfD(1) [OF assms(1)] U(1)] assms(3,4) by (simp add: deriv_ok_def unat_gt_0)
  have ex: "capability_exists k s2" using assms(5) same by (simp add: capability_exists_def)
  have "ce_id (cap_at s3 k) = 0"
    unfolding V(5) using revoke_clears_first_child [OF cap_wfD(1) [OF wf2] V(2,3), of k 15] same assms(3,4,6) k0 ex by simp
  then show ?thesis using ex same k0 by (simp add: capability_exists_def)
qed

definition shm_ex3 :: cap_state where
  "shm_ex3 = snd (shmem_unmap 1 (cap_make_handle (g_domain_keys shm_ex2) 1 1) shm_ex2)"

definition shm_ex4 :: cap_state where
  "shm_ex4 = snd (cap_create_memory 3 0x200000 0x1000 1 True shm_ex3)"

lemma unmap_leaves_children_witness:
  "capability_exists 2 shm_ex4 \<and> ce_owner (cap_at shm_ex4 2) = 2 \<and> ce_owner (cap_at shm_ex4 1) = 3 \<and>
   \<not> capability_exists 2 (snd (cap_revoke 1 shm_ex4))"
proof -
  let ?h = "cap_make_handle (g_domain_keys shm_ex2) 1 1"
  have wf: "cap_wf shm_ex2" using shm_reachable_inv [OF shm_reachable_ex2] by (simp add: shm_inv_def)
  have ex2: "ce_owner (cap_at shm_ex2 1) = 1" "capability_exists 2 shm_ex2" "ce_owner (cap_at shm_ex2 2) = 2"
    "dv_child_count (deriv_at shm_ex2 1) = 1" "dv_children (deriv_at shm_ex2 1) 0 = 2"
    by code_simp+
  have u: "shmem_unmap 1 ?h shm_ex2 = (Inr (), shm_ex3)"
    using ex2(1) by (simp add: shm_ex3_def shmem_unmap_def Let_def cap_validate_token_def cap_ge_iff)
  have c1: "cap_slot_scan (g_global_cap_table shm_ex3) 2048 0 HIC_CAP_INVALID = 1"
    by (rule cap_slot_scan_one) (simp add: shmem_unmap_okD(4) [OF u])
  then have c: "cap_create_memory 3 0x200000 0x1000 1 True shm_ex3 = (Inr 1, shm_ex4)"
    by (simp add: shm_ex4_def cap_create_memory_def Let_def hic_consts)
  note C = cap_create_memory_okD(5) [OF shmem_unmap_wf [OF wf u] c]
  have ex4: "ce_id (cap_at shm_ex4 1) = 1" "ce_owner (cap_at shm_ex4 1) = 3" by (simp_all add: C)
  have r: "cap_revoke 1 shm_ex4 = (Inr (), snd (cap_revoke 1 shm_ex4))"
    using cap_revoke_succeeds [of 1 shm_ex4] ex4(1) by (simp add: prod_eq_iff)
  show ?thesis
    using unmap_leaves_children [OF wf u, of 2 3 "0x200000" "0x1000" 1 True shm_ex4 "()"] ex2 c r ex4 by simp
qed

section \<open>Properties of service replacement\<close>

lemma cap_create_service_instance_okD:
  assumes "cap_create_service_instance owner service_name version flgs out_ok s = (Inr c, s')"
  shows "owner < HIC_DOMAIN_MAX" and "c \<noteq> 0" and "unat c < 2048" and "ce_id (cap_at (sv_caps s) c) = 0"
    and "sv_caps s' = upd_cap c (\<lambda>e. e\<lparr> ce_id := c, ce_rights := CAP_LCORE_QUERY OR flgs,
           ce_owner := owner, ce_flags := 0 \<rparr>) (sv_caps s)"
proof -
  let ?c = "first_free_slot (g_global_cap_table (sv_caps s))"
  have *: "owner < HIC_DOMAIN_MAX \<and> ?c = c \<and> c \<noteq> HIC_CAP_INVALID \<and>
      sv_caps s' = upd_cap c (\<lambda>e. e\<lparr> ce_id := c, ce_rights := CAP_LCORE_QUERY OR flgs,
           ce_owner := owner, ce_flags := 0 \<rparr>) (sv_caps s)"
    using assms
    by (auto simp: cap_create_service_instance_def Let_def upd_instance_def not_le
        split: option.splits if_splits)
  then show "owner < HIC_DOMAIN_MAX" and "sv_caps s' = upd_cap c (\<lambda>e. e\<lparr> ce_id := c,
      ce_rights := CAP_LCORE_QUERY OR flgs, ce_owner := owner, ce_flags := 0 \<rparr>) (sv_caps s)" by simp_all
  from * show "c \<noteq> 0" and "unat c < 2048" and "ce_id (cap_at (sv_caps s) c) = 0"
    using first_free_slot_ok [of _ c] by (auto simp: HIC_CAP_INVALID_def)
qed

text \<open>
  Creating a service instance takes a free table entry without writing its object, and its
  rights are whatever the caller passes as flags. In the slot of a revoked memory capability
  the caller receives any rights it asks for on the revoked memory.
\<close>

lemma service_instance_revives_memory:
  assumes "cap_wf (sv_caps s)" and "cap_revoke c (sv_caps s) = (Inr u, t)"
    and "cap_create_service_instance owner service_name version flgs out_ok (s\<lparr> sv_caps := t \<rparr>) = (Inr c, s')"
    and "flgs AND required = required"
  shows "ce_word0 (cap_at (sv_caps s') c) = ce_word0 (cap_at (sv_caps s) c) \<and>
    ce_word1 (cap_at (sv_caps s') c) = ce_word1 (cap_at (sv_caps s) c) \<and>
    cap_check_access owner (cap_make_handle (g_domain_keys (sv_caps s')) owner c) required (sv_caps s') = Inr ()"
proof -
  note V = cap_revoke_okD [OF assms(1,2)] and S = cap_create_service_instance_okD [OF assms(3)]
  have e: "cap_at (sv_caps s') c = (cleared (cap_at (sv_caps s) c))\<lparr> ce_id := c,
      ce_rights := CAP_LCORE_QUERY OR flgs, ce_owner := owner, ce_flags := 0 \<rparr>"
    using S(5) V(4) by simp
  have "(CAP_LCORE_QUERY OR flgs) AND required = required"
    using assms(4) by (auto simp: bit_eq_iff bit_simps)
  then show ?thesis
    using V(2) by (simp add: e cleared_def cap_check_access_def Let_def cap_make_handle_valid cap_ge_iff
        entry_revoked_def cap_validate_token_def)
qed

definition sv_ex :: service_state where
  "sv_ex = \<lparr> sv_caps = ex_mem,
     g_service_instances = (\<lambda>_. \<lparr> sv_name = (\<lambda>_. 0), sv_version = 0, sv_domain = 0,
       sv_state = SERVICE_INSTANCE_INIT, sv_connection_count = 0, sv_flags = 0,
       sv_primary_cap = 0, sv_standby_cap = 0 \<rparr>),
     g_connection_trackers = (\<lambda>_. \<lparr> ct_cap_id = 0, ct_owner = 0, ct_original_owner = 0,
       ct_create_time = 0, ct_flags = 0, ct_state_data = (\<lambda>_. 0), ct_state_size = 0 \<rparr>),
     sv_fault = False \<rparr>"

definition sv_ex2 :: service_state where
  "sv_ex2 = snd (cap_create_service_instance 2 (Some [102]) 1 3 True
     (sv_ex\<lparr> sv_caps := snd (cap_revoke 1 ex_mem) \<rparr>))"

lemma service_instance_revives_memory_witness:
  "ce_owner (cap_at ex_mem 1) = 1 \<and> ce_word0 (cap_at (sv_caps sv_ex2) 1) = 0x100000 \<and>
   cap_check_access 2 (cap_make_handle (g_domain_keys (sv_caps sv_ex2)) 2 1) 3 (sv_caps sv_ex2) = Inr ()"
proof -
  have ex: "ce_id (cap_at ex_mem 1) = 1" "ce_owner (cap_at ex_mem 1) = 1" "ce_word0 (cap_at ex_mem 1) = 0x100000"
    by code_simp+
  let ?t = "snd (cap_revoke 1 ex_mem)"
  have r: "cap_revoke 1 ex_mem = (Inr (), ?t)"
    using cap_revoke_succeeds [of 1 ex_mem] ex(1) by (simp add: prod_eq_iff)
  have "ce_id (g_global_cap_table ?t 1) = 0"
    using cap_revoke_okD(4) [OF ex_mem_wf r] by (simp add: cleared_def)
  then have "find_first (\<lambda>i. ce_id (g_global_cap_table ?t i) = 0) 1 2047 = Some 1"
    by (simp add: find_first_Some_iff)
  then have "first_free_slot (g_global_cap_table ?t) = 1"
    by (simp add: first_free_slot_def first_slot_def)
  moreover have "find_first (\<lambda>i. sv_name (g_service_instances sv_ex i) 0 = 0) 0 MAX_SERVICE_INSTANCES = Some 0"
    by (simp add: find_first_Some_iff sv_ex_def MAX_SERVICE_INSTANCES_def)
  ultimately have "cap_create_service_instance 2 (Some [102]) 1 3 True (sv_ex\<lparr> sv_caps := ?t \<rparr>) = (Inr 1, sv_ex2)"
    by (simp add: sv_ex2_def cap_create_service_instance_def Let_def hic_consts upd_instance_def)
  then show ?thesis
    using service_instance_revives_memory [of sv_ex 1 "()" ?t 2 "Some [102]" 1 3 True sv_ex2 3] r ex ex_mem_wf
    by (simp add: sv_ex_def)
qed

text \<open>
  Histories of the service tables: instances are created, connections migrate, a primary is
  switched, and any other operation may change the capability state.
\<close>

inductive sv_step :: "service_state \<Rightarrow> service_state \<Rightarrow> bool" where
  create: "cap_create_service_instance owner service_name version flgs out_ok s = (r, s') \<Longrightarrow> sv_step s s'"
| migrate: "cap_connection_migrate conn_cap from to state_data state_size ts s = (r, s') \<Longrightarrow> sv_step s s'"
| switch: "cap_service_switch_primary service_cap new_primary s = (r, s') \<Longrightarrow> sv_step s s'"
| caps: "sv_step s (s\<lparr> sv_caps := t \<rparr>)"

inductive sv_reachable :: "service_state \<Rightarrow> bool" where
  boot: "(\<And>i. i < MAX_SERVICE_INSTANCES \<Longrightarrow> sv_primary_cap (g_service_instances s i) = 0 \<and>
     sv_standby_cap (g_service_instances s i) = 0) \<Longrightarrow> sv_reachable s"
| step: "sv_reachable s \<Longrightarrow> sv_step s s' \<Longrightarrow> sv_reachable s'"

definition sv_null :: "service_state \<Rightarrow> bool" where
  "sv_null s \<longleftrightarrow> (\<forall>i. i < MAX_SERVICE_INSTANCES \<longrightarrow>
     sv_primary_cap (g_service_instances s i) = 0 \<and> sv_standby_cap (g_service_instances s i) = 0)"

lemma instance_of_null:
  assumes "sv_null s" and "cap \<noteq> HIC_CAP_INVALID"
  shows "instance_of cap s = None"
  using assms by (auto simp: instance_of_def find_first_None_iff sv_null_def HIC_CAP_INVALID_def)

lemma sv_step_null: "sv_step s s' \<Longrightarrow> sv_null s \<Longrightarrow> sv_null s'"
proof (induction rule: sv_step.induct)
  case create
  then show ?case
    by (auto simp: cap_create_service_instance_def Let_def upd_instance_def sv_null_def hic_consts
        split: option.splits if_splits)
next
  case migrate
  then show ?case
    by (auto simp: cap_connection_migrate_def Let_def upd_tracker_def sv_null_def
        split: option.splits if_splits)
next
  case (switch service_cap new_primary s r s')
  then have "sv_primary_cap (g_service_instances s idx) = 0 \<and> sv_standby_cap (g_service_instances s idx) = 0"
    if "instance_of service_cap s = Some idx" for idx
    using that by (auto simp: instance_of_def sv_null_def find_first_Some_iff)
  with switch show ?case
    by (auto simp: cap_service_switch_primary_def Let_def upd_instance_def sv_null_def
        split: option.splits if_splits)
next
  case caps
  then show ?case by (simp add: sv_null_def)
qed

lemma sv_reachable_null: "sv_reachable s \<Longrightarrow> sv_null s"
  by (induction rule: sv_reachable.induct) (auto simp: sv_null_def [symmetric] intro: sv_step_null, simp add: sv_null_def)

text \<open>
  No operation ever stores a capability as the primary or the standby of a service. In every
  history the switch to a new primary answers \<open>HIC_ERROR_NOT_FOUND\<close> for every valid service
  capability, and the state of an instance cannot be queried.
\<close>

lemma service_never_found:
  assumes "sv_reachable s" and "cap \<noteq> HIC_CAP_INVALID" and "cap < CAP_TABLE_SIZE" and "new_primary < CAP_TABLE_SIZE"
  shows "cap_service_switch_primary cap new_primary s = (Inl HIC_ERROR_NOT_FOUND, s) \<and>
    cap_get_service_instance_state cap True s = Inl HIC_ERROR_NOT_FOUND"
  using instance_of_null [OF sv_reachable_null [OF assms(1)] assms(2)] assms(3,4)
  by (simp add: cap_service_switch_primary_def cap_get_service_instance_state_def not_le)

lemma service_never_found_witness:
  "cap_service_switch_primary 1 2 sv_ex2 = (Inl HIC_ERROR_NOT_FOUND, sv_ex2)"
proof -
  have "sv_reachable sv_ex" by (rule sv_reachable.boot) (simp add: sv_ex_def)
  then have "sv_reachable (sv_ex\<lparr> sv_caps := snd (cap_revoke 1 ex_mem) \<rparr>)"
    by (rule sv_reachable.step) (rule sv_step.caps)
  then have "sv_reachable sv_ex2"
    unfolding sv_ex2_def by (rule sv_reachable.step) (rule sv_step.create [OF prod.collapse [symmetric]])
  then show ?thesis using service_never_found [of sv_ex2 1 2] by (simp add: hic_consts)
qed

end
