(* ===== verification/Hic_Cnode.thy ===== *)
theory Hic_Cnode
  imports Hic_Cap_Invariant
begin

text \<open>
  The tree-structured capability spaces, the last part of \<^verbatim>\<open>Core-0/capability.c\<close>: CNodes taken from
  a static pool, the slots in them, capability pointers (CPtr) resolved along a path of CNodes,
  the capability space of each domain, revocation of subtrees and the lookup cache.

  A CNode is reached through the address kept in its table entry. The pool occupies 256 blocks of
  8192 bytes from \<open>pool_addr\<close>; an address of a block denotes the CNode in it, and dereferencing any
  other address raises \<open>xs_fault\<close>, after which a state describes nothing. Time stamps are
  arguments.
\<close>

section \<open>State\<close>

definition CNODE_POOL_SIZE :: nat where [hic_consts]: "CNODE_POOL_SIZE = 256"
definition CNODE_BLOCK_SIZE :: nat where [hic_consts]: "CNODE_BLOCK_SIZE = 8192"
definition CNODE_MAX_DEPTH :: nat where [hic_consts]: "CNODE_MAX_DEPTH = 16"
definition CAP_CACHE_SIZE :: nat where [hic_consts]: "CAP_CACHE_SIZE = 64"
definition sizeof_cnode :: nat where [hic_consts]: "sizeof_cnode = 24"
definition sizeof_cnode_slot :: nat where [hic_consts]: "sizeof_cnode_slot = 16"

definition CNODE_SLOT_EMPTY :: u8 where [hic_consts]: "CNODE_SLOT_EMPTY = 0"
definition CNODE_SLOT_VALID :: u8 where [hic_consts]: "CNODE_SLOT_VALID = 1"
definition CNODE_SLOT_CNODE :: u8 where [hic_consts]: "CNODE_SLOT_CNODE = 2"
definition CNODE_FLAG_ROOT :: u8 where [hic_consts]: "CNODE_FLAG_ROOT = 1"
definition CSPACE_FLAG_ACTIVE :: u8 where [hic_consts]: "CSPACE_FLAG_ACTIVE = 1"
definition CAP_CNODE :: u32 where [hic_consts]: "CAP_CNODE = 0x1000000"
definition CPTR_INVALID :: u64 where [hic_consts]: "CPTR_INVALID = 0"

record cnode_slot =
  sl_cap_id :: u32
  sl_rights_mask :: u32
  sl_guard :: u32
  sl_flags :: u8

record cnode =
  cn_self_cap :: u32
  cn_owner :: u32
  cn_slot_count :: u16
  cn_slot_bits :: u8
  cn_depth :: u8
  cn_guard :: u32
  cn_guard_bits :: u8
  cn_flags :: u8
  cn_slots :: "nat \<Rightarrow> cnode_slot"

record cnode_pool_entry =
  pe_cnode :: u64
  pe_in_use :: bool

record cspace =
  sp_root_cnode :: u32
  sp_owner :: u32
  sp_total_caps :: u32
  sp_max_depth :: u32
  sp_flags :: u8

record cap_cache_entry =
  cc_cptr :: u64
  cc_cap_id :: u32
  cc_rights :: u32
  cc_domain :: u32
  cc_timestamp :: u64
  cc_valid :: bool

record cspace_state =
  xs_caps :: cap_state
  g_cnode_pool :: "nat \<Rightarrow> cnode_pool_entry"
  pool_addr :: u64
  cnode_mem :: "nat \<Rightarrow> cnode"
  g_domain_cspaces :: "nat \<Rightarrow> cspace"
  g_cap_cache :: "nat \<Rightarrow> cap_cache_entry"
  xs_fault :: bool

abbreviation xcap :: "cspace_state \<Rightarrow> u32 \<Rightarrow> cap_entry" where
  "xcap s c \<equiv> cap_at (xs_caps s) c"

definition upd_xcaps :: "(cap_state \<Rightarrow> cap_state) \<Rightarrow> cspace_state \<Rightarrow> cspace_state" where
  "upd_xcaps f s = s\<lparr> xs_caps := f (xs_caps s) \<rparr>"

definition upd_cnode :: "nat \<Rightarrow> (cnode \<Rightarrow> cnode) \<Rightarrow> cspace_state \<Rightarrow> cspace_state" where
  "upd_cnode b f s = s\<lparr> cnode_mem := (cnode_mem s)(b := f (cnode_mem s b)) \<rparr>"

definition upd_slot :: "nat \<Rightarrow> nat \<Rightarrow> (cnode_slot \<Rightarrow> cnode_slot) \<Rightarrow> cspace_state \<Rightarrow> cspace_state" where
  "upd_slot b i f = upd_cnode b (\<lambda>n. n\<lparr> cn_slots := (cn_slots n)(i := f (cn_slots n i)) \<rparr>)"

abbreviation slot_at :: "cspace_state \<Rightarrow> nat \<Rightarrow> nat \<Rightarrow> cnode_slot" where
  "slot_at s b i \<equiv> cn_slots (cnode_mem s b) i"

definition block_addr :: "cspace_state \<Rightarrow> nat \<Rightarrow> u64" where
  "block_addr s b = pool_addr s + of_nat (b * CNODE_BLOCK_SIZE)"

definition block_of :: "u64 \<Rightarrow> cspace_state \<Rightarrow> nat option" where
  "block_of a s =
     (let d = unat (a - pool_addr s)
      in if d mod CNODE_BLOCK_SIZE = 0 \<and> d div CNODE_BLOCK_SIZE < CNODE_POOL_SIZE
         then Some (d div CNODE_BLOCK_SIZE) else None)"

definition cap_is_cnode :: "u32 \<Rightarrow> bool" where
  "cap_is_cnode rights \<longleftrightarrow> rights AND CAP_CNODE \<noteq> 0"

definition slot_valid :: "cnode_slot \<Rightarrow> bool" where
  "slot_valid sl \<longleftrightarrow> sl_flags sl AND CNODE_SLOT_VALID \<noteq> 0"

definition slot_is_cnode :: "cnode_slot \<Rightarrow> bool" where
  "slot_is_cnode sl \<longleftrightarrow> sl_flags sl AND CNODE_SLOT_CNODE \<noteq> 0"

definition fault :: "cspace_state \<Rightarrow> cspace_state" where
  "fault s = s\<lparr> xs_fault := True \<rparr>"

section \<open>Capability pointers\<close>

definition cptr_get_guard :: "u64 \<Rightarrow> u32" where
  "cptr_get_guard cptr = ucast (drop_bit 32 cptr AND 0xFFFF)"

definition cptr_set_guard :: "u64 \<Rightarrow> u32 \<Rightarrow> u64" where
  "cptr_set_guard cptr grd = (cptr AND NOT (push_bit 32 0xFFFF)) OR push_bit 32 (ucast grd)"

definition cptr_extract_index :: "u64 \<Rightarrow> u8 \<Rightarrow> u8 \<Rightarrow> u32" where
  "cptr_extract_index cptr slot_bits level =
     (let shift = level * slot_bits; msk = (push_bit (unat slot_bits) 1 :: u32) - 1
      in ucast (drop_bit (unat shift) cptr AND ucast msk))"

section \<open>The CNode pool\<close>

function cnode_calc_slot_bits_loop :: "u32 \<Rightarrow> nat \<Rightarrow> nat" where
  "cnode_calc_slot_bits_loop slot_count bits =
     (if (push_bit bits 1 :: u32) < slot_count \<and> bits < 16
      then cnode_calc_slot_bits_loop slot_count (Suc bits) else bits)"
  by auto
termination by (relation "measure (\<lambda>(_, bits). 16 - bits)") auto

declare cnode_calc_slot_bits_loop.simps [simp del]

definition cnode_calc_slot_bits :: "u32 \<Rightarrow> nat" where
  "cnode_calc_slot_bits slot_count = cnode_calc_slot_bits_loop slot_count 0"

definition zero_slot :: cnode_slot where
  "zero_slot = \<lparr> sl_cap_id = 0, sl_rights_mask = 0, sl_guard = 0, sl_flags = 0 \<rparr>"

definition zeroed_cnode :: "nat \<Rightarrow> cnode \<Rightarrow> cnode" where
  "zeroed_cnode slot_count n =
     \<lparr> cn_self_cap = 0, cn_owner = 0, cn_slot_count = 0, cn_slot_bits = 0, cn_depth = 0, cn_guard = 0,
       cn_guard_bits = 0, cn_flags = 0,
       cn_slots = (\<lambda>i. if i < slot_count then zero_slot else cn_slots n i) \<rparr>"

definition cnode_alloc :: "u16 \<Rightarrow> cspace_state \<Rightarrow> nat option \<times> cspace_state" where
  "cnode_alloc slot_count s =
     (let sz = sizeof_cnode + unat slot_count * sizeof_cnode_slot
      in case find_first (\<lambda>i. \<not> pe_in_use (g_cnode_pool s i) \<and> sz \<le> CNODE_BLOCK_SIZE) 0 CNODE_POOL_SIZE of
           None \<Rightarrow> (None, s)
         | Some b \<Rightarrow>
             (Some b,
              upd_cnode b (zeroed_cnode (unat slot_count))
                (s\<lparr> g_cnode_pool := (g_cnode_pool s)(b := \<lparr> pe_cnode = block_addr s b, pe_in_use = True \<rparr>) \<rparr>)))"

definition cnode_free :: "u64 \<Rightarrow> cspace_state \<Rightarrow> cspace_state" where
  "cnode_free p s =
     (case find_first (\<lambda>i. pe_cnode (g_cnode_pool s i) = p) 0 CNODE_POOL_SIZE of
        None \<Rightarrow> s
      | Some b \<Rightarrow> s\<lparr> g_cnode_pool := (g_cnode_pool s)(b := \<lparr> pe_cnode = 0, pe_in_use = False \<rparr>) \<rparr>)"

section \<open>CNode operations\<close>

definition cnode_create :: "u32 \<Rightarrow> u8 \<Rightarrow> bool \<Rightarrow> cspace_state \<Rightarrow> u32 hic_result \<times> cspace_state" where
  "cnode_create owner slot_bits out_ok s =
     (if owner \<ge> HIC_DOMAIN_MAX \<or> slot_bits > 12 \<or> \<not> out_ok then (Inl HIC_ERROR_INVALID_PARAM, s)
      else let slot_count = push_bit (unat slot_bits) 1
      in case cnode_alloc slot_count s of
           (None, s1) \<Rightarrow> (Inl HIC_ERROR_NO_MEMORY, s1)
         | (Some b, s1) \<Rightarrow>
             let cap = first_free_slot (g_global_cap_table (xs_caps s1))
             in if cap = HIC_CAP_INVALID then (Inl HIC_ERROR_NO_RESOURCE, cnode_free (block_addr s1 b) s1)
                else
             let s2 = upd_cnode b (\<lambda>n. n\<lparr> cn_self_cap := cap, cn_owner := owner, cn_slot_count := slot_count,
                        cn_slot_bits := slot_bits, cn_depth := 0, cn_guard := 0, cn_guard_bits := 0,
                        cn_flags := 0 \<rparr>) s1;
                 s3 = upd_xcaps (upd_cap cap (\<lambda>e. e\<lparr> ce_id := cap, ce_rights := CAP_CNODE, ce_owner := owner,
                        ce_flags := 0, ce_word0 := block_addr s2 b,
                        ce_word1 := of_nat (sizeof_cnode + unat slot_count * sizeof_cnode_slot) \<rparr>)) s2;
                 s4 = upd_cnode b (\<lambda>n. n\<lparr> cn_slots := (\<lambda>i. if i < unat slot_count
                        then \<lparr> sl_cap_id = HIC_CAP_INVALID, sl_rights_mask = 0, sl_guard = 0,
                               sl_flags = CNODE_SLOT_EMPTY \<rparr>
                        else cn_slots n i) \<rparr>) s3
             in (Inr cap, s4))"

text \<open>
  What the operations on a CNode do first: reject identifiers beyond the table, entries that
  lack the CNode bit and null addresses, and dereference the address. The first error code is
  that of an entry that is no CNode, the second that of a null address.
\<close>

definition open_cnode :: "u32 \<Rightarrow> hic_status \<Rightarrow> cspace_state \<Rightarrow> nat option hic_result" where
  "open_cnode cnode_cap null_err s =
     (if \<not> cap_is_cnode (ce_rights (xcap s cnode_cap)) then Inl HIC_ERROR_CAP_INVALID
      else if ce_word0 (xcap s cnode_cap) = 0 then Inl null_err
      else Inr (block_of (ce_word0 (xcap s cnode_cap)) s))"

definition clear_slot :: "cnode_slot \<Rightarrow> cnode_slot" where
  "clear_slot sl = sl\<lparr> sl_cap_id := HIC_CAP_INVALID, sl_rights_mask := 0, sl_flags := CNODE_SLOT_EMPTY \<rparr>"

definition cnode_insert ::
    "u32 \<Rightarrow> u32 \<Rightarrow> u32 \<Rightarrow> u32 \<Rightarrow> cspace_state \<Rightarrow> unit hic_result \<times> cspace_state" where
  "cnode_insert cnode_cap index cap_id rights_mask s =
     (if cnode_cap \<ge> CAP_TABLE_SIZE \<or> cap_id \<ge> CAP_TABLE_SIZE then (Inl HIC_ERROR_INVALID_PARAM, s)
      else case open_cnode cnode_cap HIC_ERROR_CAP_INVALID s of
        Inl e \<Rightarrow> (Inl e, s)
      | Inr None \<Rightarrow> (Inl HIC_ERROR_GENERIC, fault s)
      | Inr (Some b) \<Rightarrow>
          if unat index \<ge> unat (cn_slot_count (cnode_mem s b)) then (Inl HIC_ERROR_INVALID_PARAM, s)
          else if ce_id (xcap s cap_id) \<noteq> cap_id then (Inl HIC_ERROR_CAP_INVALID, s)
          else if rights_mask AND ce_rights (xcap s cap_id) \<noteq> rights_mask then (Inl HIC_ERROR_PERMISSION, s)
          else
          let s1 = upd_slot b (unat index) (\<lambda>sl. sl\<lparr> sl_cap_id := cap_id, sl_rights_mask := rights_mask,
                     sl_flags := CNODE_SLOT_VALID \<rparr>) s;
              s2 = (if cap_is_cnode (ce_rights (xcap s1 cap_id)) \<and> ce_word0 (xcap s1 cap_id) \<noteq> 0 then
                      (case block_of (ce_word0 (xcap s1 cap_id)) s1 of
                         None \<Rightarrow> fault s1
                       | Some child \<Rightarrow>
                           upd_slot b (unat index) (\<lambda>sl. sl\<lparr> sl_flags := sl_flags sl OR CNODE_SLOT_CNODE \<rparr>)
                             (upd_cnode child (\<lambda>n. n\<lparr> cn_depth := cn_depth (cnode_mem s1 b) + 1 \<rparr>) s1))
                    else s1)
          in (Inr (), upd_xcaps (upd_deriv cap_id (\<lambda>d. d\<lparr> dv_child_count := dv_child_count d + 1 \<rparr>)) s2))"

definition cnode_remove :: "u32 \<Rightarrow> u32 \<Rightarrow> cspace_state \<Rightarrow> unit hic_result \<times> cspace_state" where
  "cnode_remove cnode_cap index s =
     (if cnode_cap \<ge> CAP_TABLE_SIZE then (Inl HIC_ERROR_INVALID_PARAM, s)
      else case open_cnode cnode_cap HIC_ERROR_INVALID_PARAM s of
        Inl e \<Rightarrow> (Inl e, s)
      | Inr None \<Rightarrow> (Inl HIC_ERROR_GENERIC, fault s)
      | Inr (Some b) \<Rightarrow>
          if unat index \<ge> unat (cn_slot_count (cnode_mem s b)) then (Inl HIC_ERROR_INVALID_PARAM, s)
          else (Inr (), upd_slot b (unat index) clear_slot s))"

text \<open>The common guards of \<open>cnode_move\<close> and \<open>cnode_copy\<close>: both CNodes, then both indices.\<close>

definition open_two ::
    "u32 \<Rightarrow> u32 \<Rightarrow> u32 \<Rightarrow> u32 \<Rightarrow> cspace_state \<Rightarrow> (nat \<times> nat) option hic_result" where
  "open_two src_cnode src_index dst_cnode dst_index s =
     (if src_cnode \<ge> CAP_TABLE_SIZE \<or> dst_cnode \<ge> CAP_TABLE_SIZE then Inl HIC_ERROR_INVALID_PARAM
      else if \<not> cap_is_cnode (ce_rights (xcap s src_cnode)) \<or> \<not> cap_is_cnode (ce_rights (xcap s dst_cnode))
      then Inl HIC_ERROR_CAP_INVALID
      else if ce_word0 (xcap s src_cnode) = 0 \<or> ce_word0 (xcap s dst_cnode) = 0
      then Inl HIC_ERROR_INVALID_PARAM
      else case block_of (ce_word0 (xcap s src_cnode)) s of
        None \<Rightarrow> Inr None
      | Some b \<Rightarrow>
          if unat src_index \<ge> unat (cn_slot_count (cnode_mem s b)) then Inl HIC_ERROR_INVALID_PARAM
          else case block_of (ce_word0 (xcap s dst_cnode)) s of
            None \<Rightarrow> Inr None
          | Some d \<Rightarrow>
              if unat dst_index \<ge> unat (cn_slot_count (cnode_mem s d)) then Inl HIC_ERROR_INVALID_PARAM
              else Inr (Some (b, d)))"

definition cnode_move ::
    "u32 \<Rightarrow> u32 \<Rightarrow> u32 \<Rightarrow> u32 \<Rightarrow> cspace_state \<Rightarrow> unit hic_result \<times> cspace_state" where
  "cnode_move src_cnode src_index dst_cnode dst_index s =
     (case open_two src_cnode src_index dst_cnode dst_index s of
        Inl e \<Rightarrow> (Inl e, s)
      | Inr None \<Rightarrow> (Inl HIC_ERROR_GENERIC, fault s)
      | Inr (Some (b, d)) \<Rightarrow>
          (Inr (),
           upd_slot b (unat src_index) (\<lambda>sl. sl\<lparr> sl_cap_id := HIC_CAP_INVALID, sl_flags := CNODE_SLOT_EMPTY \<rparr>)
             (upd_slot d (unat dst_index) (\<lambda>_. slot_at s b (unat src_index)) s)))"

definition cnode_copy ::
    "u32 \<Rightarrow> u32 \<Rightarrow> u32 \<Rightarrow> u32 \<Rightarrow> u32 \<Rightarrow> cspace_state \<Rightarrow> unit hic_result \<times> cspace_state" where
  "cnode_copy src_cnode src_index dst_cnode dst_index rights_mask s =
     (case open_two src_cnode src_index dst_cnode dst_index s of
        Inl e \<Rightarrow> (Inl e, s)
      | Inr None \<Rightarrow> (Inl HIC_ERROR_GENERIC, fault s)
      | Inr (Some (b, d)) \<Rightarrow>
          let src = slot_at s b (unat src_index)
          in if \<not> slot_valid src then (Inl HIC_ERROR_CAP_INVALID, s)
             else if rights_mask AND sl_rights_mask src \<noteq> rights_mask then (Inl HIC_ERROR_PERMISSION, s)
             else (Inr (), upd_slot d (unat dst_index) (\<lambda>sl. sl\<lparr> sl_cap_id := sl_cap_id src,
                     sl_rights_mask := rights_mask, sl_flags := sl_flags src \<rparr>) s))"

section \<open>Revocation of slots and subtrees\<close>

text \<open>
  The recursion stops below depth 16, so \<open>cnode_revoke_r\<close> recurses on the levels left. The loop
  over the slots reads each slot when it gets there; neither it nor its callees change the
  number of slots. \<open>f\<close> stands for the recursive call.
\<close>

definition revoke_slot_step :: "(u32 \<Rightarrow> cspace_state \<Rightarrow> cspace_state) \<Rightarrow> nat \<Rightarrow> nat \<Rightarrow> cspace_state \<Rightarrow> cspace_state" where
  "revoke_slot_step f b i s =
     (let sl = slot_at s b i
      in if \<not> slot_valid sl then s
         else let s1 = (if slot_is_cnode sl then f (sl_cap_id sl) s
                        else upd_xcaps (\<lambda>t. snd (cap_revoke (sl_cap_id sl) t)) s)
         in upd_slot b i (\<lambda>sl. sl\<lparr> sl_cap_id := HIC_CAP_INVALID, sl_flags := CNODE_SLOT_EMPTY \<rparr>) s1)"

primrec cnode_revoke_r :: "nat \<Rightarrow> u32 \<Rightarrow> cspace_state \<Rightarrow> cspace_state" where
  "cnode_revoke_r 0 cnode_cap s = s"
| "cnode_revoke_r (Suc levels) cnode_cap s =
     (if cnode_cap \<ge> CAP_TABLE_SIZE then s
      else case open_cnode cnode_cap HIC_ERROR_CAP_INVALID s of
        Inl _ \<Rightarrow> s
      | Inr None \<Rightarrow> fault s
      | Inr (Some b) \<Rightarrow>
          for_range (revoke_slot_step (cnode_revoke_r levels) b) 0 (unat (cn_slot_count (cnode_mem s b))) s)"

definition cnode_revoke_subtree_impl :: "u32 \<Rightarrow> nat \<Rightarrow> cspace_state \<Rightarrow> cspace_state" where
  "cnode_revoke_subtree_impl cnode_cap depth = cnode_revoke_r (Suc CNODE_MAX_DEPTH - depth) cnode_cap"

definition cnode_revoke_subtree :: "u32 \<Rightarrow> cspace_state \<Rightarrow> unit hic_result \<times> cspace_state" where
  "cnode_revoke_subtree cnode_cap s =
     (if cnode_cap \<ge> CAP_TABLE_SIZE then (Inl HIC_ERROR_INVALID_PARAM, s)
      else (Inr (), cnode_revoke_subtree_impl cnode_cap 0 s))"

definition cnode_revoke_slot :: "u32 \<Rightarrow> u32 \<Rightarrow> cspace_state \<Rightarrow> unit hic_result \<times> cspace_state" where
  "cnode_revoke_slot cnode_cap index s =
     (if cnode_cap \<ge> CAP_TABLE_SIZE then (Inl HIC_ERROR_INVALID_PARAM, s)
      else case open_cnode cnode_cap HIC_ERROR_INVALID_PARAM s of
        Inl e \<Rightarrow> (Inl e, s)
      | Inr None \<Rightarrow> (Inl HIC_ERROR_GENERIC, fault s)
      | Inr (Some b) \<Rightarrow>
          if unat index \<ge> unat (cn_slot_count (cnode_mem s b)) then (Inl HIC_ERROR_INVALID_PARAM, s)
          else let sl = slot_at s b (unat index)
          in if \<not> slot_valid sl then (Inr (), s)
             else let s1 = (if slot_is_cnode sl then snd (cnode_revoke_subtree (sl_cap_id sl) s)
                            else upd_xcaps (\<lambda>t. snd (cap_revoke (sl_cap_id sl) t)) s)
             in (Inr (), upd_slot b (unat index) clear_slot s1))"

definition cnode_destroy :: "u32 \<Rightarrow> cspace_state \<Rightarrow> unit hic_result \<times> cspace_state" where
  "cnode_destroy cnode_cap s =
     (if cnode_cap \<ge> CAP_TABLE_SIZE then (Inl HIC_ERROR_INVALID_PARAM, s)
      else if \<not> cap_is_cnode (ce_rights (xcap s cnode_cap)) then (Inl HIC_ERROR_CAP_INVALID, s)
      else let p = ce_word0 (xcap s cnode_cap)
      in if p = 0 then (Inl HIC_ERROR_CAP_INVALID, s)
         else let s1 = snd (cnode_revoke_subtree cnode_cap s);
                  s2 = cnode_free p s1
         in (Inr (), upd_xcaps (upd_cap cnode_cap (\<lambda>e. e\<lparr> ce_id := 0, ce_rights := 0, ce_flags := 0 \<rparr>)) s2))"

section \<open>The lookup cache\<close>

definition cache_hit :: "u32 \<Rightarrow> u64 \<Rightarrow> cspace_state \<Rightarrow> nat option" where
  "cache_hit domain cptr s =
     find_first (\<lambda>i. cc_valid (g_cap_cache s i) \<and> cc_domain (g_cap_cache s i) = domain \<and>
                     cc_cptr (g_cap_cache s i) = cptr) 0 CAP_CACHE_SIZE"

definition cap_cache_lookup :: "u32 \<Rightarrow> u64 \<Rightarrow> u64 \<Rightarrow> cspace_state \<Rightarrow> (u32 \<times> u32) option \<times> cspace_state" where
  "cap_cache_lookup domain cptr ts s =
     (case cache_hit domain cptr s of
        None \<Rightarrow> (None, s)
      | Some i \<Rightarrow>
          (Some (cc_cap_id (g_cap_cache s i), cc_rights (g_cap_cache s i)),
           s\<lparr> g_cap_cache := (g_cap_cache s)(i := (g_cap_cache s i)\<lparr> cc_timestamp := ts \<rparr>) \<rparr>))"

text \<open>The loop that looks for an invalid entry, or else the oldest one.\<close>

primrec cache_victim :: "(nat \<Rightarrow> cap_cache_entry) \<Rightarrow> nat \<Rightarrow> nat \<Rightarrow> nat \<Rightarrow> u64 \<Rightarrow> nat" where
  "cache_victim c 0 i oldest_idx oldest_ts = oldest_idx"
| "cache_victim c (Suc n) i oldest_idx oldest_ts =
     (if \<not> cc_valid (c i) then i
      else if cc_timestamp (c i) < oldest_ts then cache_victim c n (Suc i) i (cc_timestamp (c i))
      else cache_victim c n (Suc i) oldest_idx oldest_ts)"

definition cap_cache_update :: "u32 \<Rightarrow> u64 \<Rightarrow> u32 \<Rightarrow> u32 \<Rightarrow> u64 \<Rightarrow> cspace_state \<Rightarrow> cspace_state" where
  "cap_cache_update domain cptr cap_id rights ts s =
     (let i = cache_victim (g_cap_cache s) CAP_CACHE_SIZE 0 0 (cc_timestamp (g_cap_cache s 0))
      in s\<lparr> g_cap_cache := (g_cap_cache s)(i := \<lparr> cc_cptr = cptr, cc_cap_id = cap_id, cc_rights = rights,
             cc_domain = domain, cc_timestamp = ts, cc_valid = True \<rparr>) \<rparr>)"

definition cap_cache_invalidate :: "u32 \<Rightarrow> u64 \<Rightarrow> cspace_state \<Rightarrow> cspace_state" where
  "cap_cache_invalidate domain cptr s =
     s\<lparr> g_cap_cache := (\<lambda>i. let e = g_cap_cache s i
          in if i < CAP_CACHE_SIZE \<and> cc_valid e \<and> \<not> (domain \<noteq> HIC_DOMAIN_MAX \<and> cc_domain e \<noteq> domain) \<and>
                \<not> (cptr \<noteq> CPTR_INVALID \<and> cc_cptr e \<noteq> cptr)
             then e\<lparr> cc_valid := False \<rparr> else e) \<rparr>"

section \<open>Resolving capability pointers\<close>

text \<open>
  The walk of \<open>cptr_lookup\<close>: \<open>n\<close> levels are left below the limit. It ends in an error or in a leaf,
  with the identifier found, the rest of the pointer and the rights mask accumulated on the
  way; \<open>None\<close> is a wild dereference.
\<close>

primrec cptr_walk :: "nat \<Rightarrow> u32 \<Rightarrow> u64 \<Rightarrow> u32 \<Rightarrow> cspace_state \<Rightarrow> (u32 \<times> u64 \<times> u32) hic_result option" where
  "cptr_walk 0 current_cap cptr acc s = Some (Inl HIC_ERROR_INVALID_PARAM)"
| "cptr_walk (Suc n) current_cap cptr acc s =
     (if current_cap \<ge> CAP_TABLE_SIZE then Some (Inl HIC_ERROR_CAP_INVALID)
      else case open_cnode current_cap HIC_ERROR_CAP_INVALID s of
        Inl e \<Rightarrow> Some (Inl e)
      | Inr None \<Rightarrow> None
      | Inr (Some b) \<Rightarrow>
          let cn = cnode_mem s b; gb = unat (cn_guard_bits cn)
          in if gb > 0 \<and> (ucast (cptr AND (push_bit gb 1 - 1)) :: u32) \<noteq> cn_guard cn
             then Some (Inl HIC_ERROR_CAP_INVALID)
             else
          let cptr = drop_bit gb cptr;
              index = cptr_extract_index cptr (cn_slot_bits cn) 0;
              cptr = drop_bit (unat (cn_slot_bits cn)) cptr
          in if unat index \<ge> unat (cn_slot_count cn) then Some (Inl HIC_ERROR_INVALID_PARAM)
             else let sl = cn_slots cn (unat index)
             in if \<not> slot_valid sl then Some (Inl HIC_ERROR_CAP_INVALID)
                else let acc = acc AND sl_rights_mask sl
                in if \<not> slot_is_cnode sl then Some (Inr (sl_cap_id sl, cptr, acc))
                   else cptr_walk n (sl_cap_id sl) cptr acc s)"

text \<open>
  \<open>csp\<close> is \<open>None\<close> for the null pointer; \<open>want_rights\<close> says that \<open>out_rights\<close> is not null. The second
  output is not written when it is.
\<close>

definition cptr_lookup ::
    "cspace option \<Rightarrow> u64 \<Rightarrow> bool \<Rightarrow> bool \<Rightarrow> u64 \<Rightarrow> cspace_state \<Rightarrow> (u32 \<times> u32 option) hic_result \<times> cspace_state"
  where
  "cptr_lookup csp cptr out_ok want_rights ts s =
     (case csp of
        None \<Rightarrow> (Inl HIC_ERROR_INVALID_PARAM, s)
      | Some cs \<Rightarrow>
          if \<not> out_ok then (Inl HIC_ERROR_INVALID_PARAM, s)
          else case cap_cache_lookup (sp_owner cs) cptr ts s of
            (Some (c, r), s1) \<Rightarrow> (Inr (c, if want_rights then Some r else None), s1)
          | (None, s1) \<Rightarrow>
              (case cptr_walk CNODE_MAX_DEPTH (sp_root_cnode cs) cptr 0xFFFFFFFF s1 of
                 None \<Rightarrow> (Inl HIC_ERROR_GENERIC, fault s1)
               | Some (Inl e) \<Rightarrow> (Inl e, s1)
               | Some (Inr (c, rest, acc)) \<Rightarrow>
                   if want_rights then
                     if c \<ge> CAP_TABLE_SIZE then (Inl HIC_ERROR_GENERIC, fault s1)
                     else let r = ce_rights (xcap s1 c) AND acc
                     in (Inr (c, Some r), cap_cache_update (sp_owner cs) rest c r ts s1)
                   else (Inr (c, None), s1)))"

primrec cptr_resolve_walk :: "nat \<Rightarrow> u32 \<Rightarrow> u64 \<Rightarrow> cspace_state \<Rightarrow> (nat \<times> nat) hic_result option" where
  "cptr_resolve_walk 0 current_cap cptr s = Some (Inl HIC_ERROR_INVALID_PARAM)"
| "cptr_resolve_walk (Suc n) current_cap cptr s =
     (if current_cap \<ge> CAP_TABLE_SIZE then Some (Inl HIC_ERROR_CAP_INVALID)
      else case open_cnode current_cap HIC_ERROR_CAP_INVALID s of
        Inl e \<Rightarrow> Some (Inl e)
      | Inr None \<Rightarrow> None
      | Inr (Some b) \<Rightarrow>
          let cn = cnode_mem s b;
              cptr = drop_bit (unat (cn_guard_bits cn)) cptr;
              index = cptr_extract_index cptr (cn_slot_bits cn) 0;
              cptr = drop_bit (unat (cn_slot_bits cn)) cptr
          in if unat index \<ge> unat (cn_slot_count cn) then Some (Inl HIC_ERROR_INVALID_PARAM)
             else let sl = cn_slots cn (unat index)
             in if \<not> slot_valid sl then Some (Inl HIC_ERROR_CAP_INVALID)
                else if \<not> slot_is_cnode sl then Some (Inr (b, unat index))
                else cptr_resolve_walk n (sl_cap_id sl) cptr s)"

definition cptr_resolve :: "cspace option \<Rightarrow> u64 \<Rightarrow> bool \<Rightarrow> cspace_state \<Rightarrow> (nat \<times> nat) hic_result option" where
  "cptr_resolve csp cptr out_ok s =
     (case csp of
        None \<Rightarrow> Some (Inl HIC_ERROR_INVALID_PARAM)
      | Some cs \<Rightarrow>
          if \<not> out_ok then Some (Inl HIC_ERROR_INVALID_PARAM)
          else cptr_resolve_walk CNODE_MAX_DEPTH (sp_root_cnode cs) cptr s)"

section \<open>Capability spaces\<close>

definition cspace_init :: "u32 \<Rightarrow> u8 \<Rightarrow> cspace_state \<Rightarrow> unit hic_result \<times> cspace_state" where
  "cspace_init domain root_slot_bits s =
     (if domain \<ge> HIC_DOMAIN_MAX then (Inl HIC_ERROR_INVALID_PARAM, s)
      else case cnode_create domain root_slot_bits True s of
        (Inl e, s1) \<Rightarrow> (Inl e, s1)
      | (Inr root_cap, s1) \<Rightarrow>
          let p = ce_word0 (xcap s1 root_cap);
              s2 = (if p = 0 then s1
                    else case block_of p s1 of
                      None \<Rightarrow> fault s1
                    | Some b \<Rightarrow> upd_cnode b (\<lambda>n. n\<lparr> cn_flags := cn_flags n OR CNODE_FLAG_ROOT, cn_depth := 0 \<rparr>) s1)
          in (Inr (),
              s2\<lparr> g_domain_cspaces := (g_domain_cspaces s2)(unat domain :=
                   \<lparr> sp_root_cnode = root_cap, sp_owner = domain, sp_total_caps = 0, sp_max_depth = 0,
                     sp_flags = CSPACE_FLAG_ACTIVE \<rparr>) \<rparr>))"

definition cspace_destroy :: "u32 \<Rightarrow> cspace_state \<Rightarrow> unit hic_result \<times> cspace_state" where
  "cspace_destroy domain s =
     (if domain \<ge> HIC_DOMAIN_MAX then (Inl HIC_ERROR_INVALID_PARAM, s)
      else let root = sp_root_cnode (g_domain_cspaces s (unat domain))
      in if root = HIC_CAP_INVALID then (Inr (), s)
         else let s1 = snd (cnode_revoke_subtree root s);
                  s2 = snd (cnode_destroy root s1);
                  s3 = s2\<lparr> g_domain_cspaces := (g_domain_cspaces s2)(unat domain :=
                         (g_domain_cspaces s2 (unat domain))\<lparr> sp_root_cnode := HIC_CAP_INVALID, sp_flags := 0 \<rparr>) \<rparr>
         in (Inr (), cap_cache_invalidate domain CPTR_INVALID s3))"

definition cspace_get :: "u32 \<Rightarrow> cspace_state \<Rightarrow> cspace option" where
  "cspace_get domain s =
     (if domain \<ge> HIC_DOMAIN_MAX then None
      else if sp_flags (g_domain_cspaces s (unat domain)) AND CSPACE_FLAG_ACTIVE = 0 then None
      else Some (g_domain_cspaces s (unat domain)))"

definition cptr_to_handle :: "u32 \<Rightarrow> u64 \<Rightarrow> cspace_state \<Rightarrow> u64" where
  "cptr_to_handle domain cptr s = cap_make_handle (g_domain_keys (xs_caps s)) domain (ucast (cptr AND 0xFFFFFFFF))"

definition handle_to_cptr :: "u32 \<Rightarrow> u64 \<Rightarrow> bool \<Rightarrow> cspace_state \<Rightarrow> u64 hic_result" where
  "handle_to_cptr domain handle out_ok s =
     (if \<not> out_ok then Inl HIC_ERROR_INVALID_PARAM
      else if \<not> cap_validate_token (g_domain_keys (xs_caps s)) domain (cap_get_cap_id handle) (cap_get_token handle)
      then Inl HIC_ERROR_PERMISSION
      else Inr (ucast (cap_get_cap_id handle)))"

section \<open>Revocation only clears table entries\<close>

text \<open>This holds in every state, also where the child lists are out of shape.\<close>

definition tab_clears :: "(nat \<Rightarrow> cap_entry) \<Rightarrow> (nat \<Rightarrow> cap_entry) \<Rightarrow> bool" where
  "tab_clears t t' \<longleftrightarrow> (\<forall>i. t' i = t i \<or> t' i = cleared (t i))"

lemma tab_clears_refl [simp]: "tab_clears t t" by (simp add: tab_clears_def)

lemma tab_clears_trans:
  assumes "tab_clears t u" and "tab_clears u v"
  shows "tab_clears t v"
  unfolding tab_clears_def
proof
  fix i
  show "v i = t i \<or> v i = cleared (t i)"
    using assms [unfolded tab_clears_def, THEN spec [of _ i]] by auto
qed

lemma revoke_children_clears:
  assumes "\<And>c s. tab_clears (g_global_cap_table s) (g_global_cap_table (f c s))"
  shows "tab_clears (g_global_cap_table s) (g_global_cap_table (revoke_children f cap n i s))"
proof (induction n arbitrary: i s)
  case 0
  then show ?case by simp
next
  case (Suc n)
  then show ?case using tab_clears_trans assms by (auto simp: Let_def) blast+
qed

lemma revoke_body_clears:
  assumes f: "\<And>c s. tab_clears (g_global_cap_table s) (g_global_cap_table (f c s))"
  shows "tab_clears (g_global_cap_table s) (g_global_cap_table (revoke_body f c s))"
  unfolding tab_clears_def
proof
  fix i
  let ?s2 = "revoke_children f c MAX_DERIVATIVES_PER_CAP 0 (set_revoked c s)"
  have "g_global_cap_table ?s2 i = g_global_cap_table (set_revoked c s) i \<or>
      g_global_cap_table ?s2 i = cleared (g_global_cap_table (set_revoked c s) i)"
    using revoke_children_clears [OF f] by (auto simp: tab_clears_def)
  then show "g_global_cap_table (revoke_body f c s) i = g_global_cap_table s i \<or>
      g_global_cap_table (revoke_body f c s) i = cleared (g_global_cap_table s i)"
    by (cases "i = unat c") (auto simp: revoke_body_def Let_def clear_cap_table set_revoked_def cleared_def)
qed

lemma cap_revoke_r_clears:
  "tab_clears (g_global_cap_table s) (g_global_cap_table (cap_revoke_r levels c s))"
proof (induction levels arbitrary: c s)
  case 0
  then show ?case by simp
next
  case (Suc levels)
  then show ?case unfolding cap_revoke_r_Suc using revoke_body_clears by simp
qed

lemma cap_revoke_clears:
  "tab_clears (g_global_cap_table s) (g_global_cap_table (snd (cap_revoke c s)))"
  by (simp add: cap_revoke_def cap_revoke_recursive_impl_def cap_revoke_r_clears)

section \<open>Blocks and addresses\<close>

lemma upd_cnode_sel [simp]:
  "cnode_mem (upd_cnode b f s) k = (if k = b then f (cnode_mem s b) else cnode_mem s k)"
  "xs_caps (upd_cnode b f s) = xs_caps s" "g_cnode_pool (upd_cnode b f s) = g_cnode_pool s"
  "pool_addr (upd_cnode b f s) = pool_addr s" "g_domain_cspaces (upd_cnode b f s) = g_domain_cspaces s"
  "g_cap_cache (upd_cnode b f s) = g_cap_cache s" "xs_fault (upd_cnode b f s) = xs_fault s"
  by (simp_all add: upd_cnode_def)

lemma upd_slot_sel [simp]:
  "cnode_mem (upd_slot b i g s) k =
     (if k = b then (cnode_mem s b)\<lparr> cn_slots := (cn_slots (cnode_mem s b))(i := g (slot_at s b i)) \<rparr>
      else cnode_mem s k)"
  "xs_caps (upd_slot b i g s) = xs_caps s" "g_cnode_pool (upd_slot b i g s) = g_cnode_pool s"
  "pool_addr (upd_slot b i g s) = pool_addr s" "g_domain_cspaces (upd_slot b i g s) = g_domain_cspaces s"
  "g_cap_cache (upd_slot b i g s) = g_cap_cache s" "xs_fault (upd_slot b i g s) = xs_fault s"
  by (simp_all add: upd_slot_def)

lemma upd_xcaps_sel [simp]:
  "cnode_mem (upd_xcaps h s) = cnode_mem s"
  "xs_caps (upd_xcaps h s) = h (xs_caps s)" "g_cnode_pool (upd_xcaps h s) = g_cnode_pool s"
  "pool_addr (upd_xcaps h s) = pool_addr s" "g_domain_cspaces (upd_xcaps h s) = g_domain_cspaces s"
  "g_cap_cache (upd_xcaps h s) = g_cap_cache s" "xs_fault (upd_xcaps h s) = xs_fault s"
  by (simp_all add: upd_xcaps_def)

definition pool_placed :: "cspace_state \<Rightarrow> bool" where
  "pool_placed s \<longleftrightarrow> 0 < unat (pool_addr s) \<and> unat (pool_addr s) + 2097152 \<le> 18446744073709551616"

lemma unat_block_addr:
  assumes "pool_placed s" and "b < 256"
  shows "unat (block_addr s b) = unat (pool_addr s) + b * 8192"
  using assms by (simp add: pool_placed_def block_addr_def unat_word_ariths unat_of_nat hic_consts)

lemma block_addr_neq_0: "pool_placed s \<Longrightarrow> b < 256 \<Longrightarrow> block_addr s b \<noteq> 0"
  using unat_block_addr [of s b] by (auto simp: pool_placed_def)

lemma block_addr_inj: "pool_placed s \<Longrightarrow> b < 256 \<Longrightarrow> k < 256 \<Longrightarrow> block_addr s b = block_addr s k \<longleftrightarrow> b = k"
  by (simp add: word_unat_eq_iff unat_block_addr)

lemma block_of_addr:
  assumes "pool_placed s" and "b < 256"
  shows "block_of (block_addr s b) s = Some b"
proof -
  have "unat (block_addr s b - pool_addr s) = b * 8192"
    using assms(2) by (simp add: block_addr_def unat_of_nat hic_consts del: of_nat_mult)
  then show ?thesis using assms(2) by (simp add: block_of_def Let_def hic_consts)
qed

lemma block_addr_cong: "pool_addr s' = pool_addr s \<Longrightarrow> block_addr s' b = block_addr s b"
  by (simp add: block_addr_def)

lemma block_of_cong: "pool_addr s' = pool_addr s \<Longrightarrow> block_of a s' = block_of a s"
  by (simp add: block_of_def)

section \<open>The invariant of the capability spaces\<close>

text \<open>
  A pool entry in use points to its own block and a free one is null. Every table entry with the
  CNode bit points to a block in use that names it as its owner; the slots of a block in use fit
  into it, and the capability identifiers in its valid slots lie in the table. No access has left
  the pool.
\<close>

definition cnode_backed :: "cspace_state \<Rightarrow> nat \<Rightarrow> bool" where
  "cnode_backed s c \<longleftrightarrow>
     (cap_is_cnode (ce_rights (g_global_cap_table (xs_caps s) c)) \<longrightarrow>
        (\<exists>b<256. pe_in_use (g_cnode_pool s b) \<and>
           ce_word0 (g_global_cap_table (xs_caps s) c) = block_addr s b \<and>
           cn_self_cap (cnode_mem s b) = of_nat c))"

definition block_ok :: "cspace_state \<Rightarrow> nat \<Rightarrow> bool" where
  "block_ok s b \<longleftrightarrow>
     pe_cnode (g_cnode_pool s b) = (if pe_in_use (g_cnode_pool s b) then block_addr s b else 0) \<and>
     (pe_in_use (g_cnode_pool s b) \<longrightarrow>
        24 + unat (cn_slot_count (cnode_mem s b)) * 16 \<le> 8192 \<and>
        (\<forall>i<unat (cn_slot_count (cnode_mem s b)). slot_valid (slot_at s b i) \<longrightarrow>
           unat (sl_cap_id (slot_at s b i)) < 2048))"

definition cn_inv :: "cspace_state \<Rightarrow> bool" where
  "cn_inv s \<longleftrightarrow> pool_placed s \<and> \<not> xs_fault s \<and> (\<forall>b<256. block_ok s b) \<and> (\<forall>c<2048. cnode_backed s c)"

lemma cn_invD:
  assumes "cn_inv s"
  shows "pool_placed s" and "\<not> xs_fault s" and "\<And>b. b < 256 \<Longrightarrow> block_ok s b"
    and "\<And>c. c < 2048 \<Longrightarrow> cnode_backed s c"
  using assms by (auto simp: cn_inv_def)

lemma open_cnode_ok:
  assumes inv: "cn_inv s" and c: "unat c < 2048" and op: "open_cnode c e s = Inr r"
  obtains b where "r = Some b" "b < 256" "pe_in_use (g_cnode_pool s b)"
    "ce_word0 (xcap s c) = block_addr s b" "cn_self_cap (cnode_mem s b) = c" "cap_is_cnode (ce_rights (xcap s c))"
proof -
  have cn: "cap_is_cnode (ce_rights (xcap s c))" "r = block_of (ce_word0 (xcap s c)) s"
    using op by (auto simp: open_cnode_def split: if_splits)
  then obtain b where b: "b < 256" "pe_in_use (g_cnode_pool s b)" "ce_word0 (xcap s c) = block_addr s b"
      "cn_self_cap (cnode_mem s b) = c"
    using cn_invD(4) [OF inv c] by (auto simp: cnode_backed_def)
  then have "r = Some b" using cn(2) block_of_addr [OF cn_invD(1) [OF inv] b(1)] by simp
  with b cn that show ?thesis by blast
qed

text \<open>What revocation may do to a capability space: clear table entries and empty slots.\<close>

definition slot_kept :: "cnode_slot \<Rightarrow> cnode_slot \<Rightarrow> bool" where
  "slot_kept sl sl' \<longleftrightarrow> sl' = sl \<or> \<not> slot_valid sl'"

definition xs_frame :: "cspace_state \<Rightarrow> cspace_state \<Rightarrow> bool" where
  "xs_frame s s' \<longleftrightarrow>
     g_cnode_pool s' = g_cnode_pool s \<and> pool_addr s' = pool_addr s \<and> xs_fault s' = xs_fault s \<and>
     tab_clears (g_global_cap_table (xs_caps s)) (g_global_cap_table (xs_caps s')) \<and>
     (\<forall>b. cn_self_cap (cnode_mem s' b) = cn_self_cap (cnode_mem s b) \<and>
          cn_slot_count (cnode_mem s' b) = cn_slot_count (cnode_mem s b) \<and>
          (\<forall>i. slot_kept (slot_at s b i) (slot_at s' b i)))"

lemma xs_frame_refl [simp]: "xs_frame s s"
  by (simp add: xs_frame_def slot_kept_def)

lemma xs_frame_trans:
  assumes st: "xs_frame s t" and tu: "xs_frame t u"
  shows "xs_frame s u"
proof -
  have "tab_clears (g_global_cap_table (xs_caps s)) (g_global_cap_table (xs_caps u))"
    using st tu tab_clears_trans by (simp add: xs_frame_def) blast
  moreover have "slot_kept (slot_at s b i) (slot_at u b i)" for b i
  proof -
    have "slot_kept (slot_at s b i) (slot_at t b i)" "slot_kept (slot_at t b i) (slot_at u b i)"
      using st tu by (simp_all add: xs_frame_def)
    then show ?thesis by (auto simp: slot_kept_def)
  qed
  ultimately show ?thesis using st tu by (simp add: xs_frame_def)
qed

lemma cleared_not_cnode: "\<not> cap_is_cnode (ce_rights (cleared e))"
  by (simp add: cleared_def cap_is_cnode_def)

lemma cn_inv_frame:
  assumes inv: "cn_inv s" and fr: "xs_frame s s'"
  shows "cn_inv s'"
proof -
  note I = cn_invD [OF inv]
  have F: "g_cnode_pool s' = g_cnode_pool s" "pool_addr s' = pool_addr s" "xs_fault s' = xs_fault s"
    "\<And>b. cn_self_cap (cnode_mem s' b) = cn_self_cap (cnode_mem s b)"
    "\<And>b. cn_slot_count (cnode_mem s' b) = cn_slot_count (cnode_mem s b)"
    "\<And>b i. slot_kept (slot_at s b i) (slot_at s' b i)"
    using fr by (simp_all add: xs_frame_def)
  note ba = block_addr_cong [OF F(2)]
  have "block_ok s' b" if "b < 256" for b
  proof -
    have "slot_at s' b i = slot_at s b i" if "slot_valid (slot_at s' b i)" for i
      using F(6) [of b i] that by (simp add: slot_kept_def)
    then show ?thesis using I(3) [OF that] by (auto simp: block_ok_def F ba)
  qed
  moreover have "cnode_backed s' c" if "c < 2048" for c
  proof -
    have "g_global_cap_table (xs_caps s') c = g_global_cap_table (xs_caps s) c \<or>
        g_global_cap_table (xs_caps s') c = cleared (g_global_cap_table (xs_caps s) c)"
      using fr by (simp add: xs_frame_def tab_clears_def)
    then show ?thesis using I(4) [OF that] cleared_not_cnode by (auto simp: cnode_backed_def F ba)
  qed
  ultimately show ?thesis using I(1,2) by (simp add: cn_inv_def F pool_placed_def)
qed

lemma frame_revoke: "xs_frame s (upd_xcaps (\<lambda>t. snd (cap_revoke c t)) s)"
  by (simp add: xs_frame_def cap_revoke_clears slot_kept_def)

lemma frame_slot:
  assumes "\<And>sl. \<not> slot_valid (g sl)"
  shows "xs_frame s (upd_slot b i g s)"
  using assms by (simp add: xs_frame_def slot_kept_def)

lemma emptied_not_valid [simp]:
  "\<not> slot_valid (sl\<lparr> sl_cap_id := c, sl_flags := CNODE_SLOT_EMPTY \<rparr>)" "\<not> slot_valid (clear_slot sl)"
  by (simp_all add: slot_valid_def clear_slot_def hic_consts)

lemma frame_slot_step:
  assumes f: "\<And>c s. cn_inv s \<Longrightarrow> xs_frame s (f c s)" and inv: "cn_inv s"
  shows "xs_frame s (revoke_slot_step f b i s)"
proof -
  let ?sl = "slot_at s b i"
  let ?s1 = "if slot_is_cnode ?sl then f (sl_cap_id ?sl) s else upd_xcaps (\<lambda>t. snd (cap_revoke (sl_cap_id ?sl) t)) s"
  have "xs_frame s ?s1" using f [OF inv] frame_revoke by simp
  moreover have "xs_frame ?s1 (upd_slot b i (\<lambda>sl. sl\<lparr> sl_cap_id := HIC_CAP_INVALID, sl_flags := CNODE_SLOT_EMPTY \<rparr>) ?s1)"
    by (rule frame_slot) simp
  ultimately have "xs_frame s (upd_slot b i (\<lambda>sl. sl\<lparr> sl_cap_id := HIC_CAP_INVALID, sl_flags := CNODE_SLOT_EMPTY \<rparr>) ?s1)"
    by (rule xs_frame_trans)
  then show ?thesis by (simp add: revoke_slot_step_def Let_def)
qed

lemma frame_for_range:
  assumes "\<And>k t. cn_inv t \<Longrightarrow> xs_frame t (g k t)" and "cn_inv s"
  shows "xs_frame s (for_range g i n s)"
  using assms(2)
proof (induction n arbitrary: i s)
  case 0
  then show ?case by simp
next
  case (Suc n)
  have *: "xs_frame s (g i s)" by (rule assms(1) [OF Suc.prems])
  have "xs_frame (g i s) (for_range g (Suc i) n (g i s))" by (rule Suc.IH [OF cn_inv_frame [OF Suc.prems *]])
  then show ?case using xs_frame_trans [OF *] by simp
qed

lemma frame_cnode_revoke: "cn_inv s \<Longrightarrow> xs_frame s (cnode_revoke_r levels c s)"
proof (induction levels arbitrary: c s)
  case 0
  then show ?case by simp
next
  case (Suc levels)
  show ?case
  proof (cases "c \<ge> CAP_TABLE_SIZE \<or> isl (open_cnode c HIC_ERROR_CAP_INVALID s)")
    case True
    then show ?thesis by (auto simp: isl_def)
  next
    case False
    then obtain r where r: "open_cnode c HIC_ERROR_CAP_INVALID s = Inr r" and c: "unat c < 2048"
      by (cases "open_cnode c HIC_ERROR_CAP_INVALID s") (auto simp: cap_ge_iff)
    obtain b where b: "r = Some b" by (rule open_cnode_ok [OF Suc.prems c r])
    have "xs_frame s (for_range (revoke_slot_step (cnode_revoke_r levels) b) 0 n s)" for n
      by (intro frame_for_range frame_slot_step Suc.IH Suc.prems)
    then show ?thesis using False r b by simp
  qed
qed

lemma frame_subtree: "cn_inv s \<Longrightarrow> xs_frame s (snd (cnode_revoke_subtree c s))"
  by (simp add: cnode_revoke_subtree_def cnode_revoke_subtree_impl_def frame_cnode_revoke del: cnode_revoke_r.simps)

section \<open>Every operation keeps the invariant\<close>

lemma cn_inv_slots:
  assumes inv: "cn_inv s" and same: "g_cnode_pool s' = g_cnode_pool s" "pool_addr s' = pool_addr s" "xs_fault s' = xs_fault s"
      "g_global_cap_table (xs_caps s') = g_global_cap_table (xs_caps s)"
      "\<And>b. cn_self_cap (cnode_mem s' b) = cn_self_cap (cnode_mem s b)"
      "\<And>b. cn_slot_count (cnode_mem s' b) = cn_slot_count (cnode_mem s b)"
    and ids: "\<And>b i. b < 256 \<Longrightarrow> pe_in_use (g_cnode_pool s b) \<Longrightarrow> i < unat (cn_slot_count (cnode_mem s b)) \<Longrightarrow>
        slot_valid (slot_at s' b i) \<Longrightarrow> unat (sl_cap_id (slot_at s' b i)) < 2048"
  shows "cn_inv s'"
proof -
  note I = cn_invD [OF inv] and ba = block_addr_cong [OF same(2)]
  have "block_ok s' b" if "b < 256" for b
    using I(3) [OF that] ids [OF that] by (auto simp: block_ok_def same ba)
  moreover have "cnode_backed s' c" if "c < 2048" for c
    using I(4) [OF that] by (auto simp: cnode_backed_def same ba)
  ultimately show ?thesis using I(1,2) by (simp add: cn_inv_def same pool_placed_def)
qed

lemma slot_id_lt:
  assumes "cn_inv s" and "b < 256" and "pe_in_use (g_cnode_pool s b)"
    and "i < unat (cn_slot_count (cnode_mem s b))" and "slot_valid (slot_at s b i)"
  shows "unat (sl_cap_id (slot_at s b i)) < 2048"
  using cn_invD(3) [OF assms(1,2)] assms(3-5) by (simp add: block_ok_def)

lemma cn_inv_insert:
  assumes inv: "cn_inv s" and ins: "cnode_insert cnode_cap index cap_id rights_mask s = (r, s')"
  shows "cn_inv s'"
proof (cases "cnode_cap \<ge> CAP_TABLE_SIZE \<or> cap_id \<ge> CAP_TABLE_SIZE \<or>
    isl (open_cnode cnode_cap HIC_ERROR_CAP_INVALID s)")
  case True
  then show ?thesis using ins inv by (auto simp: cnode_insert_def isl_def split: if_splits)
next
  case False
  then obtain q where op: "open_cnode cnode_cap HIC_ERROR_CAP_INVALID s = Inr q"
      and c: "unat cnode_cap < 2048" "unat cap_id < 2048"
    by (cases "open_cnode cnode_cap HIC_ERROR_CAP_INVALID s") (auto simp: cap_ge_iff)
  obtain b where b: "q = Some b" "b < 256" by (rule open_cnode_ok [OF inv c(1) op])
  let ?s1 = "upd_slot b (unat index) (\<lambda>sl. sl\<lparr> sl_cap_id := cap_id, sl_rights_mask := rights_mask,
       sl_flags := CNODE_SLOT_VALID \<rparr>) s"
  have child: "\<exists>k. block_of (ce_word0 (xcap s cap_id)) s = Some k"
    if "cap_is_cnode (ce_rights (xcap s cap_id))"
    using cn_invD(4) [OF inv c(2)] that block_of_addr [OF cn_invD(1) [OF inv]] by (auto simp: cnode_backed_def)
  have bo: "block_of a ?s1 = block_of a s" for a by (rule block_of_cong) simp
  consider "s' = s"
    | "s' = upd_xcaps (upd_deriv cap_id (\<lambda>d. d\<lparr> dv_child_count := dv_child_count d + 1 \<rparr>)) ?s1"
    | k where "s' = upd_xcaps (upd_deriv cap_id (\<lambda>d. d\<lparr> dv_child_count := dv_child_count d + 1 \<rparr>))
        (upd_slot b (unat index) (\<lambda>sl. sl\<lparr> sl_flags := sl_flags sl OR CNODE_SLOT_CNODE \<rparr>)
           (upd_cnode k (\<lambda>n. n\<lparr> cn_depth := cn_depth (cnode_mem ?s1 b) + 1 \<rparr>) ?s1))"
    using ins False op b child
    by (auto simp: cnode_insert_def Let_def bo split: if_splits)
  then show ?thesis
  proof cases
    case 1
    then show ?thesis using inv by simp
  next
    case 2
    show ?thesis
      by (rule cn_inv_slots [OF inv]) (use slot_id_lt [OF inv] c(2) in \<open>auto simp: 2 split: if_splits\<close>)
  next
    case 3
    show ?thesis
      by (rule cn_inv_slots [OF inv]) (use slot_id_lt [OF inv] c(2) in \<open>auto simp: 3 split: if_splits\<close>)
  qed
qed

lemma open_two_ok:
  assumes inv: "cn_inv s" and op: "open_two src si dst di s = Inr r"
  obtains b d where "r = Some (b, d)" "b < 256" "d < 256" "pe_in_use (g_cnode_pool s b)"
    "unat si < unat (cn_slot_count (cnode_mem s b))"
proof -
  have c: "unat src < 2048" "unat dst < 2048" "cap_is_cnode (ce_rights (xcap s src))" "cap_is_cnode (ce_rights (xcap s dst))"
    using op by (auto simp: open_two_def cap_ge_iff split: if_splits)
  obtain b where b: "b < 256" "pe_in_use (g_cnode_pool s b)" "ce_word0 (xcap s src) = block_addr s b"
    using cn_invD(4) [OF inv c(1)] c(3) by (auto simp: cnode_backed_def)
  obtain d where d: "d < 256" "ce_word0 (xcap s dst) = block_addr s d"
    using cn_invD(4) [OF inv c(2)] c(4) by (auto simp: cnode_backed_def)
  have "r = Some (b, d)" "unat si < unat (cn_slot_count (cnode_mem s b))"
    using op c block_of_addr [OF cn_invD(1) [OF inv] b(1)] block_of_addr [OF cn_invD(1) [OF inv] d(1)] b(3) d(2)
    by (auto simp: open_two_def cap_ge_iff split: if_splits)
  with b d that show ?thesis by blast
qed

lemma cn_inv_move:
  assumes inv: "cn_inv s" and mv: "cnode_move src si dst di s = (r, s')"
  shows "cn_inv s'"
proof (cases "open_two src si dst di s")
  case (Inl e)
  then show ?thesis using inv mv by (simp add: cnode_move_def)
next
  case (Inr q)
  obtain b d where q: "q = Some (b, d)" and b: "b < 256" "d < 256" "pe_in_use (g_cnode_pool s b)"
      "unat si < unat (cn_slot_count (cnode_mem s b))"
    by (rule open_two_ok [OF inv Inr])
  have s': "s' = upd_slot b (unat si) (\<lambda>sl. sl\<lparr> sl_cap_id := HIC_CAP_INVALID, sl_flags := CNODE_SLOT_EMPTY \<rparr>)
             (upd_slot d (unat di) (\<lambda>_. slot_at s b (unat si)) s)"
    using mv Inr q by (simp add: cnode_move_def)
  show ?thesis
    by (rule cn_inv_slots [OF inv]) (use slot_id_lt [OF inv] b in \<open>auto simp: s' split: if_splits\<close>)
qed

lemma slot_valid_flags: "sl_flags sl = sl_flags sl' \<Longrightarrow> slot_valid sl = slot_valid sl'"
  by (simp add: slot_valid_def)

lemma cn_inv_copy:
  assumes inv: "cn_inv s" and cp: "cnode_copy src si dst di rights_mask s = (r, s')"
  shows "cn_inv s'"
proof (cases "open_two src si dst di s")
  case (Inl e)
  then show ?thesis using inv cp by (simp add: cnode_copy_def)
next
  case (Inr q)
  obtain b d where q: "q = Some (b, d)" and b: "b < 256" "d < 256" "pe_in_use (g_cnode_pool s b)"
      "unat si < unat (cn_slot_count (cnode_mem s b))"
    by (rule open_two_ok [OF inv Inr])
  let ?src = "slot_at s b (unat si)"
  consider "s' = s" | "slot_valid ?src" "s' = upd_slot d (unat di) (\<lambda>sl. sl\<lparr> sl_cap_id := sl_cap_id ?src,
                     sl_rights_mask := rights_mask, sl_flags := sl_flags ?src \<rparr>) s"
    using cp Inr q by (auto simp: cnode_copy_def Let_def split: if_splits)
  then show ?thesis
  proof cases
    case 1
    then show ?thesis using inv by simp
  next
    case 2
    have "unat (sl_cap_id ?src) < 2048" by (rule slot_id_lt [OF inv b(1,3,4) 2(1)])
    then show ?thesis
      by (intro cn_inv_slots [OF inv]) (use slot_id_lt [OF inv] in \<open>auto simp: 2(2) split: if_splits\<close>)
  qed
qed

lemma cn_inv_remove:
  assumes inv: "cn_inv s" and rm: "cnode_remove cnode_cap index s = (r, s')"
  shows "cn_inv s'"
proof (cases "cnode_cap \<ge> CAP_TABLE_SIZE \<or> isl (open_cnode cnode_cap HIC_ERROR_INVALID_PARAM s)")
  case True
  then show ?thesis using rm inv by (auto simp: cnode_remove_def isl_def split: if_splits)
next
  case False
  then obtain q where op: "open_cnode cnode_cap HIC_ERROR_INVALID_PARAM s = Inr q" and c: "unat cnode_cap < 2048"
    by (cases "open_cnode cnode_cap HIC_ERROR_INVALID_PARAM s") (auto simp: cap_ge_iff)
  obtain b where b: "q = Some b" by (rule open_cnode_ok [OF inv c op])
  have "s' = s \<or> s' = upd_slot b (unat index) clear_slot s"
    using rm False op b by (auto simp: cnode_remove_def split: if_splits)
  then show ?thesis using inv cn_inv_frame [OF inv frame_slot, of clear_slot] by auto
qed

lemma cn_inv_revoke_slot:
  assumes inv: "cn_inv s" and rv: "cnode_revoke_slot cnode_cap index s = (r, s')"
  shows "cn_inv s'"
proof (cases "cnode_cap \<ge> CAP_TABLE_SIZE \<or> isl (open_cnode cnode_cap HIC_ERROR_INVALID_PARAM s)")
  case True
  then show ?thesis using rv inv by (auto simp: cnode_revoke_slot_def isl_def split: if_splits)
next
  case False
  then obtain q where op: "open_cnode cnode_cap HIC_ERROR_INVALID_PARAM s = Inr q" and c: "unat cnode_cap < 2048"
    by (cases "open_cnode cnode_cap HIC_ERROR_INVALID_PARAM s") (auto simp: cap_ge_iff)
  obtain b where b: "q = Some b" by (rule open_cnode_ok [OF inv c op])
  let ?sl = "slot_at s b (unat index)"
  let ?s1 = "if slot_is_cnode ?sl then snd (cnode_revoke_subtree (sl_cap_id ?sl) s)
             else upd_xcaps (\<lambda>t. snd (cap_revoke (sl_cap_id ?sl) t)) s"
  have "s' = s \<or> s' = upd_slot b (unat index) clear_slot ?s1"
    using rv False op b by (auto simp: cnode_revoke_slot_def Let_def split: if_splits)
  moreover have "cn_inv ?s1" using cn_inv_frame [OF inv] frame_subtree [OF inv] frame_revoke by simp
  ultimately show ?thesis using inv cn_inv_frame [OF _ frame_slot, of ?s1 clear_slot] by auto
qed

text \<open>The pool hands out blocks as a table of slots.\<close>

interpretation cnode_blocks: slot_table "\<lambda>_. True" "\<lambda>p b. pe_in_use (p b)"
  "\<lambda>p. find_first (\<lambda>b. \<not> pe_in_use (p b)) 0 256" 0 256
  by unfold_locales (auto simp: find_first_Some_iff find_first_None_iff)

lemma cnode_alloc_cases:
  assumes "cnode_alloc n s = (r, s')"
  obtains (none) "r = None" "s' = s"
  | (some) b where "r = Some b" "b < 256" "\<not> pe_in_use (g_cnode_pool s b)" "24 + unat n * 16 \<le> 8192"
      "s' = upd_cnode b (zeroed_cnode (unat n))
         (s\<lparr> g_cnode_pool := (g_cnode_pool s)(b := \<lparr> pe_cnode = block_addr s b, pe_in_use = True \<rparr>) \<rparr>)"
proof (cases "24 + unat n * 16 \<le> 8192")
  case True
  then have sz: "sizeof_cnode + unat n * sizeof_cnode_slot \<le> CNODE_BLOCK_SIZE" by (simp add: hic_consts)
  show ?thesis
  proof (cases "find_first (\<lambda>b. \<not> pe_in_use (g_cnode_pool s b)) 0 256")
    case None
    then show ?thesis using assms none sz by (simp add: cnode_alloc_def Let_def CNODE_POOL_SIZE_def)
  next
    case (Some b)
    then show ?thesis
      using assms sz some [of b] True cnode_blocks.pick_Some [OF TrueI Some]
      by (simp add: cnode_alloc_def Let_def CNODE_POOL_SIZE_def)
  qed
next
  case False
  then have "find_first (\<lambda>i. \<not> pe_in_use (g_cnode_pool s i) \<and>
      sizeof_cnode + unat n * sizeof_cnode_slot \<le> CNODE_BLOCK_SIZE) 0 CNODE_POOL_SIZE = None"
    by (simp add: find_first_None_iff hic_consts)
  then show ?thesis using assms none by (simp add: cnode_alloc_def Let_def)
qed

lemma cnode_free_block:
  assumes "pool_placed s" and "\<And>k. k < 256 \<Longrightarrow> block_ok s k" and "b < 256" and "pe_in_use (g_cnode_pool s b)"
  shows "cnode_free (block_addr s b) s =
    s\<lparr> g_cnode_pool := (g_cnode_pool s)(b := \<lparr> pe_cnode = 0, pe_in_use = False \<rparr>) \<rparr>"
proof -
  have "pe_cnode (g_cnode_pool s k) = block_addr s b \<longleftrightarrow> k = b" if "k < 256" for k
    using assms(2) [OF that] assms(2) [OF assms(3)] assms(4) block_addr_inj [OF assms(1) that assms(3)]
      block_addr_neq_0 [OF assms(1,3)] by (auto simp: block_ok_def split: if_splits)
  then have "find_first (\<lambda>i. pe_cnode (g_cnode_pool s i) = block_addr s b) 0 256 = Some b"
    using assms(3) by (auto simp: find_first_Some_iff)
  then show ?thesis by (simp add: cnode_free_def CNODE_POOL_SIZE_def)
qed

lemma cnode_free_unknown:
  assumes "\<And>k. k < 256 \<Longrightarrow> pe_cnode (g_cnode_pool s k) \<noteq> p"
  shows "cnode_free p s = s"
proof -
  have "find_first (\<lambda>i. pe_cnode (g_cnode_pool s i) = p) 0 256 = None"
    using assms by (simp add: find_first_None_iff)
  then show ?thesis by (simp add: cnode_free_def CNODE_POOL_SIZE_def)
qed

text \<open>Changes to blocks that are free, and to pool entries that become free, go unnoticed.\<close>

lemma cn_inv_unused:
  assumes inv: "cn_inv s" and "pool_addr s' = pool_addr s" "xs_fault s' = xs_fault s"
    and tab: "\<And>c. c < 2048 \<Longrightarrow> cap_is_cnode (ce_rights (g_global_cap_table (xs_caps s') c)) \<Longrightarrow>
        g_global_cap_table (xs_caps s') c = g_global_cap_table (xs_caps s) c \<and>
        ce_word0 (g_global_cap_table (xs_caps s) c) \<noteq> block_addr s b"
    and pool: "\<And>k. k \<noteq> b \<Longrightarrow> g_cnode_pool s' k = g_cnode_pool s k \<and> cnode_mem s' k = cnode_mem s k"
    and b: "g_cnode_pool s' b = \<lparr> pe_cnode = 0, pe_in_use = False \<rparr>"
  shows "cn_inv s'"
proof -
  note I = cn_invD [OF inv] and ba = block_addr_cong [OF assms(2)]
  have "block_ok s' k" if "k < 256" for k
    using I(3) [OF that] pool [of k] b by (cases "k = b") (auto simp: block_ok_def ba)
  moreover have "cnode_backed s' c" if c: "c < 2048" for c
  proof (cases "cap_is_cnode (ce_rights (g_global_cap_table (xs_caps s') c))")
    case True
    note t = tab [OF c True]
    then obtain k where k: "k < 256" "pe_in_use (g_cnode_pool s k)"
        "ce_word0 (g_global_cap_table (xs_caps s) c) = block_addr s k" "cn_self_cap (cnode_mem s k) = of_nat c"
      using I(4) [OF c] True by (auto simp: cnode_backed_def)
    then have "k \<noteq> b" using t by auto
    then show ?thesis using k t pool [of k] by (auto simp: cnode_backed_def ba)
  next
    case False
    then show ?thesis by (simp add: cnode_backed_def)
  qed
  ultimately show ?thesis using I(1,2) assms(2,3) by (simp add: cn_inv_def pool_placed_def)
qed

lemma other_block:
  assumes inv: "cn_inv s" and "c < 2048" and "cap_is_cnode (ce_rights (g_global_cap_table (xs_caps s) c))"
    and "b < 256" and "\<not> pe_in_use (g_cnode_pool s b)"
  shows "ce_word0 (g_global_cap_table (xs_caps s) c) \<noteq> block_addr s b"
  using cn_invD(4) [OF inv assms(2)] assms(3-5) block_addr_inj [OF cn_invD(1) [OF inv]]
  by (auto simp: cnode_backed_def)

lemma cnode_create_cases:
  assumes inv: "cn_inv s" and cr: "cnode_create owner slot_bits out_ok s = (r, s')"
  obtains (err) e where "r = Inl e" "cn_inv s'"
  | (ok) c b where "r = Inr c" "cn_inv s'" "c \<noteq> 0" "unat c < 2048" "ce_id (xcap s c) = 0" "b < 256"
      "\<not> pe_in_use (g_cnode_pool s b)" "pe_in_use (g_cnode_pool s' b)" "xcap s' c = (xcap s c)\<lparr> ce_id := c,
         ce_rights := CAP_CNODE, ce_owner := owner, ce_flags := 0, ce_word0 := block_addr s b,
         ce_word1 := of_nat (24 + unat (push_bit (unat slot_bits) 1 :: u16) * 16) \<rparr>"
      "cn_slot_count (cnode_mem s' b) = push_bit (unat slot_bits) 1" "cn_slot_bits (cnode_mem s' b) = slot_bits"
      "cn_guard_bits (cnode_mem s' b) = 0" "slot_bits \<le> 8" "pool_addr s' = pool_addr s"
proof (cases "owner \<ge> HIC_DOMAIN_MAX \<or> slot_bits > 12 \<or> \<not> out_ok")
  case True
  then show ?thesis using cr inv err by (auto simp: cnode_create_def split: if_splits)
next
  case False
  let ?n = "push_bit (unat slot_bits) 1 :: u16"
  have sb: "unat slot_bits \<le> 12" using False by (simp add: word_less_nat_alt not_less)
  have cnt: "unat ?n = 2 ^ unat slot_bits"
  proof -
    have "(2 :: nat) ^ unat slot_bits \<le> 2 ^ 12" using sb by (rule power_increasing) simp
    moreover have "?n = of_nat (2 ^ unat slot_bits)" by simp
    ultimately show ?thesis by (simp only: unat_of_nat) simp
  qed
  show ?thesis
  proof (cases "cnode_alloc ?n s")
    case (Pair q s1)
    then show ?thesis
    proof (cases rule: cnode_alloc_cases)
      case none
      then have "r = Inl HIC_ERROR_NO_MEMORY" "s' = s" using cr False Pair by (simp_all add: cnode_create_def Let_def)
      then show ?thesis using inv err by simp
    next
      case (some b)
      note I = cn_invD [OF inv]
      have caps1: "xs_caps s1 = xs_caps s" and pa1: "pool_addr s1 = pool_addr s"
        and f1: "xs_fault s1 = xs_fault s" by (simp_all add: some(5))
      note ba1 = block_addr_cong [OF pa1]
      let ?c = "first_free_slot (g_global_cap_table (xs_caps s))"
      show ?thesis
      proof (cases "?c = HIC_CAP_INVALID")
        case True
        have "block_ok s1 k" if "k < 256" for k
          using I(3) [OF that] some(4) by (cases "k = b")
            (auto simp: block_ok_def some(5) zeroed_cnode_def zero_slot_def slot_valid_def block_addr_def)
        then have "cnode_free (block_addr s1 b) s1 =
            s1\<lparr> g_cnode_pool := (g_cnode_pool s1)(b := \<lparr> pe_cnode = 0, pe_in_use = False \<rparr>) \<rparr>"
          using I(1) pa1 some(2) by (intro cnode_free_block) (simp_all add: pool_placed_def some(5))
        then have s': "r = Inl HIC_ERROR_NO_RESOURCE"
          "s' = s1\<lparr> g_cnode_pool := (g_cnode_pool s1)(b := \<lparr> pe_cnode = 0, pe_in_use = False \<rparr>) \<rparr>"
          using cr False Pair some(1) True caps1 by (simp_all add: cnode_create_def Let_def)
        have "cn_inv s'"
          by (rule cn_inv_unused [OF inv, of _ b])
             (use other_block [OF inv _ _ some(2,3)] in \<open>auto simp: s' some(5)\<close>)
        with s' err show ?thesis by blast
      next
        case nz: False
        note fs = first_free_slot_ok [OF refl nz]
        let ?s2 = "upd_cnode b (\<lambda>n. n\<lparr> cn_self_cap := ?c, cn_owner := owner, cn_slot_count := ?n,
                        cn_slot_bits := slot_bits, cn_depth := 0, cn_guard := 0, cn_guard_bits := 0,
                        cn_flags := 0 \<rparr>) s1"
        let ?slots = "\<lambda>n i. if i < unat ?n then \<lparr> sl_cap_id = HIC_CAP_INVALID, sl_rights_mask = 0, sl_guard = 0,
                               sl_flags = CNODE_SLOT_EMPTY \<rparr> else cn_slots n i"
        have s': "r = Inr ?c" "s' = upd_cnode b (\<lambda>n. n\<lparr> cn_slots := ?slots n \<rparr>)
            (upd_xcaps (upd_cap ?c (\<lambda>e. e\<lparr> ce_id := ?c, ce_rights := CAP_CNODE, ce_owner := owner,
                        ce_flags := 0, ce_word0 := block_addr ?s2 b,
                        ce_word1 := of_nat (sizeof_cnode + unat ?n * sizeof_cnode_slot) \<rparr>)) ?s2)"
          using cr False Pair some(1) nz caps1 by (simp_all add: cnode_create_def Let_def)
        have pa: "pool_addr s' = pool_addr s" "xs_fault s' = xs_fault s" using pa1 f1 by (simp_all add: s')
        note ba = block_addr_cong [OF pa(1)]
        have ba2: "block_addr (upd_cnode b f s1) b = block_addr s b" for f
          by (rule block_addr_cong) (simp add: pa1)
        have entry: "xcap s' ?c = (xcap s ?c)\<lparr> ce_id := ?c,
         ce_rights := CAP_CNODE, ce_owner := owner, ce_flags := 0, ce_word0 := block_addr s b,
         ce_word1 := of_nat (24 + unat (push_bit (unat slot_bits) 1 :: u16) * 16) \<rparr>"
          by (simp add: s' caps1 ba2 sizeof_cnode_def sizeof_cnode_slot_def)
        have other: "g_global_cap_table (xs_caps s') c = g_global_cap_table (xs_caps s) c" if "c \<noteq> unat ?c" for c
          using that by (simp add: s' caps1)
        have pool': "pe_in_use (g_cnode_pool s' b)" "pe_cnode (g_cnode_pool s' b) = block_addr s b"
          by (simp_all add: s' some(5))
        have keep: "g_cnode_pool s' k = g_cnode_pool s k" "cnode_mem s' k = cnode_mem s k" if "k \<noteq> b" for k
          using that by (simp_all add: s' some(5))
        have hdr: "cn_self_cap (cnode_mem s' b) = ?c" "cn_slot_count (cnode_mem s' b) = ?n"
            "cn_slot_bits (cnode_mem s' b) = slot_bits" "cn_guard_bits (cnode_mem s' b) = 0"
          by (simp_all add: s')
        have empty: "\<not> slot_valid (slot_at s' b i)" if "i < unat ?n" for i
          using that by (simp add: s' slot_valid_def hic_consts)
        have "block_ok s' k" if "k < 256" for k
        proof (cases "k = b")
          case True
          then show ?thesis using empty some(4) pool' by (simp add: block_ok_def hdr ba)
        next
          case False
          then show ?thesis using I(3) [OF that] by (simp add: block_ok_def keep ba)
        qed
        moreover have "cnode_backed s' k" if k: "k < 2048" for k
        proof (cases "k = unat ?c")
          case True
          then show ?thesis using some(2) pool'(1) entry hdr(1)
            by (auto simp: cnode_backed_def ba intro!: exI [of _ b])
        next
          case False
          show ?thesis
          proof (cases "cap_is_cnode (ce_rights (g_global_cap_table (xs_caps s) k))")
            case True
            obtain j where j: "j < 256" "pe_in_use (g_cnode_pool s j)"
                "ce_word0 (g_global_cap_table (xs_caps s) k) = block_addr s j" "cn_self_cap (cnode_mem s j) = of_nat k"
              using I(4) [OF k] True by (auto simp: cnode_backed_def)
            then have "j \<noteq> b" using some(3) by auto
            then show ?thesis using j by (auto simp: cnode_backed_def other [OF False] keep ba)
          next
            case no: False
            then show ?thesis by (simp add: cnode_backed_def other [OF False])
          qed
        qed
        ultimately have inv': "cn_inv s'" using I(1,2) by (simp add: cn_inv_def pa pool_placed_def)
        have "unat slot_bits \<le> 8"
        proof (rule ccontr)
          assume "\<not> unat slot_bits \<le> 8"
          then have "(2 :: nat) ^ 9 \<le> 2 ^ unat slot_bits" by (intro power_increasing) auto
          then show False using some(4) cnt by simp
        qed
        then have "slot_bits \<le> 8" by (simp add: word_le_nat_alt)
        then show ?thesis
          using ok [OF s'(1) inv' _ fs(2,3) some(2,3) pool'(1) entry hdr(2-4) _ pa(1)] fs(1) unat_pos_neq0 by blast
      qed
    qed
  qed
qed

lemma cn_inv_create: "cn_inv s \<Longrightarrow> cnode_create owner slot_bits out_ok s = (r, s') \<Longrightarrow> cn_inv s'"
  by (erule (1) cnode_create_cases) assumption+

lemma cn_inv_destroy:
  assumes inv: "cn_inv s" and ds: "cnode_destroy c s = (r, s')"
  shows "cn_inv s'"
proof (cases "c \<ge> CAP_TABLE_SIZE \<or> \<not> cap_is_cnode (ce_rights (xcap s c)) \<or> ce_word0 (xcap s c) = 0")
  case True
  then show ?thesis using inv ds by (auto simp: cnode_destroy_def Let_def split: if_splits)
next
  case False
  then have c: "unat c < 2048" by (simp add: cap_ge_iff)
  let ?s1 = "snd (cnode_revoke_subtree c s)"
  have fr: "xs_frame s ?s1" by (rule frame_subtree [OF inv])
  have inv1: "cn_inv ?s1" by (rule cn_inv_frame [OF inv fr])
  obtain b where b: "b < 256" "pe_in_use (g_cnode_pool s b)" "ce_word0 (xcap s c) = block_addr s b"
      "cn_self_cap (cnode_mem s b) = c"
    using cn_invD(4) [OF inv c] False by (auto simp: cnode_backed_def)
  have same: "g_cnode_pool ?s1 = g_cnode_pool s" "pool_addr ?s1 = pool_addr s" "cn_self_cap (cnode_mem ?s1 b) = c"
    using fr b(4) by (simp_all add: xs_frame_def)
  note ba = block_addr_cong [OF same(2)]
  have "cnode_free (block_addr ?s1 b) ?s1 =
      ?s1\<lparr> g_cnode_pool := (g_cnode_pool ?s1)(b := \<lparr> pe_cnode = 0, pe_in_use = False \<rparr>) \<rparr>"
    using cn_invD(1,3) [OF inv1] b(1,2) by (intro cnode_free_block) (simp_all add: same)
  then have s': "s' = upd_xcaps (upd_cap c (\<lambda>e. e\<lparr> ce_id := 0, ce_rights := 0, ce_flags := 0 \<rparr>))
      (?s1\<lparr> g_cnode_pool := (g_cnode_pool ?s1)(b := \<lparr> pe_cnode = 0, pe_in_use = False \<rparr>) \<rparr>)"
    using ds False b(3) ba by (auto simp: cnode_destroy_def Let_def)
  have other: "ce_word0 (g_global_cap_table (xs_caps ?s1) k) \<noteq> block_addr ?s1 b"
    if k: "k < 2048" "k \<noteq> unat c" "cap_is_cnode (ce_rights (g_global_cap_table (xs_caps ?s1) k))" for k
  proof
    assume "ce_word0 (g_global_cap_table (xs_caps ?s1) k) = block_addr ?s1 b"
    moreover obtain j where "j < 256" "cn_self_cap (cnode_mem ?s1 j) = of_nat k"
        "ce_word0 (g_global_cap_table (xs_caps ?s1) k) = block_addr ?s1 j"
      using cn_invD(4) [OF inv1 k(1)] k(3) by (auto simp: cnode_backed_def)
    ultimately have "cn_self_cap (cnode_mem ?s1 b) = of_nat k"
      using block_addr_inj [OF cn_invD(1) [OF inv1] b(1), of j] by simp
    then show False using same(3) k(1,2) by (simp add: unat_of_nat_u32)
  qed
  show ?thesis
    by (rule cn_inv_unused [OF inv1, of _ b])
       (use other in \<open>auto simp: s' cap_is_cnode_def split: if_splits\<close>)
qed

lemma cn_inv_same_cnodes:
  assumes "cn_inv s" and "g_cnode_pool s' = g_cnode_pool s" "pool_addr s' = pool_addr s" "xs_fault s' = xs_fault s"
    "cnode_mem s' = cnode_mem s"
    and "\<And>c. c < 2048 \<Longrightarrow> cap_is_cnode (ce_rights (g_global_cap_table (xs_caps s') c)) \<Longrightarrow>
        g_global_cap_table (xs_caps s') c = g_global_cap_table (xs_caps s) c"
  shows "cn_inv s'"
proof -
  note I = cn_invD [OF assms(1)] and ba = block_addr_cong [OF assms(3)]
  have "cnode_backed s' c" if "c < 2048" for c
    using I(4) [OF that] assms(6) [OF that] by (auto simp: cnode_backed_def assms(2,5) ba)
  moreover have "block_ok s' b" if "b < 256" for b
    using I(3) [OF that] by (simp add: block_ok_def assms(2,5) ba)
  ultimately show ?thesis using I(1,2) assms(3,4) by (simp add: cn_inv_def pool_placed_def)
qed

lemma cn_inv_cspace_init:
  assumes inv: "cn_inv s" and ci: "cspace_init domain root_slot_bits s = (r, s')"
  shows "cn_inv s'"
proof (cases "cnode_create domain root_slot_bits True s")
  case (Pair q s1)
  show ?thesis
  proof (cases "domain \<ge> HIC_DOMAIN_MAX")
    case True
    then show ?thesis using inv ci by (simp add: cspace_init_def)
  next
    case False
    from inv Pair show ?thesis
    proof (cases rule: cnode_create_cases)
      case err
      then show ?thesis using ci False Pair by (simp add: cspace_init_def)
    next
      case (ok c b)
      have bo: "block_of (ce_word0 (xcap s1 c)) s1 = Some b" "ce_word0 (xcap s1 c) \<noteq> 0"
        using ok(9) block_of_addr [OF cn_invD(1) [OF ok(2)] ok(6)] block_addr_neq_0 [OF cn_invD(1) [OF ok(2)] ok(6)]
          block_addr_cong [OF ok(14), of b] by simp_all
      let ?s2 = "upd_cnode b (\<lambda>n. n\<lparr> cn_flags := cn_flags n OR CNODE_FLAG_ROOT, cn_depth := 0 \<rparr>) s1"
      have "cn_inv ?s2" by (rule cn_inv_slots [OF ok(2)]) (use slot_id_lt [OF ok(2)] in \<open>auto split: if_splits\<close>)
      then show ?thesis using ci False Pair ok(1) bo
        by (auto simp: cspace_init_def Let_def intro: cn_inv_same_cnodes)
    qed
  qed
qed

lemma cn_inv_cspace_destroy:
  assumes inv: "cn_inv s" and cd: "cspace_destroy domain s = (r, s')"
  shows "cn_inv s'"
proof -
  let ?root = "sp_root_cnode (g_domain_cspaces s (unat domain))"
  let ?s1 = "snd (cnode_revoke_subtree ?root s)" let ?s2 = "snd (cnode_destroy ?root ?s1)"
  have "cn_inv ?s2" by (rule cn_inv_destroy [OF cn_inv_frame [OF inv frame_subtree [OF inv]] prod.collapse [symmetric]])
  moreover have "s' = s \<or> g_cnode_pool s' = g_cnode_pool ?s2 \<and> pool_addr s' = pool_addr ?s2 \<and>
      xs_fault s' = xs_fault ?s2 \<and> cnode_mem s' = cnode_mem ?s2 \<and> xs_caps s' = xs_caps ?s2"
    using cd by (auto simp: cspace_destroy_def Let_def cap_cache_invalidate_def split: if_splits)
  ultimately show ?thesis using inv cn_inv_same_cnodes [of ?s2 s'] by auto
qed

lemma cptr_walk_ok:
  assumes "cn_inv s"
  shows "\<exists>q. cptr_walk n cur cptr acc s = Some q"
    and "cptr_walk n cur cptr acc s = Some (Inr (c, rest, acc')) \<Longrightarrow> unat c < 2048"
proof (induction n arbitrary: cur cptr acc)
  case 0
  { case 1 then show ?case by simp }
  { case 2 then show ?case by simp }
next
  case (Suc n)
  have b: "\<exists>b. q = Some b \<and> b < 256 \<and> pe_in_use (g_cnode_pool s b)"
    if "\<not> cur \<ge> CAP_TABLE_SIZE" "open_cnode cur HIC_ERROR_CAP_INVALID s = Inr q" for cur q
    using that open_cnode_ok [OF assms _ that(2)] by (auto simp: cap_ge_iff)
  { case 1
    show ?case
    proof (cases "cur \<ge> CAP_TABLE_SIZE \<or> isl (open_cnode cur HIC_ERROR_CAP_INVALID s)")
      case True
      then show ?thesis by (auto simp: isl_def)
    next
      case False
      then obtain q where q: "open_cnode cur HIC_ERROR_CAP_INVALID s = Inr q"
        by (cases "open_cnode cur HIC_ERROR_CAP_INVALID s") auto
      obtain k where "q = Some k" using b [OF _ q] False by auto
      then show ?thesis using Suc.IH(1) q False by (simp add: Let_def)
    qed }
  { case 2
    then obtain k where k: "\<not> cur \<ge> CAP_TABLE_SIZE" "open_cnode cur HIC_ERROR_CAP_INVALID s = Inr (Some k)"
      by (auto split: if_splits sum.splits option.splits)
    then have "k < 256" "pe_in_use (g_cnode_pool s k)" using b [OF k] by auto
    note lt = slot_id_lt [OF assms this]
    show ?case using 2 k Suc.IH(2) by (auto simp: Let_def not_le split: if_splits intro: lt) }
qed

lemma cn_inv_lookup:
  assumes inv: "cn_inv s" and lk: "cptr_lookup csp cptr out_ok want_rights ts s = (r, s')"
  shows "cn_inv s'"
proof (cases csp)
  case None
  then show ?thesis using lk inv by (simp add: cptr_lookup_def)
next
  case (Some cs)
  have cache: "cn_inv (s\<lparr> g_cap_cache := g \<rparr>)" for g by (rule cn_inv_same_cnodes [OF inv]) simp_all
  obtain q where q: "cptr_walk CNODE_MAX_DEPTH (sp_root_cnode cs) cptr 0xFFFFFFFF s = Some q"
    using cptr_walk_ok(1) [OF inv] by blast
  have "\<not> c \<ge> CAP_TABLE_SIZE" if "q = Inr (c, rest, acc)" for c rest acc
    using cptr_walk_ok(2) [OF inv, of CNODE_MAX_DEPTH "sp_root_cnode cs" cptr "0xFFFFFFFF" c rest acc] q that
    by (simp add: cap_ge_iff)
  then show ?thesis using lk inv cache q Some
    by (auto simp: cptr_lookup_def cap_cache_lookup_def cap_cache_update_def Let_def
        split: if_splits option.splits sum.splits prod.splits)
qed

end
