(* ===== verification/Hic_Cnode_Props.thy ===== *)
theory Hic_Cnode_Props
  imports Hic_Cnode Hic_Cap_Props
begin

text \<open>
  The properties of the capability spaces of \<^verbatim>\<open>Hic_Cnode\<close>: memory safety of every history, the
  meaning of a capability pointer, attenuation along its path, and the effects of the lookup
  cache and of the reference count kept in the child lists.
\<close>

section \<open>Histories\<close>

text \<open>
  A history starts with an empty pool and no CNode capability and runs the operations of the
  capability spaces. Other operations on the capability table may come in between as long as they
  leave no entry with the CNode bit that was not there before.
\<close>

inductive cn_step :: "cspace_state \<Rightarrow> cspace_state \<Rightarrow> bool" where
  create: "cnode_create owner slot_bits out_ok s = (rc, s') \<Longrightarrow> cn_step s s'"
| destroy: "cnode_destroy c s = (r, s') \<Longrightarrow> cn_step s s'"
| insert: "cnode_insert c i cap rmask s = (r, s') \<Longrightarrow> cn_step s s'"
| remove: "cnode_remove c i s = (r, s') \<Longrightarrow> cn_step s s'"
| move: "cnode_move src si dst di s = (r, s') \<Longrightarrow> cn_step s s'"
| copy: "cnode_copy src si dst di rmask s = (r, s') \<Longrightarrow> cn_step s s'"
| revoke_slot: "cnode_revoke_slot c i s = (r, s') \<Longrightarrow> cn_step s s'"
| subtree: "cnode_revoke_subtree c s = (r, s') \<Longrightarrow> cn_step s s'"
| space_init: "cspace_init domain bits s = (r, s') \<Longrightarrow> cn_step s s'"
| space_destroy: "cspace_destroy domain s = (r, s') \<Longrightarrow> cn_step s s'"
| lookup: "cptr_lookup csp cptr out_ok want_rights ts s = (rl, s') \<Longrightarrow> cn_step s s'"
| other: "(\<And>c. c < 2048 \<Longrightarrow> cap_is_cnode (ce_rights (g_global_cap_table t c)) \<Longrightarrow>
     g_global_cap_table t c = g_global_cap_table (xs_caps s) c) \<Longrightarrow> cn_step s (s\<lparr> xs_caps := t \<rparr>)"

inductive cn_reachable :: "cspace_state \<Rightarrow> bool" where
  boot: "pool_placed s \<Longrightarrow> \<not> xs_fault s \<Longrightarrow>
     (\<And>b. b < CNODE_POOL_SIZE \<Longrightarrow> g_cnode_pool s b = \<lparr> pe_cnode = 0, pe_in_use = False \<rparr>) \<Longrightarrow>
     (\<And>c. c < 2048 \<Longrightarrow> \<not> cap_is_cnode (ce_rights (g_global_cap_table (xs_caps s) c))) \<Longrightarrow> cn_reachable s"
| step: "cn_reachable s \<Longrightarrow> cn_step s s' \<Longrightarrow> cn_reachable s'"

lemma cn_step_inv: "cn_step s s' \<Longrightarrow> cn_inv s \<Longrightarrow> cn_inv s'"
proof (induction rule: cn_step.induct)
  case create
  then show ?case using cn_inv_create by blast
next
  case destroy
  then show ?case using cn_inv_destroy by blast
next
  case insert
  then show ?case using cn_inv_insert by blast
next
  case remove
  then show ?case using cn_inv_remove by blast
next
  case move
  then show ?case using cn_inv_move by blast
next
  case copy
  then show ?case using cn_inv_copy by blast
next
  case revoke_slot
  then show ?case using cn_inv_revoke_slot by blast
next
  case (subtree c s r s')
  then show ?case using cn_inv_frame [OF subtree(2) frame_subtree [OF subtree(2)], of c] by simp
next
  case space_init
  then show ?case using cn_inv_cspace_init by blast
next
  case space_destroy
  then show ?case using cn_inv_cspace_destroy by blast
next
  case lookup
  then show ?case using cn_inv_lookup by blast
next
  case (other t s)
  show ?case by (rule cn_inv_same_cnodes [OF other(2)]) (use other(1) in simp_all)
qed

lemma cn_reachable_inv: "cn_reachable s \<Longrightarrow> cn_inv s"
proof (induction rule: cn_reachable.induct)
  case (boot s)
  then show ?case by (simp add: cn_inv_def block_ok_def cnode_backed_def CNODE_POOL_SIZE_def)
next
  case step
  then show ?case using cn_step_inv by blast
qed

section \<open>An example\<close>

text \<open>Domain 1 has a root CNode of 16 slots with its page capability, read-only, in slot 1.\<close>

definition xs_ex0 :: cspace_state where
  "xs_ex0 = \<lparr> xs_caps = ex_mem, g_cnode_pool = (\<lambda>_. \<lparr> pe_cnode = 0, pe_in_use = False \<rparr>), pool_addr = 0x200000,
     cnode_mem = (\<lambda>_. \<lparr> cn_self_cap = 0, cn_owner = 0, cn_slot_count = 0, cn_slot_bits = 0, cn_depth = 0,
       cn_guard = 0, cn_guard_bits = 0, cn_flags = 0, cn_slots = (\<lambda>_. zero_slot) \<rparr>),
     g_domain_cspaces = (\<lambda>_. \<lparr> sp_root_cnode = 0, sp_owner = 0, sp_total_caps = 0, sp_max_depth = 0, sp_flags = 0 \<rparr>),
     g_cap_cache = (\<lambda>_. \<lparr> cc_cptr = 0, cc_cap_id = 0, cc_rights = 0, cc_domain = 0, cc_timestamp = 0,
       cc_valid = False \<rparr>),
     xs_fault = False \<rparr>"

definition xs_ex1 :: cspace_state where
  "xs_ex1 = snd (cspace_init 1 4 xs_ex0)"

definition xs_ex2 :: cspace_state where
  "xs_ex2 = snd (cnode_insert 2 1 1 1 xs_ex1)"


lemma ex_boot_table: "g_global_cap_table ex_boot i = zero_cap_entry"
  by (simp add: ex_boot_def cap_init_domain_key_def capability_system_init_def cap_zero_state_def)

lemma ex_mem_eq: "ex_mem = upd_cap 1 (\<lambda>e. e\<lparr> ce_id := 1, ce_rights := 3, ce_owner := 1,
    ce_flags := 0, ce_word0 := 0x100000, ce_word1 := 0x1000 \<rparr>) ex_boot"
proof -
  have "cap_wf ex_boot" using reachable_auth_ok [OF cap_reachable_boot] by (rule auth_okD(1))
  then show ?thesis by (rule cap_create_memory_okD(5) [OF _ ex_mem_step])
qed

lemma ex_mem_table:
  "g_global_cap_table ex_mem i =
     (if i = 1 then \<lparr> ce_id = 1, ce_rights = 3, ce_owner = 1, ce_flags = 0, ce_word0 = 0x100000, ce_word1 = 0x1000 \<rparr>
      else zero_cap_entry)"
  by (simp add: ex_mem_eq ex_boot_table zero_cap_entry_def)

lemma xs_ex0_reachable: "cn_reachable xs_ex0"
  by (rule cn_reachable.boot)
     (simp_all add: xs_ex0_def pool_placed_def ex_mem_table zero_cap_entry_def cap_is_cnode_def hic_consts)

lemma xs_ex2_reachable: "cn_reachable xs_ex2"
  unfolding xs_ex2_def xs_ex1_def
  by (rule cn_reachable.step [OF cn_reachable.step [OF xs_ex0_reachable]
        cn_step.insert [OF prod.collapse [symmetric]]])
     (rule cn_step.space_init [OF prod.collapse [symmetric]])

section \<open>Memory safety\<close>

text \<open>
  C5. In every history no operation dereferences an address outside the CNode pool; every entry
  with the CNode bit points to a block in use whose header and slots fit into its 8192 bytes, and
  two such entries never share a block.
\<close>

theorem cnode_memory_safe:
  assumes "cn_reachable s"
  shows "\<not> xs_fault s \<and>
    (\<forall>c. c < CAP_TABLE_SIZE \<longrightarrow> cap_is_cnode (ce_rights (xcap s c)) \<longrightarrow>
       (\<exists>b. b < CNODE_POOL_SIZE \<and> ce_word0 (xcap s c) = block_addr s b \<and> pe_in_use (g_cnode_pool s b) \<and>
          sizeof_cnode + unat (cn_slot_count (cnode_mem s b)) * sizeof_cnode_slot \<le> CNODE_BLOCK_SIZE)) \<and>
    (\<forall>c d. c < CAP_TABLE_SIZE \<longrightarrow> d < CAP_TABLE_SIZE \<longrightarrow> c \<noteq> d \<longrightarrow>
       cap_is_cnode (ce_rights (xcap s c)) \<longrightarrow> cap_is_cnode (ce_rights (xcap s d)) \<longrightarrow>
       ce_word0 (xcap s c) \<noteq> ce_word0 (xcap s d))"
proof (intro conjI allI impI)
  have inv: "cn_inv s" by (rule cn_reachable_inv [OF assms])
  note I = cn_invD [OF inv]
  show "\<not> xs_fault s" by (fact I(2))
  have backed: "\<exists>b<256. pe_in_use (g_cnode_pool s b) \<and> ce_word0 (xcap s c) = block_addr s b \<and>
      cn_self_cap (cnode_mem s b) = c" if "c < CAP_TABLE_SIZE" "cap_is_cnode (ce_rights (xcap s c))" for c
    using I(4) [of "unat c"] that by (auto simp: cnode_backed_def cap_lt_iff)
  fix c
  assume c: "c < CAP_TABLE_SIZE" "cap_is_cnode (ce_rights (xcap s c))"
  then show "\<exists>b. b < CNODE_POOL_SIZE \<and> ce_word0 (xcap s c) = block_addr s b \<and> pe_in_use (g_cnode_pool s b) \<and>
          sizeof_cnode + unat (cn_slot_count (cnode_mem s b)) * sizeof_cnode_slot \<le> CNODE_BLOCK_SIZE"
    using backed [OF c] I(3) unfolding hic_consts by (auto simp: block_ok_def)
  fix d
  assume d: "d < CAP_TABLE_SIZE" "cap_is_cnode (ce_rights (xcap s d))" and ne: "c \<noteq> d"
  obtain b k where "b < 256" "ce_word0 (xcap s c) = block_addr s b" "cn_self_cap (cnode_mem s b) = c"
      "k < 256" "ce_word0 (xcap s d) = block_addr s k" "cn_self_cap (cnode_mem s k) = d"
    using backed [OF c] backed [OF d] by blast
  then show "ce_word0 (xcap s c) \<noteq> ce_word0 (xcap s d)"
    using ne block_addr_inj [OF I(1), of b k] by auto
qed

theorem cnode_memory_safe_witness: "\<not> xs_fault xs_ex2"
  using cnode_memory_safe [OF xs_ex2_reachable] by blast

section \<open>Resolution\<close>

text \<open>
  The meaning of a capability pointer: at each CNode the guard is matched and cut off, the low
  bits select a valid slot, and the rest is resolved in the CNode the slot names, until a slot
  that holds no CNode. \<open>ms\<close> lists the rights masks on the way.
\<close>

definition slot_step :: "cspace_state \<Rightarrow> u32 \<Rightarrow> u64 \<Rightarrow> (cnode_slot \<times> u64) option" where
  "slot_step s cap cptr =
     (if cap \<ge> CAP_TABLE_SIZE then None
      else case open_cnode cap HIC_ERROR_CAP_INVALID s of
        Inr (Some b) \<Rightarrow>
          let cn = cnode_mem s b; gb = unat (cn_guard_bits cn); p = drop_bit gb cptr;
              i = unat (cptr_extract_index p (cn_slot_bits cn) 0)
          in if (gb = 0 \<or> (ucast (cptr AND (push_bit gb 1 - 1)) :: u32) = cn_guard cn) \<and>
                i < unat (cn_slot_count cn) \<and> slot_valid (cn_slots cn i)
             then Some (cn_slots cn i, drop_bit (unat (cn_slot_bits cn)) p) else None
      | _ \<Rightarrow> None)"

inductive resolves :: "cspace_state \<Rightarrow> u32 \<Rightarrow> u64 \<Rightarrow> u32 list \<Rightarrow> u32 \<Rightarrow> u64 \<Rightarrow> bool" for s where
  leaf: "slot_step s cap cptr = Some (sl, rest) \<Longrightarrow> \<not> slot_is_cnode sl \<Longrightarrow>
     resolves s cap cptr [sl_rights_mask sl] (sl_cap_id sl) rest"
| node: "slot_step s cap cptr = Some (sl, rest) \<Longrightarrow> slot_is_cnode sl \<Longrightarrow>
     resolves s (sl_cap_id sl) rest ms c rest' \<Longrightarrow> resolves s cap cptr (sl_rights_mask sl # ms) c rest'"

inductive_cases resolvesE: "resolves s cap cptr ms c rest"

lemma cptr_walk_step:
  "cptr_walk (Suc n) cap cptr acc s = Some (Inr (c, rest, acc')) \<longleftrightarrow>
     (\<exists>sl p. slot_step s cap cptr = Some (sl, p) \<and>
        (if slot_is_cnode sl then cptr_walk n (sl_cap_id sl) p (acc AND sl_rights_mask sl) s = Some (Inr (c, rest, acc'))
         else c = sl_cap_id sl \<and> rest = p \<and> acc' = acc AND sl_rights_mask sl))"
proof (cases "cap \<ge> CAP_TABLE_SIZE")
  case True
  then show ?thesis by (simp add: slot_step_def)
next
  case False
  show ?thesis
  proof (cases "open_cnode cap HIC_ERROR_CAP_INVALID s")
    case (Inl e)
    then show ?thesis using False by (simp add: slot_step_def)
  next
    case (Inr q)
    show ?thesis
    proof (cases q)
      case None
      then show ?thesis using False Inr by (simp add: slot_step_def)
    next
      case (Some b)
      then show ?thesis using False Inr by (auto simp: slot_step_def Let_def not_le)
    qed
  qed
qed

lemma cptr_walk_resolves:
  "cptr_walk n cap cptr acc s = Some (Inr (c, rest, acc')) \<longleftrightarrow>
     (\<exists>ms. resolves s cap cptr ms c rest \<and> length ms \<le> n \<and> acc' = fold (AND) ms acc)"
proof (induction n arbitrary: cap cptr acc)
  case 0
  show ?case by (auto elim: resolvesE)
next
  case (Suc n)
  show ?case
  proof
    assume "cptr_walk (Suc n) cap cptr acc s = Some (Inr (c, rest, acc'))"
    then obtain sl p where st: "slot_step s cap cptr = Some (sl, p)" and
      w: "if slot_is_cnode sl then \<exists>ms. resolves s (sl_cap_id sl) p ms c rest \<and> length ms \<le> n \<and>
              acc' = fold (AND) ms (acc AND sl_rights_mask sl)
          else c = sl_cap_id sl \<and> rest = p \<and> acc' = acc AND sl_rights_mask sl"
      unfolding cptr_walk_step Suc.IH by blast
    show "\<exists>ms. resolves s cap cptr ms c rest \<and> length ms \<le> Suc n \<and> acc' = fold (AND) ms acc"
    proof (cases "slot_is_cnode sl")
      case True
      then obtain ms where ms: "resolves s (sl_cap_id sl) p ms c rest" "length ms \<le> n"
          "acc' = fold (AND) ms (acc AND sl_rights_mask sl)"
        using w by auto
      show ?thesis using resolves.node [OF st True ms(1)] ms
        by (intro exI [of _ "sl_rights_mask sl # ms"]) (simp add: and.commute)
    next
      case False
      then show ?thesis using resolves.leaf [OF st False] w
        by (intro exI [of _ "[sl_rights_mask sl]"]) (simp add: and.commute)
    qed
  next
    assume "\<exists>ms. resolves s cap cptr ms c rest \<and> length ms \<le> Suc n \<and> acc' = fold (AND) ms acc"
    then obtain ms where r: "resolves s cap cptr ms c rest" and len: "length ms \<le> Suc n"
      and acc': "acc' = fold (AND) ms acc" by blast
    from r show "cptr_walk (Suc n) cap cptr acc s = Some (Inr (c, rest, acc'))"
    proof cases
      case (leaf sl)
      then show ?thesis unfolding cptr_walk_step using acc' by (simp add: and.commute)
    next
      case (node sl p ms')
      then have "cptr_walk n (sl_cap_id sl) p (acc AND sl_rights_mask sl) s = Some (Inr (c, rest, acc'))"
        unfolding Suc.IH using len acc' by (intro exI [of _ ms']) (simp add: and.commute)
      then show ?thesis unfolding cptr_walk_step using node by simp
    qed
  qed
qed

lemma fold_AND_assoc: "r AND fold (AND) ms acc = fold (AND) ms (r AND acc)" for r acc :: u32
proof (induction ms arbitrary: acc)
  case Nil
  then show ?case by simp
next
  case (Cons m ms)
  have "m AND (r AND acc) = r AND (m AND acc)" by (simp add: ac_simps)
  then show ?case using Cons [of "m AND acc"] by simp
qed

lemma cptr_lookup_refines_resolution_aux:
  assumes "cn_reachable s" and "cache_hit (sp_owner cs) cptr s = None"
  shows "fst (cptr_lookup (Some cs) cptr True True ts s) = Inr (c, Some r) \<longleftrightarrow>
    (\<exists>ms rest. resolves s (sp_root_cnode cs) cptr ms c rest \<and> length ms \<le> CNODE_MAX_DEPTH \<and>
       r = fold (AND) ms (ce_rights (xcap s c)))"
proof -
  have inv: "cn_inv s" by (rule cn_reachable_inv [OF assms(1)])
  let ?w = "cptr_walk CNODE_MAX_DEPTH (sp_root_cnode cs) cptr 0xFFFFFFFF s"
  obtain q where q: "?w = Some q" using cptr_walk_ok(1) [OF inv] by blast
  have lt: "\<not> CAP_TABLE_SIZE \<le> c" if "?w = Some (Inr (c, rest, acc))" for c rest acc
    using cptr_walk_ok(2) [OF inv that] by (simp add: cap_ge_iff)
  have "fst (cptr_lookup (Some cs) cptr True True ts s) = Inr (c, Some r) \<longleftrightarrow>
      (\<exists>rest acc. ?w = Some (Inr (c, rest, acc)) \<and> r = ce_rights (xcap s c) AND acc)"
    using q lt assms(2)
    by (auto simp: cptr_lookup_def cap_cache_lookup_def Let_def split: sum.splits prod.splits)
  also have "\<dots> \<longleftrightarrow> (\<exists>ms rest. resolves s (sp_root_cnode cs) cptr ms c rest \<and> length ms \<le> CNODE_MAX_DEPTH \<and>
       r = fold (AND) ms (ce_rights (xcap s c)))"
  proof -
    have "ce_rights (xcap s c) AND 0xFFFFFFFF = ce_rights (xcap s c)"
    proof -
      have "(0xFFFFFFFF :: u32) = - 1" by simp
      then show ?thesis by (simp only: and.right_neutral)
    qed
    then have "ce_rights (xcap s c) AND fold (AND) ms 0xFFFFFFFF = fold (AND) ms (ce_rights (xcap s c))" for ms
      by (simp only: fold_AND_assoc)
    then show ?thesis unfolding cptr_walk_resolves by metis
  qed
  finally show ?thesis .
qed

text \<open>
  C6. When the cache has no entry for the pointer, \<open>cptr_lookup\<close> returns capability \<open>c\<close> with rights
  \<open>r\<close> exactly when the pointer resolves to \<open>c\<close> in at most 16 levels and \<open>r\<close> is the conjunction of the
  rights of \<open>c\<close> with every mask on the path: attenuation along the path is never lost.
\<close>

theorem cptr_lookup_refines_resolution:
  assumes "cn_reachable s" and "cache_hit (sp_owner cs) cptr s = None"
  shows "fst (cptr_lookup (Some cs) cptr True True ts s) = Inr (c, Some r) \<longleftrightarrow>
    (\<exists>ms rest. resolves s (sp_root_cnode cs) cptr ms c rest \<and> length ms \<le> CNODE_MAX_DEPTH \<and>
       r = fold (AND) ms (ce_rights (xcap s c)))"
  by (rule cptr_lookup_refines_resolution_aux [OF assms])

lemma ex_mem_free: "first_free_slot (g_global_cap_table ex_mem) = 2"
proof -
  have "find_first (\<lambda>i. ce_id (g_global_cap_table ex_mem i) = 0) 1 2047 = Some 2"
    by (auto simp: find_first_Some_iff ex_mem_table zero_cap_entry_def)
  then show ?thesis by (simp add: first_free_slot_def first_slot_def)
qed

lemma xs_ex0_alloc: "find_first (\<lambda>i. \<not> pe_in_use (g_cnode_pool xs_ex0 i)) 0 256 = Some 0"
  by (simp add: find_first_Some_iff xs_ex0_def)

lemma xs_ex0_sel: "xs_caps xs_ex0 = ex_mem" "pool_addr xs_ex0 = 0x200000"
  "g_cap_cache xs_ex0 i = \<lparr> cc_cptr = 0, cc_cap_id = 0, cc_rights = 0, cc_domain = 0, cc_timestamp = 0,
       cc_valid = False \<rparr>" "cn_slots (cnode_mem xs_ex0 b) k = zero_slot"
  by (simp_all add: xs_ex0_def)

lemma dom1: "\<not> HIC_DOMAIN_MAX \<le> (1 :: u32)" by (simp add: word_le_nat_alt hic_consts)

lemma xs_ex1_facts:
  "fst (cspace_init 1 4 xs_ex0) = Inr ()"
  "xs_caps xs_ex1 = upd_cap 2 (\<lambda>e. e\<lparr> ce_id := 2, ce_rights := CAP_CNODE, ce_owner := 1, ce_flags := 0,
      ce_word0 := 0x200000, ce_word1 := 280 \<rparr>) ex_mem"
  "g_cap_cache xs_ex1 = g_cap_cache xs_ex0" "pool_addr xs_ex1 = 0x200000"
  "cn_slot_count (cnode_mem xs_ex1 0) = 16" "cn_slot_bits (cnode_mem xs_ex1 0) = 4"
  "cn_guard_bits (cnode_mem xs_ex1 0) = 0" "i < 16 \<Longrightarrow> slot_at xs_ex1 0 i = zero_slot"
  "cspace_get 1 xs_ex1 = Some \<lparr> sp_root_cnode = 2, sp_owner = 1, sp_total_caps = 0, sp_max_depth = 0, sp_flags = 1 \<rparr>"
  by (simp_all add: xs_ex1_def cspace_init_def cnode_create_def cnode_alloc_def xs_ex0_alloc Let_def dom1 xs_ex0_sel
      ex_mem_free HIC_CAP_INVALID_def sizeof_cnode_def sizeof_cnode_slot_def CNODE_BLOCK_SIZE_def CNODE_POOL_SIZE_def
      block_addr_def block_of_def zero_slot_def CNODE_SLOT_EMPTY_def cspace_get_def CSPACE_FLAG_ACTIVE_def)

lemma xs_ex2_facts:
  "cnode_insert 2 1 1 1 xs_ex1 = (Inr (), xs_ex2)"
  "xs_ex2 = upd_xcaps (upd_deriv 1 (\<lambda>d. d\<lparr> dv_child_count := dv_child_count d + 1 \<rparr>))
     (upd_slot 0 1 (\<lambda>sl. sl\<lparr> sl_cap_id := 1, sl_rights_mask := 1, sl_flags := CNODE_SLOT_VALID \<rparr>) xs_ex1)"
proof -
  have lt: "\<not> CAP_TABLE_SIZE \<le> (1 :: u32)" "\<not> CAP_TABLE_SIZE \<le> (2 :: u32)" by (simp_all add: cap_ge_iff)
  have op: "open_cnode 2 HIC_ERROR_CAP_INVALID xs_ex1 = Inr (Some 0)"
    by (simp add: open_cnode_def xs_ex1_facts cap_is_cnode_def CAP_CNODE_def block_of_def CNODE_BLOCK_SIZE_def CNODE_POOL_SIZE_def)
  have "cnode_insert 2 1 1 1 xs_ex1 = (Inr (), upd_xcaps (upd_deriv 1 (\<lambda>d. d\<lparr> dv_child_count := dv_child_count d + 1 \<rparr>))
     (upd_slot 0 1 (\<lambda>sl. sl\<lparr> sl_cap_id := 1, sl_rights_mask := 1, sl_flags := CNODE_SLOT_VALID \<rparr>) xs_ex1))"
    by (simp add: cnode_insert_def lt op Let_def xs_ex1_facts ex_mem_table cap_is_cnode_def CAP_CNODE_def)
  then show "cnode_insert 2 1 1 1 xs_ex1 = (Inr (), xs_ex2)"
    "xs_ex2 = upd_xcaps (upd_deriv 1 (\<lambda>d. d\<lparr> dv_child_count := dv_child_count d + 1 \<rparr>))
     (upd_slot 0 1 (\<lambda>sl. sl\<lparr> sl_cap_id := 1, sl_rights_mask := 1, sl_flags := CNODE_SLOT_VALID \<rparr>) xs_ex1)"
    by (simp_all add: xs_ex2_def)
qed

lemma xs_ex2_step:
  "slot_step xs_ex2 2 1 = Some (\<lparr> sl_cap_id = 1, sl_rights_mask = 1, sl_guard = 0, sl_flags = CNODE_SLOT_VALID \<rparr>, 0)"
  "slot_step xs_ex2 2 0 = None" "cache_hit 1 p xs_ex2 = None"
proof -
  have op: "open_cnode 2 HIC_ERROR_CAP_INVALID xs_ex2 = Inr (Some 0)"
    by (simp add: open_cnode_def xs_ex1_facts xs_ex2_facts(2) cap_is_cnode_def CAP_CNODE_def block_of_def CNODE_BLOCK_SIZE_def CNODE_POOL_SIZE_def)
  have lt: "\<not> CAP_TABLE_SIZE \<le> (2 :: u32)" by (simp add: cap_ge_iff)
  have cm: "cnode_mem xs_ex2 0 = (cnode_mem xs_ex1 0)\<lparr> cn_slots := (cn_slots (cnode_mem xs_ex1 0))(1 :=
      (slot_at xs_ex1 0 1)\<lparr> sl_cap_id := 1, sl_rights_mask := 1, sl_flags := CNODE_SLOT_VALID \<rparr>) \<rparr>"
    by (simp add: xs_ex2_facts(2))
  show "slot_step xs_ex2 2 1 = Some (\<lparr> sl_cap_id = 1, sl_rights_mask = 1, sl_guard = 0, sl_flags = CNODE_SLOT_VALID \<rparr>, 0)"
    "slot_step xs_ex2 2 0 = None"
    by (simp_all add: slot_step_def lt op Let_def cm xs_ex1_facts cptr_extract_index_def
        slot_valid_def CNODE_SLOT_VALID_def zero_slot_def)
  show "cache_hit 1 p xs_ex2 = None"
    by (simp add: cache_hit_def find_first_None_iff xs_ex2_facts(2) xs_ex1_facts xs_ex0_sel)
qed

theorem cptr_lookup_refines_resolution_witness:
  "fst (cptr_lookup (cspace_get 1 xs_ex1) 1 True True 5 xs_ex2) = Inr (1, Some 1) \<and>
   (\<exists>ms rest. resolves xs_ex2 2 1 ms 1 rest \<and> fold (AND) ms (ce_rights (xcap xs_ex2 1)) = 1)"
proof -
  let ?cs = "\<lparr> sp_root_cnode = 2, sp_owner = 1, sp_total_caps = 0, sp_max_depth = 0, sp_flags = 1 \<rparr>"
  have r: "resolves xs_ex2 2 1 [1] 1 0"
    using resolves.leaf [OF xs_ex2_step(1)] by (simp add: slot_is_cnode_def hic_consts)
  have "ce_rights (xcap xs_ex2 1) = 3" by (simp add: xs_ex2_facts(2) xs_ex1_facts ex_mem_table)
  then have "\<exists>ms rest. resolves xs_ex2 2 1 ms 1 rest \<and> length ms \<le> CNODE_MAX_DEPTH \<and>
      1 = fold (AND) ms (ce_rights (xcap xs_ex2 1))"
    using r by (intro exI [of _ "[1]"] exI [of _ 0]) (simp add: hic_consts)
  then show ?thesis
    using cptr_lookup_refines_resolution [OF xs_ex2_reachable, of ?cs 1 5 1 1] xs_ex2_step(3) xs_ex1_facts(9)
    by auto
qed




section \<open>The lookup cache\<close>

lemma cache_victim_range: "cache_victim c n i o' ts = o' \<or> (i \<le> cache_victim c n i o' ts \<and> cache_victim c n i o' ts < i + n)"
proof (induction n arbitrary: i o' ts)
  case 0
  then show ?case by simp
next
  case (Suc n)
  show ?case using Suc [of "Suc i" i "cc_timestamp (c i)"] Suc [of "Suc i" o' ts] by auto
qed

lemma cache_update_hit:
  assumes "cache_hit domain cptr s = None"
  shows "\<exists>i. cache_hit domain cptr (cap_cache_update domain cptr c r ts s) = Some i \<and>
    g_cap_cache (cap_cache_update domain cptr c r ts s) i =
      \<lparr> cc_cptr = cptr, cc_cap_id = c, cc_rights = r, cc_domain = domain, cc_timestamp = ts, cc_valid = True \<rparr>"
proof -
  define v where "v = cache_victim (g_cap_cache s) CAP_CACHE_SIZE 0 0 (cc_timestamp (g_cap_cache s 0))"
  have "v < 64" using cache_victim_range [of "g_cap_cache s" 64 0 0 "cc_timestamp (g_cap_cache s 0)"] by (auto simp: v_def CAP_CACHE_SIZE_def)
  moreover have u: "g_cap_cache (cap_cache_update domain cptr c r ts s) = (g_cap_cache s)(v :=
      \<lparr> cc_cptr = cptr, cc_cap_id = c, cc_rights = r, cc_domain = domain, cc_timestamp = ts, cc_valid = True \<rparr>)"
    by (simp add: cap_cache_update_def Let_def v_def)
  ultimately have "cache_hit domain cptr (cap_cache_update domain cptr c r ts s) = Some v"
    using assms by (auto simp: cache_hit_def u find_first_Some_iff find_first_None_iff CAP_CACHE_SIZE_def)
  then show ?thesis by (simp add: u)
qed

text \<open>
  C32. The cache is filled under the wrong key. After a lookup the entry is stored for what is left
  of the pointer when the path has been walked, so a following lookup of that remainder returns
  the capability found before, whether or not the remainder itself resolves to anything.
\<close>

theorem cptr_cache_wrong_key:
  assumes "resolves s (sp_root_cnode cs) cptr ms c rest" and "length ms \<le> CNODE_MAX_DEPTH" and "c < CAP_TABLE_SIZE"
    and "cache_hit (sp_owner cs) cptr s = None" and "cache_hit (sp_owner cs) rest s = None"
  shows "fst (cptr_lookup (Some cs) rest True True ts' (snd (cptr_lookup (Some cs) cptr True True ts s))) =
    Inr (c, Some (fold (AND) ms (ce_rights (xcap s c))))"
proof -
  let ?acc = "fold (AND) ms 0xFFFFFFFF" let ?r = "ce_rights (xcap s c) AND ?acc"
  have "cptr_walk CNODE_MAX_DEPTH (sp_root_cnode cs) cptr 0xFFFFFFFF s = Some (Inr (c, rest, ?acc))"
    unfolding cptr_walk_resolves using assms(1,2) by blast
  then have s': "snd (cptr_lookup (Some cs) cptr True True ts s) = cap_cache_update (sp_owner cs) rest c ?r ts s"
    using assms(3,4) by (simp add: cptr_lookup_def cap_cache_lookup_def Let_def not_le)
  have r: "?r = fold (AND) ms (ce_rights (xcap s c))"
  proof -
    have "(0xFFFFFFFF :: u32) = - 1" by simp
    then show ?thesis by (simp only: fold_AND_assoc and.right_neutral)
  qed
  show ?thesis
    unfolding s' r [symmetric] using cache_update_hit [OF assms(5), of c ?r ts]
    by (auto simp: cptr_lookup_def cap_cache_lookup_def)
qed

theorem cptr_cache_wrong_key_witness:
  "slot_step xs_ex2 2 0 = None \<and>
   fst (cptr_lookup (cspace_get 1 xs_ex1) 0 True True 6 (snd (cptr_lookup (cspace_get 1 xs_ex1) 1 True True 5 xs_ex2))) =
     Inr (1, Some 1)"
proof -
  let ?cs = "\<lparr> sp_root_cnode = 2, sp_owner = 1, sp_total_caps = 0, sp_max_depth = 0, sp_flags = 1 \<rparr>"
  have r: "resolves xs_ex2 2 1 [1] 1 0"
    using resolves.leaf [OF xs_ex2_step(1)] by (simp add: slot_is_cnode_def hic_consts)
  have "ce_rights (xcap xs_ex2 1) = 3" by (simp add: xs_ex2_facts(2) xs_ex1_facts ex_mem_table)
  then show ?thesis
    using cptr_cache_wrong_key [of xs_ex2 ?cs 1 "[1]" 1 0 6 5] r xs_ex2_step(2,3) xs_ex1_facts(9)
    by (simp add: hic_consts)
qed

section \<open>References counted in the child list\<close>

lemma revoke_children_null:
  assumes "\<And>k. i \<le> k \<Longrightarrow> k < i + n \<Longrightarrow> dv_children (deriv_at s cap) k = HIC_CAP_INVALID"
  shows "revoke_children f cap n i s = s"
  using assms
proof (induction n arbitrary: i)
  case 0
  then show ?case by simp
next
  case (Suc n)
  have "revoke_children f cap n (Suc i) s = s" using Suc.prems by (intro Suc.IH) simp
  then show ?case using Suc.prems [of i] by (simp add: Let_def)
qed

lemma cnode_insert_caps:
  assumes "cnode_insert n i p rmask s = (Inr u, s1)"
  shows "xs_caps s1 = upd_deriv p (\<lambda>d. d\<lparr> dv_child_count := dv_child_count d + 1 \<rparr>) (xs_caps s)"
  using assms by (auto simp: cnode_insert_def Let_def fault_def split: if_splits sum.splits option.splits)

text \<open>
  Insertion into a CNode counts in the child counter of the capability, without recording a
  child, and removal never counts down. Once the counter has reached the capacity of the list, a
  capability derived afterwards is not recorded and survives the revocation of its parent.
\<close>

lemma insertions_defeat_revocation:
  assumes ids: "cap_ids_ok (g_global_cap_table (xs_caps s))"
    and ins: "cnode_insert n i p rmask s = (Inr (), s1)"
    and full: "dv_child_count (deriv_at (xs_caps s) p) = 15"
    and none: "\<forall>k. k < 16 \<longrightarrow> dv_children (deriv_at (xs_caps s) p) k = HIC_CAP_INVALID"
    and dv: "cap_derive owner p r out_ok (xs_caps s1) = (Inr c, t)"
    and rv: "cap_revoke p t = (Inr u, t')"
  shows "capability_exists c t' \<and> ce_word0 (cap_at t' c) = ce_word0 (xcap s p) \<and> ce_rights (cap_at t' c) = r"
proof -
  let ?c1 = "xs_caps s1"
  note c1 = cnode_insert_caps [OF ins]
  have tab: "g_global_cap_table ?c1 = g_global_cap_table (xs_caps s)" by (simp add: c1)
  have room: "\<not> has_child_room p ?c1" using full by (simp add: has_child_room_def c1 hic_consts)
  let ?c = "first_slot (\<lambda>i. ce_id (g_global_cap_table ?c1 i) \<noteq> of_nat i) 0"
  have D: "ce_id (xcap s p) = p" "\<not> entry_revoked (xcap s p)" "c = ?c" "c \<noteq> HIC_CAP_INVALID"
    using dv by (auto simp: cap_derive_def Let_def tab split: if_splits)
  have "slot_opt ?c = Some (unat c)" using D(3,4) by (simp add: slot_opt_def)
  then have c: "1 \<le> unat c" "unat c < 2048" "ce_id (xcap s c) = 0"
    using derive_slots.pick_Some [OF ids] by (auto simp: tab)
  have p: "p \<noteq> 0" "unat p < 2048" "ce_id (cap_at t p) = p"
    using rv by (auto simp: cap_revoke_def HIC_CAP_INVALID_def cap_ge_iff split: if_splits)
  have ne: "unat c \<noteq> unat p" using c(3) D(1) p(1) by (auto simp: word_unat_eq_iff)
  have room': "\<not> has_child_room p (upd_cap x f (upd_cap x g ?c1))" for x f g
    using room by (simp add: has_child_room_def)
  have t: "cap_at t c = (xcap s c)\<lparr> ce_id := c, ce_rights := r, ce_owner := owner, ce_flags := 0,
      ce_word0 := ce_word0 (xcap s p),
      ce_word1 := set_byte 2 (lc_max_derived_policy (xcap s p)) (ce_word1 (xcap s p)) \<rparr>"
    "cap_at t p = xcap s p" "deriv_at t p = deriv_at ?c1 p"
    using dv ne room' D(3) by (auto simp: cap_derive_def Let_def tab split: if_splits)
  have "t' = cap_revoke_r (Suc 16) p t"
    using rv p D(2) t(2)
    by (simp add: cap_revoke_def cap_revoke_recursive_impl_def CAP_REVOKE_MAX_DEPTH_def HIC_CAP_INVALID_def cap_ge_iff)
  then have "t' = revoke_body (cap_revoke_r 16) p t"
    unfolding cap_revoke_r_Suc using p D(2) t(2) by (simp add: cap_ge_iff)
  moreover have "revoke_children (cap_revoke_r 16) p MAX_DERIVATIVES_PER_CAP 0 (set_revoked p t) = set_revoked p t"
    using none t(3) by (intro revoke_children_null) (simp add: set_revoked_def c1 MAX_DERIVATIVES_PER_CAP_def)
  ultimately have "cap_at t' c = cap_at t c"
    using ne by (simp add: revoke_body_def Let_def clear_cap_table set_revoked_def)
  then show ?thesis using t(1) c(2) by (simp add: capability_exists_def cap_ge_iff entry_revoked_def)
qed

text \<open>Inserting the page capability into slot 1 over and over.\<close>

definition ins_ex :: "nat \<Rightarrow> cspace_state" where
  "ins_ex k = ((\<lambda>s. snd (cnode_insert 2 1 1 1 s)) ^^ k) xs_ex1"

lemma ins_ex_Suc:
  "xs_caps (ins_ex k) = upd_deriv 1 (\<lambda>d. d\<lparr> dv_child_count := of_nat k \<rparr>) (xs_caps xs_ex1) \<and>
   pool_addr (ins_ex k) = 0x200000 \<and> cn_slot_count (cnode_mem (ins_ex k) 0) = 16 \<and>
   cnode_insert 2 1 1 1 (ins_ex k) = (Inr (), ins_ex (Suc k))"
proof (induction k)
  case 0
  have "dv_child_count (deriv_at (xs_caps xs_ex1) 1) = 0"
    by (simp add: xs_ex1_facts ex_mem_eq ex_boot_def cap_init_domain_key_def capability_system_init_def
        zero_derivative_def)
  then have "(deriv_at (xs_caps xs_ex1) 1)\<lparr> dv_child_count := 0 \<rparr> = deriv_at (xs_caps xs_ex1) 1"
    by (intro cap_derivative.equality) simp_all
  then have "upd_deriv 1 (\<lambda>d. d\<lparr> dv_child_count := 0 \<rparr>) (xs_caps xs_ex1) = xs_caps xs_ex1"
    by (intro cap_state.equality) (simp_all add: upd_deriv_def)
  then show ?case using xs_ex2_facts(1) by (simp add: ins_ex_def xs_ex1_facts)
next
  case (Suc k)
  let ?s = "ins_ex (Suc k)"
  from Suc have ins: "cnode_insert 2 1 1 1 (ins_ex k) = (Inr (), ?s)" by simp
  have caps: "xs_caps ?s = upd_deriv 1 (\<lambda>d. d\<lparr> dv_child_count := of_nat (Suc k) \<rparr>) (xs_caps xs_ex1)"
    using cnode_insert_caps [OF ins] Suc by (simp add: upd_deriv_def add.commute)
  have lt: "\<not> CAP_TABLE_SIZE \<le> (1 :: u32)" "\<not> CAP_TABLE_SIZE \<le> (2 :: u32)" by (simp_all add: cap_ge_iff)
  have op: "open_cnode 2 HIC_ERROR_CAP_INVALID s = Inr (Some 0)"
    if "pool_addr s = 0x200000" "g_global_cap_table (xs_caps s) = g_global_cap_table (xs_caps xs_ex1)" for s
    using that by (simp add: open_cnode_def xs_ex1_facts cap_is_cnode_def CAP_CNODE_def block_of_def
        CNODE_BLOCK_SIZE_def CNODE_POOL_SIZE_def)
  have "?s = upd_xcaps (upd_deriv 1 (\<lambda>d. d\<lparr> dv_child_count := dv_child_count d + 1 \<rparr>))
      (upd_slot 0 1 (\<lambda>sl. sl\<lparr> sl_cap_id := 1, sl_rights_mask := 1, sl_flags := CNODE_SLOT_VALID \<rparr>) (ins_ex k))"
    using ins Suc op [of "ins_ex k"]
    by (auto simp: cnode_insert_def Let_def lt xs_ex1_facts ex_mem_table cap_is_cnode_def CAP_CNODE_def split: if_splits)
  then have rest: "pool_addr ?s = 0x200000" "cn_slot_count (cnode_mem ?s 0) = 16" using Suc by simp_all
  have "cnode_insert 2 1 1 1 ?s = (Inr (), snd (cnode_insert 2 1 1 1 ?s))"
    using rest caps op [of ?s]
    by (simp add: cnode_insert_def Let_def lt xs_ex1_facts ex_mem_table cap_is_cnode_def CAP_CNODE_def)
  moreover have "snd (cnode_insert 2 1 1 1 ?s) = ins_ex (Suc (Suc k))" by (simp add: ins_ex_def)
  ultimately show ?case using caps rest by simp
qed

lemma insertions_defeat_revocation_witness:
  "\<exists>t t'. cap_derive 1 1 1 True (xs_caps (ins_ex 16)) = (Inr 3, t) \<and> cap_revoke 1 t = (Inr (), t') \<and>
     capability_exists 3 t'"
proof -
  let ?s = "ins_ex 15"
  have ins: "cnode_insert 2 1 1 1 ?s = (Inr (), ins_ex 16)" and
    caps: "xs_caps (ins_ex k) = upd_deriv 1 (\<lambda>d. d\<lparr> dv_child_count := of_nat k \<rparr>) (xs_caps xs_ex1)" for k
    using ins_ex_Suc [of 15] ins_ex_Suc [of k] by simp_all
  have tab: "g_global_cap_table (xs_caps (ins_ex k)) i = (if i = 2 then \<lparr> ce_id = 2, ce_rights = CAP_CNODE, ce_owner = 1,
      ce_flags = 0, ce_word0 = 0x200000, ce_word1 = 280 \<rparr> else g_global_cap_table ex_mem i)" for k i
    by (simp add: caps xs_ex1_facts ex_mem_table zero_cap_entry_def)
  have ids: "cap_ids_ok (g_global_cap_table (xs_caps ?s))"
    by (simp add: cap_ids_ok_def tab ex_mem_table zero_cap_entry_def)
  have ch: "dv_children (deriv_at (xs_caps ?s) 1) k = HIC_CAP_INVALID" "dv_child_count (deriv_at (xs_caps ?s) 1) = 15" for k
    by (simp_all add: caps xs_ex1_facts ex_mem_eq ex_boot_def cap_init_domain_key_def capability_system_init_def
        zero_derivative_def hic_consts)
  have "find_first (\<lambda>i. ce_id (g_global_cap_table (xs_caps (ins_ex 16)) i) \<noteq> of_nat i) 0 2048 = Some 3"
  proof -
    have "ce_id (g_global_cap_table (xs_caps (ins_ex 16)) k) = of_nat k" if "k < 3" for k
    proof -
      consider "k = 0" | "k = 1" | "k = 2" using \<open>k < 3\<close> by linarith
      then show ?thesis by cases (simp_all add: tab ex_mem_table zero_cap_entry_def)
    qed
    then show ?thesis by (simp add: find_first_Some_iff) (simp add: tab ex_mem_table zero_cap_entry_def)
  qed
  then have "first_slot (\<lambda>i. ce_id (g_global_cap_table (xs_caps (ins_ex 16)) i) \<noteq> of_nat i) 0 = 3"
    by (simp add: first_slot_def)
  then obtain t where dv: "cap_derive 1 1 1 True (xs_caps (ins_ex 16)) = (Inr 3, t)"
    by (simp add: cap_derive_def Let_def dom1 cap_ge_iff tab ex_mem_table entry_revoked_def HIC_CAP_INVALID_def)
  have "ce_id (cap_at t 1) = 1"
    using dv by (auto simp: cap_derive_def Let_def tab ex_mem_table split: if_splits)
  then have rv: "cap_revoke 1 t = (Inr (), snd (cap_revoke 1 t))"
    using cap_revoke_succeeds [of 1 t] by (simp add: prod_eq_iff)
  have "capability_exists 3 (snd (cap_revoke 1 t))"
    using insertions_defeat_revocation [OF ids ins ch(2) _ dv rv] ch(1) by blast
  with dv rv show ?thesis by blast
qed

end
