(* ===== verification/Hic_Lib.thy ===== *)
theory Hic_Lib
  imports Hic_Prelude
begin

text \<open>
  The kernel's memory and string routines, \<^verbatim>\<open>Core-0/lib/mem.c\<close> and \<^verbatim>\<open>Core-0/lib/string.c\<close>, over
  a flat memory of bytes in which addresses wrap at 64 bits. A loop that ends at a terminating
  zero byte is a \<open>partial_function\<close>: \<open>None\<close> means that it never ends. A loop that counts down is
  total.
\<close>

type_synonym mem = "u64 \<Rightarrow> u8"

section \<open>Memory routines\<close>

text \<open>The bodies of the counting loops: \<^verbatim>\<open>p[i] = v\<close> and \<^verbatim>\<open>d[i] = s[i]\<close>.\<close>

definition set_at :: "u64 \<Rightarrow> u8 \<Rightarrow> nat \<Rightarrow> mem \<Rightarrow> mem" where
  "set_at p v i m = m(p + of_nat i := v)"

definition copy_at :: "u64 \<Rightarrow> u64 \<Rightarrow> nat \<Rightarrow> mem \<Rightarrow> mem" where
  "copy_at d src i m = m(d + of_nat i := m (src + of_nat i))"

definition memzero :: "u64 \<Rightarrow> u64 \<Rightarrow> mem \<Rightarrow> mem" where
  "memzero p len = for_range (set_at p 0) 0 (unat len)"

definition memset :: "u64 \<Rightarrow> u32 \<Rightarrow> u64 \<Rightarrow> mem \<Rightarrow> mem" where
  "memset p value len = for_range (set_at p (ucast value)) 0 (unat len)"

definition memcopy :: "u64 \<Rightarrow> u64 \<Rightarrow> u64 \<Rightarrow> mem \<Rightarrow> mem" where
  "memcopy dest src len = for_range (copy_at dest src) 0 (unat len)"

definition memcpy :: "u64 \<Rightarrow> u64 \<Rightarrow> u64 \<Rightarrow> mem \<Rightarrow> mem" where
  "memcpy dest src n = for_range (copy_at dest src) 0 (unat n)"

primrec copy_backward :: "u64 \<Rightarrow> u64 \<Rightarrow> nat \<Rightarrow> mem \<Rightarrow> mem" where
  "copy_backward dest src 0 m = m"
| "copy_backward dest src (Suc i) m =
     copy_backward dest src i (copy_at dest src i m)"

definition memmove :: "u64 \<Rightarrow> u64 \<Rightarrow> u64 \<Rightarrow> mem \<Rightarrow> mem" where
  "memmove dest src len m =
     (if dest < src then for_range (copy_at dest src) 0 (unat len) m
      else if dest > src then copy_backward dest src (unat len) m
      else m)"

primrec memcmp_loop :: "mem \<Rightarrow> u64 \<Rightarrow> u64 \<Rightarrow> nat \<Rightarrow> nat \<Rightarrow> int" where
  "memcmp_loop m p1 p2 0 i = 0"
| "memcmp_loop m p1 p2 (Suc n) i =
     (if m (p1 + of_nat i) < m (p2 + of_nat i) then -1
      else if m (p1 + of_nat i) > m (p2 + of_nat i) then 1
      else memcmp_loop m p1 p2 n (Suc i))"

definition memcmp :: "mem \<Rightarrow> u64 \<Rightarrow> u64 \<Rightarrow> u64 \<Rightarrow> int" where
  "memcmp m p1 p2 len = memcmp_loop m p1 p2 (unat len) 0"

definition swap16 :: "u16 \<Rightarrow> u16" where
  "swap16 v = push_bit 8 (v AND 0xFF) OR (drop_bit 8 v AND 0xFF)"

definition swap32 :: "u32 \<Rightarrow> u32" where
  "swap32 v =
     push_bit 24 (v AND 0xFF) OR push_bit 8 (v AND 0xFF00) OR
     (drop_bit 8 v AND 0xFF00) OR (drop_bit 24 v AND 0xFF)"

definition swap64 :: "u64 \<Rightarrow> u64" where
  "swap64 v =
     push_bit 56 (v AND 0xFF) OR push_bit 40 (v AND 0xFF00) OR
     push_bit 24 (v AND 0xFF0000) OR push_bit 8 (v AND 0xFF000000) OR
     (drop_bit 8 v AND 0xFF000000) OR (drop_bit 24 v AND 0xFF0000) OR
     (drop_bit 40 v AND 0xFF00) OR (drop_bit 56 v AND 0xFF)"

definition align_up :: "u64 \<Rightarrow> u64 \<Rightarrow> u64" where
  "align_up v alignment = (v + alignment - 1) AND NOT (alignment - 1)"

definition align_down :: "u64 \<Rightarrow> u64 \<Rightarrow> u64" where
  "align_down v alignment = v AND NOT (alignment - 1)"

section \<open>String routines\<close>

definition SIZE_MAX :: u64 where
  [hic_consts]: "SIZE_MAX = 0xFFFFFFFFFFFFFFFF"

partial_function (option) strlen_loop :: "mem \<Rightarrow> u64 \<Rightarrow> u64 \<Rightarrow> u64 option" where
  "strlen_loop m str len =
     (if m (str + len) \<noteq> 0 then strlen_loop m str (len + 1) else Some len)"

definition strlen :: "mem \<Rightarrow> u64 \<Rightarrow> u64 option" where
  "strlen m str = strlen_loop m str 0"

partial_function (option) strcmp :: "mem \<Rightarrow> u64 \<Rightarrow> u64 \<Rightarrow> int option" where
  "strcmp m s1 s2 =
     (if m s1 \<noteq> 0 \<and> m s1 = m s2 then strcmp m (s1 + 1) (s2 + 1)
      else Some (uint (m s1) - uint (m s2)))"

text \<open>In \<^verbatim>\<open>while (n-- && \<dots>)\<close> the count is decremented also by the test that ends the loop.\<close>

function strncmp :: "mem \<Rightarrow> u64 \<Rightarrow> u64 \<Rightarrow> u64 \<Rightarrow> int" where
  "strncmp m s1 s2 n =
     (if n \<noteq> 0 \<and> m s1 \<noteq> 0 \<and> m s1 = m s2 then strncmp m (s1 + 1) (s2 + 1) (n - 1)
      else if n - 1 = SIZE_MAX then 0 else uint (m s1) - uint (m s2))"
  by pat_completeness auto
termination by (relation "measure (\<lambda>(m, s1, s2, n). unat n)") (auto simp: unat_minus_one unat_gt_0)

partial_function (option) strcpy_loop :: "u64 \<Rightarrow> u64 \<Rightarrow> mem \<Rightarrow> mem option" where
  "strcpy_loop d src m =
     (let m' = m(d := m src)
      in if m src \<noteq> 0 then strcpy_loop (d + 1) (src + 1) m' else Some m')"

definition strcpy :: "u64 \<Rightarrow> u64 \<Rightarrow> mem \<Rightarrow> mem option" where
  "strcpy dest src = strcpy_loop dest src"

text \<open>The first loop of \<open>strncpy\<close> yields the memory, the write position and the count left.\<close>

function strncpy_copy :: "u64 \<Rightarrow> u64 \<Rightarrow> u64 \<Rightarrow> mem \<Rightarrow> mem \<times> u64 \<times> u64" where
  "strncpy_copy d src n m =
     (if n \<noteq> 0 then
        (let m' = m(d := m src)
         in if m src \<noteq> 0 then strncpy_copy (d + 1) (src + 1) (n - 1) m' else (m', d + 1, n - 1))
      else (m, d, n - 1))"
  by pat_completeness auto
termination by (relation "measure (\<lambda>(d, src, n, m). unat n)") (auto simp: unat_minus_one unat_gt_0)

definition strncpy :: "u64 \<Rightarrow> u64 \<Rightarrow> u64 \<Rightarrow> mem \<Rightarrow> mem" where
  "strncpy dest src n m =
     (case strncpy_copy dest src n m of
        (m', d, n') \<Rightarrow> for_range (set_at d 0) 0 (unat n') m')"

definition strcat :: "u64 \<Rightarrow> u64 \<Rightarrow> mem \<Rightarrow> mem option" where
  "strcat dest src m =
     (case strlen m dest of None \<Rightarrow> None | Some len \<Rightarrow> strcpy_loop (dest + len) src m)"

definition strncat :: "u64 \<Rightarrow> u64 \<Rightarrow> u64 \<Rightarrow> mem \<Rightarrow> mem option" where
  "strncat dest src n m =
     (case strlen m dest of
        None \<Rightarrow> None
      | Some len \<Rightarrow> (case strncpy_copy (dest + len) src n m of (m', d, _) \<Rightarrow> Some (m'(d := 0))))"

text \<open>The result of a search is an address, or \<open>NULL\<close>.\<close>

partial_function (option) strchr :: "mem \<Rightarrow> u64 \<Rightarrow> u8 \<Rightarrow> u64 option" where
  "strchr m str c =
     (if m str \<noteq> 0 then if m str = c then Some str else strchr m (str + 1) c else Some 0)"

partial_function (option) strrchr_loop :: "mem \<Rightarrow> u64 \<Rightarrow> u8 \<Rightarrow> u64 \<Rightarrow> u64 option" where
  "strrchr_loop m str c found =
     (if m str \<noteq> 0 then strrchr_loop m (str + 1) c (if m str = c then str else found) else Some found)"

definition strrchr :: "mem \<Rightarrow> u64 \<Rightarrow> u8 \<Rightarrow> u64 option" where
  "strrchr m str c = strrchr_loop m str c 0"

text \<open>One attempt of \<open>strstr\<close>: does the needle match at \<open>h\<close>?\<close>

partial_function (option) strstr_at :: "mem \<Rightarrow> u64 \<Rightarrow> u64 \<Rightarrow> bool option" where
  "strstr_at m h n = (if m n \<noteq> 0 \<and> m h = m n then strstr_at m (h + 1) (n + 1) else Some (m n = 0))"

partial_function (option) strstr_loop :: "mem \<Rightarrow> u64 \<Rightarrow> u64 \<Rightarrow> u64 option" where
  "strstr_loop m haystack needle =
     (if m haystack \<noteq> 0 then
        Option.bind (strstr_at m haystack needle)
          (\<lambda>found. if found then Some haystack else strstr_loop m (haystack + 1) needle)
      else Some 0)"

definition strstr :: "mem \<Rightarrow> u64 \<Rightarrow> u64 \<Rightarrow> u64 option" where
  "strstr m haystack needle =
     (if m needle = 0 then Some haystack else strstr_loop m haystack needle)"

text \<open>The conditional equations of the counting loops are unfolded by hand.\<close>

declare strncmp.simps [simp del] strncpy_copy.simps [simp del]

lemma unat_Suc_pred: "n \<noteq> 0 \<Longrightarrow> unat n = Suc (unat (n - 1 :: u64))"
  by (simp add: unat_minus_one unat_gt_0)

section \<open>Strings in memory\<close>

text \<open>\<open>cstr m p xs\<close>: at \<open>p\<close> the memory holds the non-zero bytes \<open>xs\<close> and then a zero byte.\<close>

fun cstr :: "mem \<Rightarrow> u64 \<Rightarrow> u8 list \<Rightarrow> bool" where
  "cstr m p [] \<longleftrightarrow> m p = 0"
| "cstr m p (x # xs) \<longleftrightarrow> x \<noteq> 0 \<and> m p = x \<and> cstr m (p + 1) xs"

lemma strlen_loop_cstr:
  "cstr m (str + len) xs \<Longrightarrow> strlen_loop m str len = Some (len + of_nat (length xs))"
proof (induction xs arbitrary: len)
  case Nil
  then show ?case by (subst strlen_loop.simps) simp
next
  case (Cons x xs)
  then show ?case by (subst strlen_loop.simps) (simp add: add.assoc)
qed

lemma strlen_cstr: "cstr m p xs \<Longrightarrow> strlen m p = Some (of_nat (length xs))"
  unfolding strlen_def using strlen_loop_cstr [of m p 0 xs] by simp

fun bytes_cmp :: "u8 list \<Rightarrow> u8 list \<Rightarrow> int" where
  "bytes_cmp [] [] = 0"
| "bytes_cmp [] (y # ys) = - uint y"
| "bytes_cmp (x # xs) [] = uint x"
| "bytes_cmp (x # xs) (y # ys) = (if x = y then bytes_cmp xs ys else uint x - uint y)"

lemma strcmp_cstr: "cstr m p xs \<Longrightarrow> cstr m q ys \<Longrightarrow> strcmp m p q = Some (bytes_cmp xs ys)"
proof (induction xs ys arbitrary: p q rule: bytes_cmp.induct)
  case (4 x xs y ys)
  then show ?case by (subst strcmp.simps) auto
qed (subst strcmp.simps, simp)+

lemma cstr_nonzero: "cstr m p xs \<Longrightarrow> 0 \<notin> set xs"
  by (induction xs arbitrary: p) auto

lemma bytes_cmp_eq_0: "0 \<notin> set xs \<Longrightarrow> 0 \<notin> set ys \<Longrightarrow> bytes_cmp xs ys = 0 \<longleftrightarrow> xs = ys"
proof (induction xs ys rule: bytes_cmp.induct)
  case (2 y ys)
  then show ?case by (auto simp: uint_0_iff)
next
  case (3 x xs)
  then show ?case by (auto simp: uint_0_iff)
next
  case (4 x xs y ys)
  then show ?case by (auto simp: word_uint_eq_iff)
qed simp

lemma SIZE_MAX_minus: "SIZE_MAX = - 1"
  by (simp add: hic_consts)

lemma strncmp_cstr:
  assumes "cstr m p xs" and "cstr m q ys"
  shows "strncmp m p q n = bytes_cmp (take (unat n) xs) (take (unat n) ys)"
  using assms
proof (induction xs ys arbitrary: p q n rule: bytes_cmp.induct)
  case (4 x xs y ys)
  show ?case
  proof (cases "n = 0")
    case True
    then show ?thesis by (subst strncmp.simps) (simp add: SIZE_MAX_minus)
  next
    case False
    then obtain k where k: "unat n = Suc k" "unat (n - 1) = k"
      using unat_Suc_pred [of n] by auto
    have "n - 1 \<noteq> SIZE_MAX" using False by (simp add: SIZE_MAX_minus)
    then show ?thesis using 4 False k by (subst strncmp.simps) auto
  qed
qed (subst strncmp.simps, auto simp: SIZE_MAX_minus take_Cons' unat_eq_0)+

section \<open>Writing\<close>

fun write_bytes :: "u64 \<Rightarrow> u8 list \<Rightarrow> mem \<Rightarrow> mem" where
  "write_bytes d [] m = m"
| "write_bytes d (x # xs) m = write_bytes (d + 1) xs (m(d := x))"

text \<open>\<open>apart d n p k\<close>: the \<open>n\<close> bytes from \<open>d\<close> and the \<open>k\<close> bytes from \<open>p\<close> do not overlap.\<close>

definition apart :: "u64 \<Rightarrow> nat \<Rightarrow> u64 \<Rightarrow> nat \<Rightarrow> bool" where
  "apart d n p k \<longleftrightarrow> (\<forall>i j. i < n \<longrightarrow> j < k \<longrightarrow> d + of_nat i \<noteq> p + of_nat j)"

lemma apart_Suc:
  assumes "apart d (Suc n) p (Suc k)"
  shows "apart (d + 1) n (p + 1) k"
  unfolding apart_def
proof (intro allI impI)
  fix i j assume "i < n" and "j < k"
  then have "d + of_nat (Suc i) \<noteq> p + of_nat (Suc j)" using assms unfolding apart_def by blast
  then show "d + 1 + of_nat i \<noteq> p + 1 + of_nat j" by (simp add: algebra_simps)
qed

lemma cstr_upd:
  assumes "cstr m p xs" and "\<And>j. j \<le> length xs \<Longrightarrow> a \<noteq> p + of_nat j"
  shows "cstr (m(a := v)) p xs"
  using assms
proof (induction xs arbitrary: p)
  case Nil
  then show ?case using Nil.prems(2) [of 0] by simp
next
  case (Cons x xs)
  have "a \<noteq> p + 1 + of_nat j" if "j \<le> length xs" for j
    using Cons.prems(2) [of "Suc j"] that by (simp add: algebra_simps)
  then show ?case using Cons Cons.prems(2) [of 0] by simp
qed

lemma cstr_tail_upd:
  assumes "cstr m p (x # xs)" and "apart d (Suc n) p (Suc (Suc (length xs)))"
  shows "cstr (m(d := v)) (p + 1) xs"
proof (rule cstr_upd)
  fix j assume "j \<le> length xs"
  then have "d + of_nat 0 \<noteq> p + of_nat (Suc j)"
    using assms(2) [unfolded apart_def, rule_format, of 0 "Suc j"] by simp
  then show "d \<noteq> p + 1 + of_nat j" by (simp add: algebra_simps)
qed (use assms(1) in simp)

lemma strncpy_copy_fits:
  assumes "cstr m src xs" and "length xs < unat n" and "apart d (unat n) src (Suc (length xs))"
  shows "strncpy_copy d src n m =
    (write_bytes d (xs @ [0]) m, d + of_nat (Suc (length xs)), n - of_nat (Suc (length xs)))"
  using assms
proof (induction xs arbitrary: d src n m)
  case Nil
  then show ?case by (subst strncpy_copy.simps) auto
next
  case (Cons x xs)
  then have "n \<noteq> 0" by auto
  then obtain k where k: "unat n = Suc k" "unat (n - 1) = k"
    using unat_Suc_pred [of n] by auto
  have "strncpy_copy (d + 1) (src + 1) (n - 1) (m(d := x)) =
      (write_bytes (d + 1) (xs @ [0]) (m(d := x)), d + 1 + of_nat (Suc (length xs)), n - 1 - of_nat (Suc (length xs)))"
  proof (rule Cons.IH)
    show "cstr (m(d := x)) (src + 1) xs"
      using cstr_tail_upd [OF Cons.prems(1)] Cons.prems(3) k(1) by simp
    show "apart (d + 1) (unat (n - 1)) (src + 1) (Suc (length xs))"
      using apart_Suc Cons.prems(3) k by simp
  qed (use Cons.prems(2) k in simp)
  then show ?case using Cons.prems k by (subst strncpy_copy.simps) (auto simp: algebra_simps Let_def)
qed

lemma strncpy_copy_truncates:
  assumes "cstr m src xs" and "unat n \<le> length xs" and "apart d (unat n) src (Suc (length xs))"
  shows "strncpy_copy d src n m = (write_bytes d (take (unat n) xs) m, d + n, - 1)"
  using assms
proof (induction xs arbitrary: d src n m)
  case Nil
  then show ?case by (subst strncpy_copy.simps) (simp add: unat_eq_0)
next
  case (Cons x xs)
  show ?case
  proof (cases "n = 0")
    case True
    then show ?thesis by (subst strncpy_copy.simps) simp
  next
    case False
    then obtain k where k: "unat n = Suc k" "unat (n - 1) = k"
      using unat_Suc_pred [of n] by auto
    have "strncpy_copy (d + 1) (src + 1) (n - 1) (m(d := x)) =
        (write_bytes (d + 1) (take (unat (n - 1)) xs) (m(d := x)), d + 1 + (n - 1), - 1)"
    proof (rule Cons.IH)
      show "cstr (m(d := x)) (src + 1) xs"
        using cstr_tail_upd [OF Cons.prems(1)] Cons.prems(3) k(1) by simp
      show "apart (d + 1) (unat (n - 1)) (src + 1) (Suc (length xs))"
        using apart_Suc Cons.prems(3) k by simp
    qed (use Cons.prems(2) k in simp)
    then show ?thesis using Cons.prems k False by (subst strncpy_copy.simps) (auto simp: Let_def)
  qed
qed

lemma set_range:
  "for_range (set_at d v) 0 k m a = (if \<exists>i<k. a = d + of_nat i then v else m a)"
proof (induction k)
  case (Suc k)
  then show ?case by (auto simp: for_range_snoc set_at_def less_Suc_eq simp del: for_range.simps(2))
qed simp

lemma write_bytes_outside:
  assumes "\<And>i. i < length xs \<Longrightarrow> a \<noteq> d + of_nat i"
  shows "write_bytes d xs m a = m a"
  using assms
proof (induction xs arbitrary: d m)
  case (Cons x xs)
  have "a \<noteq> d + 1 + of_nat i" if "i < length xs" for i
    using Cons.prems [of "Suc i"] that by (simp add: algebra_simps)
  then show ?case using Cons.IH Cons.prems [of 0] by simp
qed simp

lemma add_of_nat_cancel:
  fixes d :: u64
  assumes "i < 2 ^ 64" and "j < 2 ^ 64"
  shows "d + of_nat i = d + of_nat j \<longleftrightarrow> i = j"
  using assms by (simp add: word_of_nat_eq_iff take_bit_nat_eq_self)

lemma write_bytes_nth:
  assumes "i < length xs" and "length xs \<le> 2 ^ 64"
  shows "write_bytes d xs m (d + of_nat i) = xs ! i"
  using assms
proof (induction xs arbitrary: d m i)
  case (Cons x xs)
  show ?case
  proof (cases i)
    case 0
    have "d \<noteq> d + 1 + of_nat j" if "j < length xs" for j
      using add_of_nat_cancel [of 0 "Suc j" d] that Cons.prems by (simp add: algebra_simps)
    then show ?thesis using 0 by (simp add: write_bytes_outside)
  next
    case (Suc j)
    then show ?thesis using Cons.IH [of j "d + 1"] Cons.prems by (simp add: algebra_simps)
  qed
qed simp

section \<open>Copying\<close>

lemma addr_eq_iff:
  fixes p q :: u64
  assumes "unat p + i < 2 ^ 64" and "unat q + j < 2 ^ 64"
  shows "p + of_nat i = q + of_nat j \<longleftrightarrow> unat p + i = unat q + j"
proof -
  have "unat (p + of_nat i) = unat p + i" and "unat (q + of_nat j) = unat q + j"
    using assms by (simp_all add: unat_word_ariths unat_of_nat)
  then show ?thesis by (simp add: word_unat_eq_iff)
qed

definition moved :: "u64 \<Rightarrow> u64 \<Rightarrow> nat \<Rightarrow> mem \<Rightarrow> mem" where
  "moved dest src n m a = (if \<exists>i<n. a = dest + of_nat i then m (src + (a - dest)) else m a)"

lemma copy_forward:
  assumes "unat dest \<le> unat src" and "unat src + n \<le> 2 ^ 64"
  shows "for_range (copy_at dest src) 0 n m = moved dest src n m"
  using assms(2)
proof (induction n)
  case 0
  then show ?case by (auto simp: moved_def)
next
  case (Suc n)
  have not_yet: "moved dest src n m (src + of_nat n) = m (src + of_nat n)"
  proof (cases "dest = src")
    case True
    then show ?thesis by (simp add: moved_def)
  next
    case False
    then have "unat dest < unat src" using assms(1) by (simp add: word_unat_eq_iff order_less_le)
    then have "src + of_nat n \<noteq> dest + of_nat i" if "i < n" for i
      using addr_eq_iff [of src n dest i] Suc.prems that by simp
    then show ?thesis by (auto simp: moved_def)
  qed
  have "for_range (copy_at dest src) 0 (Suc n) m = copy_at dest src n (moved dest src n m)"
    using Suc by (simp add: for_range_snoc del: for_range.simps(2))
  also have "\<dots> = moved dest src (Suc n) m"
    using not_yet by (auto simp: copy_at_def moved_def less_Suc_eq fun_eq_iff)
  finally show ?case .
qed

lemma copy_backward_moved:
  assumes "unat src < unat dest" and "unat dest + n \<le> 2 ^ 64"
  shows "copy_backward dest src n m = moved dest src n m"
  using assms(2)
proof (induction n arbitrary: m)
  case 0
  then show ?case by (auto simp: moved_def)
next
  case (Suc n)
  have apart_n: "src + of_nat i \<noteq> dest + of_nat n" if "i < n" for i
    using addr_eq_iff [of src i dest n] Suc.prems assms(1) that by simp
  have neq: "dest + of_nat n \<noteq> dest + of_nat i" if "i < n" for i
    using addr_eq_iff [of dest n dest i] Suc.prems that by simp
  have "moved dest src n (copy_at dest src n m) = moved dest src (Suc n) m"
    using apart_n neq by (auto simp: copy_at_def moved_def less_Suc_eq fun_eq_iff)
  then show ?case using Suc by simp
qed

text \<open>
  C34. \<open>memmove\<close> copies as if through a buffer, also when the two ranges overlap: for ranges
  that do not run over the end of the address space, byte \<open>i\<close> of the destination afterwards is
  byte \<open>i\<close> of the source before, and no other byte changes.
\<close>

theorem memmove_overlap:
  assumes "unat dest + unat len \<le> 2 ^ 64" and "unat src + unat len \<le> 2 ^ 64"
  shows "(\<forall>i. i < unat len \<longrightarrow> memmove dest src len m (dest + of_nat i) = m (src + of_nat i)) \<and>
    (\<forall>a. (\<forall>i. i < unat len \<longrightarrow> a \<noteq> dest + of_nat i) \<longrightarrow> memmove dest src len m a = m a)"
proof -
  have "memmove dest src len m = moved dest src (unat len) m"
  proof (cases "dest = src")
    case True
    then show ?thesis by (auto simp: memmove_def moved_def)
  next
    case False
    then show ?thesis
      using copy_forward [of dest src] copy_backward_moved [of src dest] assms
      by (auto simp: memmove_def word_less_nat_alt not_less word_unat_eq_iff)
  qed
  then show ?thesis by (auto simp: moved_def)
qed

theorem memmove_overlap_witness:
  "memmove 0x11 0x10 4 (\<lambda>a. ucast a) (0x11 + of_nat 3) = 0x13"
proof -
  have "\<forall>i. i < unat (4 :: u64) \<longrightarrow>
      memmove 0x11 0x10 4 (\<lambda>a. ucast a) (0x11 + of_nat i) = ucast (0x10 + of_nat i :: u64)"
    using memmove_overlap [of "0x11" 4 "0x10" "\<lambda>a. ucast a"] by simp
  from this [rule_format, of 3] show ?thesis by simp
qed

section \<open>Strings: comparison and bounded copy\<close>

text \<open>
  C35. On terminated strings \<open>strlen\<close> returns the length and \<open>strcmp\<close> and \<open>strncmp\<close> return, and
  return 0 exactly for equal strings, respectively equal prefixes of \<open>n\<close> bytes.
\<close>

theorem string_comparison:
  assumes "cstr m p xs" and "cstr m q ys"
  shows "strlen m p = Some (of_nat (length xs)) \<and>
    (\<exists>r. strcmp m p q = Some r \<and> (r = 0 \<longleftrightarrow> xs = ys)) \<and>
    (strncmp m p q n = 0 \<longleftrightarrow> take (unat n) xs = take (unat n) ys)"
proof -
  have nz: "0 \<notin> set xs" "0 \<notin> set ys" using assms cstr_nonzero by blast+
  then have "0 \<notin> set (take (unat n) xs)" "0 \<notin> set (take (unat n) ys)"
    by (auto dest: in_set_takeD)
  then show ?thesis
    using strlen_cstr [OF assms(1)] strcmp_cstr [OF assms] strncmp_cstr [OF assms] nz
    by (simp add: bytes_cmp_eq_0)
qed

definition mem_abc :: mem where
  "mem_abc = (\<lambda>_. 0)(0x100 := 97, 0x101 := 98, 0x102 := 99)"

theorem string_comparison_witness:
  "strlen mem_abc 0x100 = Some 3 \<and> (\<exists>r. strcmp mem_abc 0x100 0x101 = Some r \<and> r \<noteq> 0)"
proof -
  have "cstr mem_abc 0x100 [97, 98, 99]" "cstr mem_abc 0x101 [98, 99]"
    by (simp_all add: mem_abc_def)
  from string_comparison [OF this, of 0] show ?thesis by auto
qed

text \<open>
  \<open>strncpy\<close> does what its standard says as long as the source is shorter than \<open>n\<close>: the
  destination holds the string padded with zeros to \<open>n\<close> bytes and nothing else changes.
\<close>

lemma strncpy_short_source:
  assumes "cstr m src xs" and "length xs < unat n" and "apart dest (unat n) src (Suc (length xs))"
  shows "(\<forall>i. i < unat n \<longrightarrow>
      strncpy dest src n m (dest + of_nat i) = (if i < length xs then xs ! i else 0)) \<and>
    (\<forall>a. (\<forall>i. i < unat n \<longrightarrow> a \<noteq> dest + of_nat i) \<longrightarrow> strncpy dest src n m a = m a)"
proof -
  let ?l = "Suc (length xs)"
  have n64: "unat n < 2 ^ 64" using unsigned_less [of n] by simp
  have le: "of_nat ?l \<le> n" using assms(2) n64 by (simp add: word_le_nat_alt unat_of_nat del: of_nat_Suc)
  have rest: "unat (n - of_nat ?l) = unat n - ?l"
    using assms(2) n64 by (subst unat_sub [OF le]) (simp add: unat_of_nat del: of_nat_Suc)
  have eq: "strncpy dest src n m = for_range (set_at (dest + of_nat ?l) 0) 0 (unat n - ?l) (write_bytes dest (xs @ [0]) m)"
    unfolding strncpy_def strncpy_copy_fits [OF assms] by (simp only: prod.case rest)
  have cancel: "dest + of_nat i = dest + of_nat ?l + of_nat j \<longleftrightarrow> i = ?l + j" if "i < unat n" "j < unat n - ?l" for i j
    using add_of_nat_cancel [of i "?l + j" dest] that n64 by (simp add: algebra_simps)
  show ?thesis
  proof (intro conjI allI impI)
    fix i assume i: "i < unat n"
    show "strncpy dest src n m (dest + of_nat i) = (if i < length xs then xs ! i else 0)"
    proof (cases "i < ?l")
      case True
      then have "write_bytes dest (xs @ [0]) m (dest + of_nat i) = (xs @ [0]) ! i"
        using assms(2) n64 by (intro write_bytes_nth) auto
      moreover have "\<nexists>j. j < unat n - ?l \<and> dest + of_nat i = dest + of_nat ?l + of_nat j"
        using True cancel [OF i] by auto
      ultimately show ?thesis using True by (auto simp: eq set_range nth_append less_Suc_eq simp del: of_nat_Suc)
    next
      case False
      then have "\<exists>j<unat n - ?l. dest + of_nat i = dest + of_nat ?l + of_nat j"
        using cancel [OF i, of "i - ?l"] i by (intro exI [of _ "i - ?l"]) auto
      then show ?thesis using False by (auto simp: eq set_range)
    qed
  next
    fix a assume a: "\<forall>i. i < unat n \<longrightarrow> a \<noteq> dest + of_nat i"
    have "a \<noteq> dest + of_nat ?l + of_nat j" if "j < unat n - ?l" for j
      using a [rule_format, of "?l + j"] that by (simp add: algebra_simps)
    moreover have "write_bytes dest (xs @ [0]) m a = m a"
      using a assms(2) by (intro write_bytes_outside) simp
    ultimately show "strncpy dest src n m a = m a" by (auto simp: eq set_range)
  qed
qed

lemma strncpy_short_source_witness:
  "strncpy 0x200 0x100 8 mem_abc (0x200 + of_nat 2) = 99 \<and> strncpy 0x200 0x100 8 mem_abc (0x200 + of_nat 7) = 0"
proof -
  have "cstr mem_abc 0x100 [97, 98, 99]" by (simp add: mem_abc_def)
  moreover have "apart 0x200 (unat (8 :: u64)) 0x100 (Suc (length [97 :: u8, 98, 99]))"
    unfolding apart_def by (auto simp: addr_eq_iff)
  ultimately show ?thesis
    using strncpy_short_source [of mem_abc "0x100" "[97, 98, 99]" 8 "0x200"] by (auto simp del: of_nat_numeral)
qed

text \<open>
  When the source has \<open>n\<close> bytes or more, the test that ends the first loop wraps the count
  to \<open>SIZE_MAX\<close> and the padding loop writes zeros over the whole address space: afterwards every
  byte of memory but the one before the end of the destination is 0.
\<close>

lemma strncpy_long_source_wipes_memory:
  assumes "cstr m src xs" and "unat n \<le> length xs" and "apart dest (unat n) src (Suc (length xs))"
    and "a \<noteq> dest + n - 1"
  shows "strncpy dest src n m a = 0"
proof -
  let ?k = "unat (a - (dest + n))"
  have "a - (dest + n) \<noteq> - 1" using assms(4) by (auto simp: algebra_simps)
  then have "?k \<noteq> unat (- 1 :: u64)" by (simp only: word_unat_eq_iff not_False_eq_True)
  moreover have "?k \<le> unat (- 1 :: u64)" using word_order.extremum [of "a - (dest + n)"] by (simp only: word_le_nat_alt)
  ultimately have "?k < unat (- 1 :: u64)" by simp
  moreover have "a = dest + n + of_nat ?k" by simp
  ultimately have "\<exists>i<unat (- 1 :: u64). a = dest + n + of_nat i" by blast
  then show ?thesis
    unfolding strncpy_def strncpy_copy_truncates [OF assms(1-3)] prod.case set_range by simp
qed

lemma strncpy_long_source_wipes_memory_witness:
  "strncpy 0x200 0x100 2 mem_abc 0x100 = 0"
proof -
  have "cstr mem_abc 0x100 [97, 98, 99]" by (simp add: mem_abc_def)
  moreover have "apart 0x200 (unat (2 :: u64)) 0x100 (Suc (length [97 :: u8, 98, 99]))"
    unfolding apart_def by (auto simp: addr_eq_iff)
  ultimately show ?thesis
    using strncpy_long_source_wipes_memory [of mem_abc "0x100" "[97, 98, 99]" 2 "0x200" "0x100"] by simp
qed

end
