(* ===== verification/Hic_Pagetable.thy ===== *)
theory Hic_Pagetable
  imports Hic_Pmm
begin

text \<open>
  The page tables of \<^verbatim>\<open>pagetable.c\<close> and the domain state tracking of \<^verbatim>\<open>domain_switch.c\<close>: creation
  and destruction of four-level tables, mapping, unmapping, permission changes and translation.
  The invariant says that the live tables form a forest: no table is reached along two paths,
  and the frame of every table is allocated. From it follow the exact effect of
  \<open>pagetable_map\<close> on the translation of every address space, and that destroying a tree gives
  back exactly its frames.
\<close>

unbundle bit_operations_syntax

named_theorems pt_consts

section \<open>State\<close>

definition PAGE_FLAG_PRESENT :: u64 where [pt_consts]: "PAGE_FLAG_PRESENT = 0x1"
definition PAGE_FLAG_WRITE :: u64 where [pt_consts]: "PAGE_FLAG_WRITE = 0x2"
definition PAGE_FLAG_USER :: u64 where [pt_consts]: "PAGE_FLAG_USER = 0x4"
definition PAGE_SIZE_4K :: u64 where [pt_consts]: "PAGE_SIZE_4K = 0x1000"

definition PERM_NONE :: u64 where [pt_consts]: "PERM_NONE = 0"
definition PERM_READ :: u64 where [pt_consts]: "PERM_READ = PAGE_FLAG_PRESENT"
definition PERM_WRITE :: u64 where [pt_consts]: "PERM_WRITE = PAGE_FLAG_PRESENT OR PAGE_FLAG_WRITE"
definition PERM_EXEC :: u64 where [pt_consts]: "PERM_EXEC = PAGE_FLAG_PRESENT"
definition PERM_RW :: u64 where [pt_consts]: "PERM_RW = PAGE_FLAG_PRESENT OR PAGE_FLAG_WRITE"
definition PERM_RX :: u64 where [pt_consts]: "PERM_RX = PAGE_FLAG_PRESENT"
definition PERM_RWX :: u64 where [pt_consts]: "PERM_RWX = PAGE_FLAG_PRESENT OR PAGE_FLAG_WRITE"

datatype map_type = MAP_TYPE_IDENTITY | MAP_TYPE_KERNEL | MAP_TYPE_USER

text \<open>
  A \<open>page_table_t\<close> is an array of 512 entries at a page-aligned address. \<open>pg_mem\<close> is the
  memory seen as page tables: the address of a table and an index give an entry. The other
  fields are the memory manager, the array \<open>g_domain_pagetables\<close>, \<open>g_current_domain\<close> and the
  register CR3.
\<close>

type_synonym table_memory = "u64 \<Rightarrow> nat \<Rightarrow> u64"

record paging =
  pg_pmm :: pmm
  pg_mem :: table_memory
  g_domain_pagetables :: "nat \<Rightarrow> u64"
  g_current_domain :: u32
  pg_cr3 :: u64

record hic_mem_entry =
  me_base_address :: u64
  me_length :: u64
  me_type :: u32
  me_attributes :: u32

definition PAGE_ALIGN_MASK :: "u64 \<Rightarrow> u64 \<Rightarrow> u64" where
  "PAGE_ALIGN_MASK addr m = addr AND NOT m"

definition PAGE_ALIGN_UP :: "u64 \<Rightarrow> u64 \<Rightarrow> u64" where
  "PAGE_ALIGN_UP addr sz = (addr + sz - 1) AND NOT (sz - 1)"

abbreviation entry_present :: "u64 \<Rightarrow> bool" where
  "entry_present e \<equiv> e AND PAGE_FLAG_PRESENT \<noteq> 0"

abbreviation entry_table :: "u64 \<Rightarrow> u64" where
  "entry_table e \<equiv> PAGE_ALIGN_MASK e 0xFFF"

definition pml4_index :: "u64 \<Rightarrow> nat" where
  "pml4_index v = unat (drop_bit 39 v AND 0x1FF)"

definition pdpt_index :: "u64 \<Rightarrow> nat" where
  "pdpt_index v = unat (drop_bit 30 v AND 0x1FF)"

definition pd_index :: "u64 \<Rightarrow> nat" where
  "pd_index v = unat (drop_bit 21 v AND 0x1FF)"

definition pt_index :: "u64 \<Rightarrow> nat" where
  "pt_index v = unat (drop_bit 12 v AND 0x1FF)"

definition set_entry :: "u64 \<Rightarrow> nat \<Rightarrow> u64 \<Rightarrow> paging \<Rightarrow> paging" where
  "set_entry t i e s = s\<lparr> pg_mem := (pg_mem s)(t := (pg_mem s t)(i := e)) \<rparr>"

section \<open>Domain state tracking\<close>

definition domain_switch_init :: "paging \<Rightarrow> paging" where
  "domain_switch_init s =
     s\<lparr> g_domain_pagetables := (\<lambda>i. if i < unat HIC_DOMAIN_MAX then 0 else g_domain_pagetables s i),
        g_current_domain := HIC_DOMAIN_CORE \<rparr>"

definition domain_switch_get_current :: "paging \<Rightarrow> u32" where
  "domain_switch_get_current s = g_current_domain s"

definition domain_switch_set_current :: "u32 \<Rightarrow> paging \<Rightarrow> paging" where
  "domain_switch_set_current domain s =
     (if domain < HIC_DOMAIN_MAX then s\<lparr> g_current_domain := domain \<rparr> else s)"

definition domain_switch_get_pagetable :: "u32 \<Rightarrow> paging \<Rightarrow> u64" where
  "domain_switch_get_pagetable domain s =
     (if domain \<ge> HIC_DOMAIN_MAX then 0 else g_domain_pagetables s (unat domain))"

definition domain_switch_set_pagetable :: "u32 \<Rightarrow> u64 \<Rightarrow> paging \<Rightarrow> unit hic_result \<times> paging" where
  "domain_switch_set_pagetable domain pagetable s =
     (if domain \<ge> HIC_DOMAIN_MAX then (Inl HIC_ERROR_INVALID_PARAM, s)
      else if pagetable = 0 then (Inl HIC_ERROR_INVALID_PARAM, s)
      else (Inr (), s\<lparr> g_domain_pagetables := (g_domain_pagetables s)(unat domain := pagetable) \<rparr>))"

section \<open>Allocation of tables\<close>

text \<open>
  The pointer returned by \<open>allocate_page_table\<close> is the address itself (identity mapping), so
  frame 0 of the memory manager is indistinguishable from the failure \<open>NULL\<close>.
\<close>

definition allocate_page_table :: "paging \<Rightarrow> u64 \<times> paging" where
  "allocate_page_table s =
     (case pmm_alloc_frames 1 True (pg_pmm s) of
        (Inl e, p) \<Rightarrow> (0, s\<lparr> pg_pmm := p \<rparr>)
      | (Inr a, p) \<Rightarrow> (a, s\<lparr> pg_pmm := p, pg_mem := (pg_mem s)(a := (\<lambda>_. 0)) \<rparr>))"

definition free_page_table :: "u64 \<Rightarrow> paging \<Rightarrow> paging" where
  "free_page_table t s =
     (if t \<noteq> 0 then s\<lparr> pg_pmm := snd (pmm_free_frames t 1 (pg_pmm s)) \<rparr> else s)"

primrec free_page_table_tree :: "nat \<Rightarrow> u64 \<Rightarrow> paging \<Rightarrow> paging" where
  "free_page_table_tree 0 root s = (if root = 0 then s else free_page_table root s)"
| "free_page_table_tree (Suc level) root s =
     (if root = 0 then s
      else free_page_table root
        (for_range (\<lambda>i t. let entry = pg_mem t root i
                          in if entry_present entry
                             then free_page_table_tree level (entry_table entry) t else t)
           0 512 s))"

definition pagetable_create :: "paging \<Rightarrow> u64 \<times> paging" where
  "pagetable_create s = allocate_page_table s"

definition pagetable_destroy :: "u64 \<Rightarrow> paging \<Rightarrow> paging" where
  "pagetable_destroy root s = (if root = 0 then s else free_page_table_tree 3 root s)"

section \<open>Mapping\<close>

text \<open>
  One level of the descent of \<open>pagetable_map\<close>: the table that entry \<open>i\<close> of table \<open>t\<close> points
  to, created when the entry is not present. The code spells the three levels out.
\<close>

definition get_or_create :: "u64 \<Rightarrow> nat \<Rightarrow> paging \<Rightarrow> u64 option \<times> paging" where
  "get_or_create t i s =
     (if \<not> entry_present (pg_mem s t i)
      then let (child, s1) = allocate_page_table s
           in if child = 0 then (None, s1)
              else let s2 = set_entry t i
                     (child OR PAGE_FLAG_PRESENT OR PAGE_FLAG_WRITE OR PAGE_FLAG_USER) s1
                   in (Some (entry_table (pg_mem s2 t i)), s2)
      else (Some (entry_table (pg_mem s t i)), s))"

definition map_page :: "u64 \<Rightarrow> u64 \<Rightarrow> u64 \<Rightarrow> paging \<Rightarrow> unit hic_result \<times> paging" where
  "map_page root v e s =
     (case get_or_create root (pml4_index v) s of
        (None, s1) \<Rightarrow> (Inl HIC_ERROR_NO_MEMORY, s1)
      | (Some pdpt, s1) \<Rightarrow>
     (case get_or_create pdpt (pdpt_index v) s1 of
        (None, s2) \<Rightarrow> (Inl HIC_ERROR_NO_MEMORY, s2)
      | (Some pd, s2) \<Rightarrow>
     (case get_or_create pd (pd_index v) s2 of
        (None, s3) \<Rightarrow> (Inl HIC_ERROR_NO_MEMORY, s3)
      | (Some pt, s3) \<Rightarrow> (Inr (), set_entry pt (pt_index v) e s3))))"

text \<open>
  The loop over the pages: \<open>n\<close> is the number of iterations left, that is
  \<open>(size_aligned - offset) / 4096\<close>.
\<close>

primrec map_loop :: "nat \<Rightarrow> u64 \<Rightarrow> u64 \<Rightarrow> u64 \<Rightarrow> u64 \<Rightarrow> paging \<Rightarrow> unit hic_result \<times> paging" where
  "map_loop 0 root v ph flags s = (Inr (), s)"
| "map_loop (Suc n) root v ph flags s =
     (case map_page root v (ph OR flags) s of
        (Inl e, s1) \<Rightarrow> (Inl e, s1)
      | (Inr _, s1) \<Rightarrow> map_loop n root (v + PAGE_SIZE_4K) (ph + PAGE_SIZE_4K) flags s1)"

definition map_flags :: "u64 \<Rightarrow> map_type \<Rightarrow> u64" where
  "map_flags perm type =
     (if type = MAP_TYPE_USER then perm OR PAGE_FLAG_USER else perm AND NOT PAGE_FLAG_USER)"

definition page_count :: "u64 \<Rightarrow> nat" where
  "page_count sz = unat (PAGE_ALIGN_UP sz PAGE_SIZE_4K div PAGE_SIZE_4K)"

definition pagetable_map ::
    "u64 \<Rightarrow> u64 \<Rightarrow> u64 \<Rightarrow> u64 \<Rightarrow> u64 \<Rightarrow> map_type \<Rightarrow> paging \<Rightarrow> unit hic_result \<times> paging" where
  "pagetable_map root virt phys sz perm type s =
     (if root = 0 \<or> sz = 0 then (Inl HIC_ERROR_INVALID_PARAM, s)
      else map_loop (page_count sz) root (PAGE_ALIGN_UP virt PAGE_SIZE_4K)
             (PAGE_ALIGN_UP phys PAGE_SIZE_4K) (map_flags perm type) s)"

text \<open>The descent without allocation, shared by the three operations below.\<close>

definition find_pt :: "table_memory \<Rightarrow> u64 \<Rightarrow> u64 \<Rightarrow> u64 option" where
  "find_pt m root v =
     (if \<not> entry_present (m root (pml4_index v)) then None
      else let pdpt = entry_table (m root (pml4_index v))
      in if \<not> entry_present (m pdpt (pdpt_index v)) then None
      else let pd = entry_table (m pdpt (pdpt_index v))
      in if \<not> entry_present (m pd (pd_index v)) then None
      else Some (entry_table (m pd (pd_index v))))"

definition hal_set_cr3 :: "u64 \<Rightarrow> paging \<Rightarrow> paging" where
  "hal_set_cr3 val s = s\<lparr> pg_cr3 := val \<rparr>"

definition pagetable_flush_tlb_all :: "paging \<Rightarrow> paging" where
  "pagetable_flush_tlb_all s = hal_set_cr3 (pg_cr3 s) s"

definition pagetable_switch :: "u64 \<Rightarrow> paging \<Rightarrow> paging" where
  "pagetable_switch root s = (if root = 0 then s else hal_set_cr3 root s)"

text \<open>
  \<open>update_loop f\<close> visits the pages of a range and replaces the entry \<open>e\<close> of each page that has
  a page table by \<open>f e\<close>; \<open>f\<close> is the last statement of the loop body.
\<close>

primrec update_loop :: "(u64 \<Rightarrow> u64) \<Rightarrow> nat \<Rightarrow> u64 \<Rightarrow> u64 \<Rightarrow> paging \<Rightarrow> paging" where
  "update_loop f 0 root v s = s"
| "update_loop f (Suc n) root v s =
     update_loop f n root (v + PAGE_SIZE_4K)
       (case find_pt (pg_mem s) root v of
          None \<Rightarrow> s
        | Some pt \<Rightarrow> set_entry pt (pt_index v) (f (pg_mem s pt (pt_index v))) s)"

definition pagetable_unmap :: "u64 \<Rightarrow> u64 \<Rightarrow> u64 \<Rightarrow> paging \<Rightarrow> unit hic_result \<times> paging" where
  "pagetable_unmap root virt sz s =
     (if root = 0 \<or> sz = 0 then (Inl HIC_ERROR_INVALID_PARAM, s)
      else (Inr (), pagetable_flush_tlb_all
              (update_loop (\<lambda>_. 0) (page_count sz) root (PAGE_ALIGN_UP virt PAGE_SIZE_4K) s)))"

definition pagetable_set_perm :: "u64 \<Rightarrow> u64 \<Rightarrow> u64 \<Rightarrow> u64 \<Rightarrow> paging \<Rightarrow> unit hic_result \<times> paging" where
  "pagetable_set_perm root virt sz perm s =
     (if root = 0 \<or> sz = 0 then (Inl HIC_ERROR_INVALID_PARAM, s)
      else (Inr (), pagetable_flush_tlb_all
              (update_loop (\<lambda>entry. (entry AND PAGE_FLAG_PRESENT) OR perm) (page_count sz) root
                 (PAGE_ALIGN_UP virt PAGE_SIZE_4K) s)))"

definition pagetable_get_phys :: "u64 \<Rightarrow> u64 \<Rightarrow> paging \<Rightarrow> u64" where
  "pagetable_get_phys root v s =
     (if root = 0 then 0
      else case find_pt (pg_mem s) root v of
        None \<Rightarrow> 0
      | Some pt \<Rightarrow>
          (let e = pg_mem s pt (pt_index v)
           in if \<not> entry_present e then 0 else entry_table e + (v AND 0xFFF)))"

definition pagetable_setup_domain :: "u32 \<Rightarrow> u64 \<Rightarrow> paging \<Rightarrow> unit hic_result \<times> paging" where
  "pagetable_setup_domain domain root s =
     (if domain \<ge> HIC_DOMAIN_MAX then (Inl HIC_ERROR_INVALID_PARAM, s)
      else (Inr (), snd (domain_switch_set_pagetable domain root s)))"

definition pagetable_cleanup_domain :: "u32 \<Rightarrow> paging \<Rightarrow> paging" where
  "pagetable_cleanup_domain domain s =
     (if domain \<ge> HIC_DOMAIN_MAX then s
      else let pagetable = domain_switch_get_pagetable domain s
           in if pagetable \<noteq> 0
              then snd (domain_switch_set_pagetable domain 0 (pagetable_destroy pagetable s))
              else s)"

text \<open>
  \<open>pagetable_init\<close> maps the entries of type 0 of the boot memory map, if there is one, into the
  page table that CR3 points to.
\<close>

definition pagetable_init :: "hic_mem_entry list option \<Rightarrow> paging \<Rightarrow> paging" where
  "pagetable_init mem_map s =
     (case mem_map of
        None \<Rightarrow> s
      | Some es \<Rightarrow>
          fold (\<lambda>entry t.
                  if me_type entry = 0 \<and> me_length entry > 0
                  then snd (pagetable_map (pg_cr3 s) (me_base_address entry)
                              (me_base_address entry) (me_length entry) PERM_RW MAP_TYPE_USER t)
                  else t) es s)"

section \<open>Addresses and entries\<close>

definition vpn :: "u64 \<Rightarrow> nat" where
  "vpn v = unat v div 4096 mod 2 ^ 36"

definition vpath :: "nat \<Rightarrow> nat list" where
  "vpath x = [x div 2 ^ 27, x div 2 ^ 18 mod 512, x div 2 ^ 9 mod 512]"

lemma mask_9: "(0x1FF :: u64) = mask 9"
  by (simp add: mask_eq_exp_minus_1)

lemma mask_12: "(0xFFF :: u64) = mask 12"
  by (simp add: mask_eq_exp_minus_1)

lemma unat_index: "unat (drop_bit k (v :: u64) AND 0x1FF) = unat v div 2 ^ k mod 512"
proof -
  have "drop_bit k v AND 0x1FF = take_bit 9 (drop_bit k v)" by (simp add: mask_9 take_bit_eq_mask)
  then have "unat (drop_bit k v AND 0x1FF) = take_bit 9 (drop_bit k (unat v))"
    by (simp only: unsigned_take_bit_eq unat_drop_bit_eq)
  then show ?thesis by (simp add: drop_bit_eq_div take_bit_eq_mod)
qed

lemma vpn_less: "vpn v < 2 ^ 36"
  by (simp add: vpn_def)

lemma index_vpn:
  "pml4_index v = vpn v div 2 ^ 27" "pdpt_index v = vpn v div 2 ^ 18 mod 512"
  "pd_index v = vpn v div 2 ^ 9 mod 512" "pt_index v = vpn v mod 512"
proof -
  have *: "x div 4096 mod 2 ^ 36 div 2 ^ k mod 512 = x div 2 ^ (k + 12) mod 512" if "k \<le> 27" for x k :: nat
  proof -
    have "x div 4096 mod 2 ^ 36 div 2 ^ k mod 512 = take_bit 9 (drop_bit k (take_bit 36 (drop_bit 12 x)))"
      by (simp add: take_bit_eq_mod drop_bit_eq_div)
    also have "\<dots> = take_bit 9 (drop_bit (k + 12) x)"
      using that by (auto simp: bit_eq_iff bit_simps ac_simps)
    finally show ?thesis by (simp add: take_bit_eq_mod drop_bit_eq_div)
  qed
  have "vpn v div 2 ^ 27 < 512" using vpn_less [of v] by (simp add: div_less_iff_less_mult)
  then have "pml4_index v = vpn v div 2 ^ 27 mod 512 \<longleftrightarrow> pml4_index v = vpn v div 2 ^ 27" by simp
  then show "pml4_index v = vpn v div 2 ^ 27"
    using * [of 27 "unat v"] by (simp add: pml4_index_def unat_index vpn_def)
  show "pdpt_index v = vpn v div 2 ^ 18 mod 512" "pd_index v = vpn v div 2 ^ 9 mod 512"
    "pt_index v = vpn v mod 512"
    using * [of 18 "unat v"] * [of 9 "unat v"] * [of 0 "unat v"]
    by (simp_all add: pdpt_index_def pd_index_def pt_index_def unat_index vpn_def)
qed

lemma vpath_inj:
  assumes "vpath x = vpath y" and "x mod 512 = y mod 512"
  shows "x = y"
proof -
  have step: "a = b" if "a div 512 = b div 512" "a mod 512 = b mod 512" for a b :: nat
    using that by (metis div_mult_mod_eq)
  have e: "a div 2 ^ 27 = a div 2 ^ 18 div 512" "a div 2 ^ 18 = a div 2 ^ 9 div 512"
    "a div 2 ^ 9 = a div 512" for a :: nat
    by (simp_all add: div_mult2_eq [symmetric])
  from assms(1) have v: "x div 2 ^ 27 = y div 2 ^ 27" "x div 2 ^ 18 mod 512 = y div 2 ^ 18 mod 512"
    "x div 2 ^ 9 mod 512 = y div 2 ^ 9 mod 512" by (simp_all add: vpath_def)
  have "x div 2 ^ 18 = y div 2 ^ 18" by (rule step [OF _ v(2)]) (use v(1) e(1) in metis)
  then have "x div 2 ^ 9 = y div 2 ^ 9" by (intro step [OF _ v(3)]) (use e(2) in metis)
  then show ?thesis by (intro step [OF _ assms(2)]) (use e(3) in metis)
qed

lemma vpath_indices: "x < 2 ^ 36 \<Longrightarrow> i \<in> set (vpath x) \<Longrightarrow> i < 512"
  by (auto simp: vpath_def div_less_iff_less_mult)

definition page_aligned :: "u64 \<Rightarrow> bool" where
  "page_aligned a \<longleftrightarrow> a AND 0xFFF = 0"

lemma page_aligned_bits: "page_aligned a \<longleftrightarrow> (\<forall>n<12. \<not> bit a n)"
proof
  assume al: "page_aligned a"
  show "\<forall>n<12. \<not> bit a n"
  proof (intro allI impI)
    fix n :: nat
    assume "n < 12"
    then show "\<not> bit a n"
      using arg_cong [where f = "\<lambda>w. bit w n", OF al [unfolded page_aligned_def mask_12]]
      by (simp add: bit_simps)
  qed
qed (auto simp: page_aligned_def mask_12 bit_eq_iff bit_simps)

lemma present_bit: "entry_present e \<longleftrightarrow> bit e 0"
  using and_mask_nonzero_iff_bit [of 0 e] by (simp add: pt_consts)

lemma entry_table_flags:
  assumes "page_aligned a" and "f AND NOT 0xFFF = 0"
  shows "entry_table (a OR f) = a"
proof -
  have "\<not> bit f n" if "12 \<le> n" "n < 64" for n
    using assms(2) that unfolding mask_12 by (auto simp: bit_eq_iff bit_simps dest!: spec [of _ n])
  then show ?thesis
    using assms(1) unfolding PAGE_ALIGN_MASK_def mask_12 page_aligned_bits
    by (auto simp: bit_eq_iff bit_simps)
qed

lemma table_entry:
  assumes "page_aligned a"
  shows "entry_table (a OR PAGE_FLAG_PRESENT OR PAGE_FLAG_WRITE OR PAGE_FLAG_USER) = a"
    and "entry_present (a OR PAGE_FLAG_PRESENT OR PAGE_FLAG_WRITE OR PAGE_FLAG_USER)"
proof -
  show "entry_table (a OR PAGE_FLAG_PRESENT OR PAGE_FLAG_WRITE OR PAGE_FLAG_USER) = a"
    using entry_table_flags [OF assms, of "PAGE_FLAG_PRESENT OR PAGE_FLAG_WRITE OR PAGE_FLAG_USER"]
    by (simp add: pt_consts or.assoc)
  show "entry_present (a OR PAGE_FLAG_PRESENT OR PAGE_FLAG_WRITE OR PAGE_FLAG_USER)"
    unfolding present_bit by (simp add: pt_consts bit_simps)
qed

lemma page_aligned_eqI:
  assumes "page_aligned a" "page_aligned b" "unat a div 4096 = unat b div 4096"
  shows "a = b"
proof -
  have "unat (drop_bit 12 a) = unat (drop_bit 12 b)"
    unfolding unat_drop_bit_eq using assms(3) by (simp add: drop_bit_eq_div)
  then have "drop_bit 12 a = drop_bit 12 b" by (rule word_unat_eq_iff [THEN iffD2])
  have "bit a n = bit b n" if "12 \<le> n" for n
    using arg_cong [where f = "\<lambda>w. bit w (n - 12)", OF \<open>drop_bit 12 a = drop_bit 12 b\<close>] that
    by (simp only: bit_drop_bit_eq o_apply le_add_diff_inverse)
  moreover have "bit a n = bit b n" if "n < 12" for n
    using that assms(1,2) by (auto simp: page_aligned_bits)
  ultimately show ?thesis by (metis bit_eqI linorder_not_less)
qed

section \<open>The forest of tables\<close>

text \<open>
  \<open>walk m r p\<close> is the table reached from the root \<open>r\<close> by following the indices \<open>p\<close>. The tables
  of an address space are those on paths of length at most three; entries of a page table proper
  (depth three) are never followed.
\<close>

fun walk :: "table_memory \<Rightarrow> u64 \<Rightarrow> nat list \<Rightarrow> u64 option" where
  "walk m r [] = Some r"
| "walk m r (i # p) =
     (if i < 512 \<and> entry_present (m r i) then walk m (entry_table (m r i)) p else None)"

lemma walk_append: "walk m r (p @ q) = (case walk m r p of None \<Rightarrow> None | Some t \<Rightarrow> walk m t q)"
  by (induction p arbitrary: r) auto

lemma walk_snoc:
  "walk m r (p @ [i]) = (case walk m r p of None \<Rightarrow> None
     | Some t \<Rightarrow> if i < 512 \<and> entry_present (m t i) then Some (entry_table (m t i)) else None)"
  by (simp add: walk_append split: option.split)

definition table_at :: "table_memory \<Rightarrow> u64 \<Rightarrow> nat list \<Rightarrow> u64 \<Rightarrow> bool" where
  "table_at m r p t \<longleftrightarrow> length p \<le> 3 \<and> walk m r p = Some t"

definition pt_forest :: "u64 set \<Rightarrow> paging \<Rightarrow> bool" where
  "pt_forest R s \<longleftrightarrow>
     pmm_wf (pg_pmm s) \<and>
     (\<forall>r\<in>R. \<forall>p t. table_at (pg_mem s) r p t \<longrightarrow>
        t \<noteq> 0 \<and> page_aligned t \<and> frame_busy (pg_pmm s) (unat t div 4096)) \<and>
     (\<forall>r\<in>R. \<forall>r'\<in>R. \<forall>p p' t. table_at (pg_mem s) r p t \<longrightarrow> table_at (pg_mem s) r' p' t \<longrightarrow>
        r = r' \<and> p = p')"

lemma forest_table:
  assumes "pt_forest R s" "r \<in> R" "table_at (pg_mem s) r p t"
  shows "t \<noteq> 0" "page_aligned t" "frame_busy (pg_pmm s) (unat t div 4096)"
  using assms by (auto simp: pt_forest_def)

lemma forest_inj:
  assumes "pt_forest R s" "r \<in> R" "r' \<in> R" "table_at (pg_mem s) r p t" "table_at (pg_mem s) r' p' t"
  shows "r = r'" "p = p'"
  using assms unfolding pt_forest_def by blast+

lemma forest_wf: "pt_forest R s \<Longrightarrow> pmm_wf (pg_pmm s)"
  by (simp add: pt_forest_def)

text \<open>The page table entry for page \<open>x\<close> of the address space \<open>r\<close>, zero where there is no table.\<close>

definition leaf :: "table_memory \<Rightarrow> u64 \<Rightarrow> nat \<Rightarrow> u64" where
  "leaf m r x = (case walk m r (vpath x) of None \<Rightarrow> 0 | Some t \<Rightarrow> m t (x mod 512))"

lemma find_pt_walk: "find_pt m r v = walk m r (vpath (vpn v))"
proof -
  have "vpn v div 2 ^ 27 < 512" using vpn_less [of v] by (simp add: div_less_iff_less_mult)
  then show ?thesis by (simp add: find_pt_def vpath_def index_vpn Let_def)
qed

lemma get_phys_leaf:
  "pagetable_get_phys r v s =
     (if r = 0 \<or> \<not> entry_present (leaf (pg_mem s) r (vpn v)) then 0
      else entry_table (leaf (pg_mem s) r (vpn v)) + (v AND 0xFFF))"
  by (auto simp: pagetable_get_phys_def find_pt_walk leaf_def index_vpn(4) Let_def split: option.split)

section \<open>Allocation keeps the forest\<close>

lemma allocate_cases:
  assumes "allocate_page_table s = (a, s1)" and wf: "pmm_wf (pg_pmm s)"
  obtains (refused) "a = 0" "s1 = s"
  | (fresh) p where "s1 = s\<lparr> pg_pmm := p, pg_mem := (pg_mem s)(a := (\<lambda>_. 0)) \<rparr>"
      "pmm_alloc_frames 1 True (pg_pmm s) = (Inr a, p)" "pmm_wf p" "page_aligned a"
      "\<not> frame_busy (pg_pmm s) (unat a div 4096)"
      "\<And>j. frame_busy p j \<longleftrightarrow> frame_busy (pg_pmm s) j \<or> j = unat a div 4096"
proof -
  obtain x p where al: "pmm_alloc_frames 1 True (pg_pmm s) = (x, p)" by fastforce
  show thesis
  proof (cases x)
    case (Inl e)
    then have "p = pg_pmm s" using pmm.alloc_refused al by blast
    then show thesis using refused assms(1) al Inl by (simp add: allocate_page_table_def)
  next
    case (Inr b)
    have f: "frames_at b 1 = {unat b div 4096}" by (auto simp: frames_at_def)
    from al Inr obtain start where "b = of_nat start * PAGE_SIZE"
      by (cases rule: pmm_alloc_frames_cases) auto
    then have "page_aligned b"
      by (auto simp: page_aligned_bits hic_consts bit_simps push_bit_eq_mult [of 12, simplified, symmetric]
          mult.commute [of _ 4096])
    moreover have ba: "b = a" and "s1 = s\<lparr> pg_pmm := p, pg_mem := (pg_mem s)(a := (\<lambda>_. 0)) \<rparr>"
      using assms(1) al Inr by (auto simp: allocate_page_table_def)
    moreover note al' = al [unfolded Inr ba]
    moreover have "pmm_wf p" by (rule pmm.alloc_sound [OF wf al'])
    moreover have "\<not> frame_busy (pg_pmm s) (unat a div 4096)"
      using pmm.alloc_idle [OF wf al'] f ba by simp
    moreover have "frame_busy p j \<longleftrightarrow> frame_busy (pg_pmm s) j \<or> j = unat a div 4096" for j
      using pmm.alloc_busy [OF wf al'] f ba by simp
    ultimately show thesis using fresh [of p] by blast
  qed
qed

lemma link_walk:
  assumes F: "pt_forest R s" and r: "r \<in> R" and T: "table_at (pg_mem s) r p t" and p: "length p < 3"
    and i: "i < 512" and np: "\<not> entry_present (pg_mem s t i)"
    and fresh: "\<not> frame_busy (pg_pmm s) (unat n div 4096)"
    and e: "entry_table e = n" "entry_present e"
    and m': "m' = (pg_mem s)(n := (\<lambda>_. 0), t := (pg_mem s t)(i := e))"
  shows "r' \<in> R \<Longrightarrow> length q \<le> 3 \<Longrightarrow>
     walk m' r' q = (if r' = r \<and> q = p @ [i] then Some n else walk (pg_mem s) r' q)"
proof (induction q rule: rev_induct)
  case Nil
  then show ?case by simp
next
  case (snoc j q)
  let ?m = "pg_mem s"
  have nt: "n \<noteq> t" using forest_table(3) [OF F r T] fresh by auto
  have wp: "walk ?m r p = Some t" using T by (simp add: table_at_def)
  from snoc.prems have q: "length q \<le> 3" and r': "r' \<in> R" by simp_all
  note IH = snoc.IH [OF r' q]
  show ?case
  proof (cases "r' = r \<and> q = p @ [i]")
    case True
    moreover have "walk ?m r (p @ [i]) = None" using wp np by (simp add: walk_snoc)
    moreover have "\<not> entry_present (m' n j)" using nt by (simp add: m' pt_consts)
    moreover from True have "\<not> (r' = r \<and> q @ [j] = p @ [i])" by auto
    ultimately show ?thesis using IH by (simp add: walk_snoc del: append_assoc)
  next
    case False
    then have W: "walk m' r' q = walk ?m r' q" using IH by auto
    show ?thesis
    proof (cases "walk ?m r' q")
      case None
      then have "\<not> (r' = r \<and> q @ [j] = p @ [i])" using wp by auto
      then show ?thesis using None W by (simp add: walk_snoc)
    next
      case (Some t')
      then have T': "table_at ?m r' q t'" using q by (simp add: table_at_def)
      then have n': "t' \<noteq> n" using forest_table(3) [OF F r' T'] fresh by auto
      show ?thesis
      proof (cases "t' = t")
        case True
        then have "r' = r" "q = p" using forest_inj [OF F r' r] T T' by auto
        moreover have "m' t j = (if j = i then e else ?m t j)" by (simp add: m')
        ultimately show ?thesis using W Some True e i by (auto simp: walk_snoc)
      next
        case False
        then have "\<not> (r' = r \<and> q @ [j] = p @ [i])" using wp Some by auto
        moreover have "m' t' j = ?m t' j" using False n' by (simp add: m')
        ultimately show ?thesis using W Some by (auto simp: walk_snoc)
      qed
    qed
  qed
qed

lemma pt_forestI:
  assumes "pmm_wf (pg_pmm s)"
    and "\<And>r p t. r \<in> R \<Longrightarrow> table_at (pg_mem s) r p t \<Longrightarrow>
          t \<noteq> 0 \<and> page_aligned t \<and> frame_busy (pg_pmm s) (unat t div 4096)"
    and "\<And>r r' p p' t. r \<in> R \<Longrightarrow> r' \<in> R \<Longrightarrow> table_at (pg_mem s) r p t \<Longrightarrow>
          table_at (pg_mem s) r' p' t \<Longrightarrow> r = r' \<and> p = p'"
  shows "pt_forest R s"
  using assms unfolding pt_forest_def by blast

text \<open>An operation on the tables that leaves every page table entry of the forest as it is.\<close>

definition same_leaves :: "u64 set \<Rightarrow> paging \<Rightarrow> paging \<Rightarrow> bool" where
  "same_leaves R s s' \<longleftrightarrow> (\<forall>r\<in>R. \<forall>x<2 ^ 36. leaf (pg_mem s') r x = leaf (pg_mem s) r x)"

lemma same_leaves_refl [simp]: "same_leaves R s s"
  by (simp add: same_leaves_def)

lemma same_leaves_trans: "same_leaves R s s1 \<Longrightarrow> same_leaves R s1 s2 \<Longrightarrow> same_leaves R s s2"
  by (simp add: same_leaves_def)

lemma length_vpath [simp]: "length (vpath x) = 3"
  by (simp add: vpath_def)

lemma leaf_cong:
  assumes "walk m' r (vpath x) = walk m r (vpath x)"
    and "\<And>t. table_at m r (vpath x) t \<Longrightarrow> m' t = m t"
  shows "leaf m' r x = leaf m r x"
  using assms by (auto simp: leaf_def table_at_def split: option.split)

lemma fresh_page:
  assumes F: "pt_forest R s" and fresh: "\<not> frame_busy (pg_pmm s) (unat n div 4096)" and wf: "pmm_wf pm"
    and busy: "\<And>j. frame_busy (pg_pmm s) j \<Longrightarrow> frame_busy pm j"
    and s': "s' = s\<lparr> pg_pmm := pm, pg_mem := (pg_mem s)(n := (\<lambda>_. 0)) \<rparr>"
  shows "pt_forest R s'" and "same_leaves R s s'"
    and "r \<in> R \<Longrightarrow> table_at (pg_mem s') r p t \<longleftrightarrow> table_at (pg_mem s) r p t"
proof -
  have fr: "r' \<in> R \<Longrightarrow> table_at (pg_mem s) r' q t' \<Longrightarrow> t' \<noteq> n" for r' q t'
    using fresh forest_table(3) [OF F] by auto
  have W: "walk (pg_mem s') r' q = walk (pg_mem s) r' q" if "r' \<in> R" "length q \<le> 3" for r' q
    using that
  proof (induction q rule: rev_induct)
    case (snoc j q)
    then show ?case using fr [OF snoc.prems(1), of q]
      by (auto simp: walk_snoc s' table_at_def split: option.splits)
  qed simp
  show TA: "table_at (pg_mem s') r q t' \<longleftrightarrow> table_at (pg_mem s) r q t'" if "r \<in> R" for r q t'
    using W [OF that, of q] by (auto simp: table_at_def)
  show "pt_forest R s'"
  proof (rule pt_forestI)
    show "pmm_wf (pg_pmm s')" using wf by (simp add: s')
    show "t \<noteq> 0 \<and> page_aligned t \<and> frame_busy (pg_pmm s') (unat t div 4096)"
      if "r \<in> R" "table_at (pg_mem s') r p t" for r p t
      using that TA forest_table [OF F] busy by (simp add: s')
    show "r = r' \<and> p = p'"
      if "r \<in> R" "r' \<in> R" "table_at (pg_mem s') r p t" "table_at (pg_mem s') r' p' t" for r r' p p' t
      using that TA forest_inj [OF F] by simp
  qed
  have "leaf (pg_mem s') r x = leaf (pg_mem s) r x" if "r \<in> R" for r x
    by (rule leaf_cong) (use W fr that in \<open>auto simp: s'\<close>)
  then show "same_leaves R s s'" by (simp add: same_leaves_def)
qed

text \<open>
  The frames of the tables of one tree, and what it means that an operation extends the tree of
  \<open>r\<close> only: the frames newly in use are those of the new tables of \<open>r\<close>.
\<close>

definition tree_frames :: "table_memory \<Rightarrow> nat \<Rightarrow> u64 \<Rightarrow> nat set" where
  "tree_frames m l r = {unat a div 4096 | p a. length p \<le> l \<and> walk m r p = Some a}"

definition grows :: "u64 \<Rightarrow> paging \<Rightarrow> paging \<Rightarrow> bool" where
  "grows r s s' \<longleftrightarrow>
     (\<forall>j. frame_busy (pg_pmm s') j \<longleftrightarrow> frame_busy (pg_pmm s) j \<or> j \<in> tree_frames (pg_mem s') 3 r) \<and>
     tree_frames (pg_mem s) 3 r \<subseteq> tree_frames (pg_mem s') 3 r \<and>
     (\<forall>j \<in> tree_frames (pg_mem s') 3 r - tree_frames (pg_mem s) 3 r. \<not> frame_busy (pg_pmm s) j)"

lemma tree_frames_table_at: "j \<in> tree_frames m 3 r \<longleftrightarrow> (\<exists>p t. table_at m r p t \<and> j = unat t div 4096)"
  by (auto simp: tree_frames_def table_at_def)

lemma grows_refl: "pt_forest R s \<Longrightarrow> r \<in> R \<Longrightarrow> grows r s s"
  by (auto simp: grows_def tree_frames_table_at forest_table(3))

lemma grows_trans: "grows r s s1 \<Longrightarrow> grows r s1 s2 \<Longrightarrow> grows r s s2"
  unfolding grows_def by blast

lemma grows_busy: "grows r s s' \<Longrightarrow> frame_busy (pg_pmm s) j \<Longrightarrow> frame_busy (pg_pmm s') j"
  unfolding grows_def by blast

lemma get_or_create_spec:
  assumes F: "pt_forest R s" and r: "r \<in> R" and T: "table_at (pg_mem s) r p t" and p: "length p < 3"
    and i: "i < 512" and g: "get_or_create t i s = (x, s')"
  shows "pt_forest R s'" and "same_leaves R s s'"
    and "x = Some c \<Longrightarrow> table_at (pg_mem s') r (p @ [i]) c"
    and "g_domain_pagetables s' = g_domain_pagetables s"
    and "frame_busy (pg_pmm s) j \<Longrightarrow> frame_busy (pg_pmm s') j"
    and "frame_busy (pg_pmm s) 0 \<Longrightarrow> grows r s s'"
proof -
  let ?m = "pg_mem s"
  note wf = forest_wf [OF F]
  have "pt_forest R s' \<and> same_leaves R s s' \<and> (x = Some c \<longrightarrow> table_at (pg_mem s') r (p @ [i]) c) \<and>
      g_domain_pagetables s' = g_domain_pagetables s \<and> (frame_busy (pg_pmm s) j \<longrightarrow> frame_busy (pg_pmm s') j) \<and>
      (frame_busy (pg_pmm s) 0 \<longrightarrow> grows r s s')"
  proof (cases "entry_present (?m t i)")
    case True
    then show ?thesis using F T p i g grows_refl [OF F r] by (auto simp: get_or_create_def table_at_def walk_snoc)
  next
    case np: False
    obtain n s1 where al: "allocate_page_table s = (n, s1)" by fastforce
    from al wf show ?thesis
    proof (cases rule: allocate_cases)
      case refused
      then show ?thesis using F np g al grows_refl [OF F r] by (auto simp: get_or_create_def)
    next
      case (fresh pm)
      have fr: "r' \<in> R \<Longrightarrow> table_at ?m r' q t' \<Longrightarrow> t' \<noteq> n" for r' q t'
        using fresh(5) forest_table(3) [OF F] by auto
      have tn: "t \<noteq> n" using fr [OF r T] .
      show ?thesis
      proof (cases "n = 0")
        case True
        then have s': "s' = s1" and x: "x = None" using g np al by (auto simp: get_or_create_def)
        show ?thesis
          using fresh_page(1,2) [OF F fresh(5,3) _ fresh(1)] x fresh(1,5,6) True by (simp add: s')
      next
        case False
        let ?e = "n OR PAGE_FLAG_PRESENT OR PAGE_FLAG_WRITE OR PAGE_FLAG_USER"
        have s': "s' = set_entry t i ?e s1" and x: "x = Some n"
          using g np al False table_entry [OF fresh(4)]
          by (auto simp: get_or_create_def set_entry_def Let_def)
        have m': "pg_mem s' = ?m(n := (\<lambda>_. 0), t := (?m t)(i := ?e))"
          using tn by (simp add: s' set_entry_def fresh(1))
        note W = link_walk [OF F r T p i np fresh(5) table_entry [OF fresh(4)] m']
        have TA: "table_at (pg_mem s') r' q t' \<longleftrightarrow> table_at ?m r' q t' \<or> r' = r \<and> q = p @ [i] \<and> t' = n"
          if "r' \<in> R" for r' q t'
          using W [OF that, of q] p T np
          by (cases "r' = r \<and> q = p @ [i]") (auto simp: table_at_def walk_snoc)
        have "pt_forest R s'"
        proof (rule pt_forestI)
          show "pmm_wf (pg_pmm s')" using fresh(3) by (simp add: s' set_entry_def fresh(1))
          show "t' \<noteq> 0 \<and> page_aligned t' \<and> frame_busy (pg_pmm s') (unat t' div 4096)"
            if "r' \<in> R" "table_at (pg_mem s') r' q t'" for r' q t'
          proof -
            have "pg_pmm s' = pm" by (simp add: s' set_entry_def fresh(1))
            then show ?thesis
              using that(2) [unfolded TA [OF that(1)]] forest_table [OF F that(1), of q t'] fresh(4,6) False
              by auto
          qed
          show "r1 = r2 \<and> q1 = q2"
            if "r1 \<in> R" "r2 \<in> R" "table_at (pg_mem s') r1 q1 t'" "table_at (pg_mem s') r2 q2 t'"
            for r1 r2 q1 q2 t'
            using that TA forest_inj [OF F] fr by metis
        qed
        moreover have "leaf (pg_mem s') r' y = leaf ?m r' y" if r': "r' \<in> R" for r' y
        proof (cases "r' = r \<and> vpath y = p @ [i]")
          case True
          then have "walk ?m r (vpath y) = None" using T np by (simp add: walk_snoc table_at_def)
          then show ?thesis
            using True W [OF r', of "vpath y"] tn p by (auto simp: leaf_def m')
        next
          case False
          have "t' \<noteq> n \<and> t' \<noteq> t" if "table_at ?m r' (vpath y) t'" for t'
            using that fr [OF r'] forest_inj(2) [OF F r' r _ T] p length_vpath [of y] by fastforce
          then show ?thesis
            using False W [OF r', of "vpath y"] by (intro leaf_cong) (auto simp: m')
        qed
        moreover have "table_at (pg_mem s') r (p @ [i]) n" using TA [OF r] by blast
        moreover have "grows r s s'"
        proof -
          have T': "tree_frames (pg_mem s') 3 r = insert (unat n div 4096) (tree_frames ?m 3 r)"
            unfolding set_eq_iff insert_iff tree_frames_table_at TA [OF r] by blast
          have "pg_pmm s' = pm" by (simp add: s' set_entry_def fresh(1))
          then show ?thesis
            using fresh(5,6) forest_table(3) [OF F r] unfolding grows_def T'
            by (auto simp: tree_frames_table_at)
        qed
        ultimately show ?thesis
          using x fresh(6) by (auto simp: same_leaves_def s' set_entry_def fresh(1))
      qed
    qed
  qed
  then show "pt_forest R s'" and "same_leaves R s s'"
    and "x = Some c \<Longrightarrow> table_at (pg_mem s') r (p @ [i]) c"
    and "g_domain_pagetables s' = g_domain_pagetables s"
    and "frame_busy (pg_pmm s) j \<Longrightarrow> frame_busy (pg_pmm s') j"
    and "frame_busy (pg_pmm s) 0 \<Longrightarrow> grows r s s'" by blast+
qed

text \<open>Writing an entry of a page table proper changes one page of one address space.\<close>

lemma set_leaf_spec:
  assumes F: "pt_forest R s" and r: "r \<in> R" and x: "x < 2 ^ 36"
    and T: "table_at (pg_mem s) r (vpath x) t" and s': "s' = set_entry t (x mod 512) e s"
  shows "pt_forest R s'"
    and "r' \<in> R \<Longrightarrow> y < 2 ^ 36 \<Longrightarrow>
      leaf (pg_mem s') r' y = (if r' = r \<and> y = x then e else leaf (pg_mem s) r' y)"
    and "r' \<in> R \<Longrightarrow> table_at (pg_mem s') r' q t' \<longleftrightarrow> table_at (pg_mem s) r' q t'"
proof -
  let ?m = "pg_mem s"
  have mt: "pg_mem s' a = ?m a" if "a \<noteq> t" for a using that by (simp add: s' set_entry_def)
  have same: "pg_pmm s' = pg_pmm s" by (simp add: s' set_entry_def)
  have W: "walk (pg_mem s') r' q = walk ?m r' q" if "r' \<in> R" "length q \<le> 3" for r' q
    using that
  proof (induction q rule: rev_induct)
    case (snoc j q)
    have "a \<noteq> t" if "walk ?m r' q = Some a" for a
    proof
      assume "a = t"
      then have "q = vpath x"
        using forest_inj(2) [OF F snoc.prems(1) r _ T, of q] that snoc.prems(2) by (simp add: table_at_def)
      then show False using snoc.prems(2) by simp
    qed
    then show ?case using snoc mt by (auto simp: walk_snoc split: option.splits)
  qed simp
  show TA: "table_at (pg_mem s') r' q t' \<longleftrightarrow> table_at ?m r' q t'" if "r' \<in> R" for r' q t'
    using W [OF that, of q] by (auto simp: table_at_def)
  show "pt_forest R s'"
    using F TA same unfolding pt_forest_def by auto
  show "leaf (pg_mem s') r' y = (if r' = r \<and> y = x then e else leaf ?m r' y)"
    if r': "r' \<in> R" and y: "y < 2 ^ 36"
  proof (cases "walk ?m r' (vpath y)")
    case None
    then have "\<not> (r' = r \<and> y = x)" using T by (auto simp: table_at_def)
    then show ?thesis using None W [OF r', of "vpath y"] by (auto simp: leaf_def)
  next
    case (Some a)
    then have A: "table_at ?m r' (vpath y) a" by (simp add: table_at_def)
    have L: "leaf (pg_mem s') r' y = pg_mem s' a (y mod 512)" "leaf ?m r' y = ?m a (y mod 512)"
      using Some W [OF r', of "vpath y"] by (simp_all add: leaf_def)
    show ?thesis
    proof (cases "a = t")
      case True
      then have "r' = r" "vpath y = vpath x" using forest_inj [OF F r' r A] T by auto
      then show ?thesis using L True vpath_inj [of y x] by (auto simp: s' set_entry_def)
    next
      case False
      then have "\<not> (r' = r \<and> y = x)" using T A by (auto simp: table_at_def)
      then show ?thesis using L mt [OF False] by auto
    qed
  qed
qed

lemma map_page_spec:
  assumes F: "pt_forest R s" and r: "r \<in> R" and g: "map_page r v e s = (res, s')"
  shows "pt_forest R s'"
    and "r' \<in> R \<Longrightarrow> y < 2 ^ 36 \<Longrightarrow> leaf (pg_mem s') r' y =
       (if res = Inr () \<and> r' = r \<and> y = vpn v then e else leaf (pg_mem s) r' y)"
    and "res = Inr () \<or> res = Inl HIC_ERROR_NO_MEMORY"
    and "frame_busy (pg_pmm s) j \<Longrightarrow> frame_busy (pg_pmm s') j"
    and "g_domain_pagetables s' = g_domain_pagetables s"
    and "frame_busy (pg_pmm s) 0 \<Longrightarrow> grows r s s'"
proof -
  let ?P = "pt_forest R s' \<and> (r' \<in> R \<longrightarrow> y < 2 ^ 36 \<longrightarrow> leaf (pg_mem s') r' y =
       (if res = Inr () \<and> r' = r \<and> y = vpn v then e else leaf (pg_mem s) r' y)) \<and>
       (res = Inr () \<or> res = Inl HIC_ERROR_NO_MEMORY) \<and> (frame_busy (pg_pmm s) j \<longrightarrow> frame_busy (pg_pmm s') j) \<and>
       g_domain_pagetables s' = g_domain_pagetables s \<and> (frame_busy (pg_pmm s) 0 \<longrightarrow> grows r s s')"
  have ix: "pml4_index v < 512" "pdpt_index v < 512" "pd_index v < 512" "pt_index v = vpn v mod 512"
    using vpn_less [of v] by (simp_all add: index_vpn div_less_iff_less_mult)
  have vp: "[pml4_index v, pdpt_index v, pd_index v] = vpath (vpn v)"
    by (simp add: vpath_def index_vpn)
  obtain x1 s1 where g1: "get_or_create r (pml4_index v) s = (x1, s1)" by fastforce
  have T0: "table_at (pg_mem s) r [] r" by (simp add: table_at_def)
  note G1 = get_or_create_spec [OF F r T0 _ ix(1) g1, simplified]
  have ?P
  proof (cases x1)
    case None
    then show ?thesis using g g1 G1 by (auto simp: map_page_def same_leaves_def)
  next
    case (Some pdpt)
    obtain x2 s2 where g2: "get_or_create pdpt (pdpt_index v) s1 = (x2, s2)" by fastforce
    note G2 = get_or_create_spec [OF G1(1) r G1(3) [OF Some] _ ix(2) g2, simplified]
    have gr2: "grows r s s2" if "frame_busy (pg_pmm s) 0"
      using grows_trans G1(5,6) G2(6) that by blast
    show ?thesis
    proof (cases x2)
      case None
      then show ?thesis using g g1 g2 Some G1 G2 gr2 by (auto simp: map_page_def same_leaves_def)
    next
      case Some2: (Some pd)
      obtain x3 s3 where g3: "get_or_create pd (pd_index v) s2 = (x3, s3)" by fastforce
      note G3 = get_or_create_spec [OF G2(1) r G2(3) [OF Some2] _ ix(3) g3, simplified]
      have gr3: "grows r s s3" if "frame_busy (pg_pmm s) 0"
        using grows_trans [OF gr2 [OF that]] G1(5) G2(5) G3(6) that by blast
      show ?thesis
      proof (cases x3)
        case None
        then show ?thesis using g g1 g2 g3 Some Some2 G1 G2 G3 gr3
          by (auto simp: map_page_def same_leaves_def)
      next
        case Some3: (Some pt)
        then have s': "s' = set_entry pt (vpn v mod 512) e s3" and res: "res = Inr ()"
          using g g1 g2 g3 Some Some2 ix(4) by (auto simp: map_page_def)
        note S = set_leaf_spec [OF G3(1) r vpn_less G3(3) [OF Some3, unfolded vp] s']
        have same: "pg_pmm s' = pg_pmm s3" "g_domain_pagetables s' = g_domain_pagetables s3"
          by (simp_all add: s' set_entry_def)
        have "tree_frames (pg_mem s') 3 r = tree_frames (pg_mem s3) 3 r"
          using S(3) [OF r] by (auto simp: tree_frames_table_at)
        then have "frame_busy (pg_pmm s) 0 \<longrightarrow> grows r s s'"
          using gr3 by (auto simp: grows_def same)
        then show ?thesis
          using S(1,2) G1(2,4,5) G2(2,4,5) G3(2,4,5) res same by (auto simp: same_leaves_def)
      qed
    qed
  qed
  then show "pt_forest R s'"
    and "r' \<in> R \<Longrightarrow> y < 2 ^ 36 \<Longrightarrow> leaf (pg_mem s') r' y =
       (if res = Inr () \<and> r' = r \<and> y = vpn v then e else leaf (pg_mem s) r' y)"
    and "res = Inr () \<or> res = Inl HIC_ERROR_NO_MEMORY"
    and "frame_busy (pg_pmm s) j \<Longrightarrow> frame_busy (pg_pmm s') j"
    and "g_domain_pagetables s' = g_domain_pagetables s"
    and "frame_busy (pg_pmm s) 0 \<Longrightarrow> grows r s s'" by blast+
qed

lemma vpn_add: "vpn (v + of_nat j * PAGE_SIZE_4K) = (vpn v + j) mod 2 ^ 36"
proof -
  have "unat (v + of_nat j * PAGE_SIZE_4K) = (unat v + j * 4096) mod 2 ^ 64"
    by (simp add: pt_consts unat_word_ariths unat_of_nat mod_simps)
  moreover have "a mod 2 ^ 64 div 4096 mod 2 ^ 36 = a div 4096 mod 2 ^ 36" for a :: nat
  proof -
    have "a mod 2 ^ 64 div 4096 mod 2 ^ 36 = take_bit 36 (drop_bit 12 (take_bit 64 a))"
      by (simp add: take_bit_eq_mod drop_bit_eq_div)
    also have "\<dots> = take_bit 36 (drop_bit 12 a)"
      by (auto simp: bit_eq_iff bit_simps)
    finally show ?thesis by (simp add: take_bit_eq_mod drop_bit_eq_div)
  qed
  ultimately show ?thesis by (simp add: vpn_def mod_simps add.commute)
qed

lemma vpn_distinct:
  assumes "vpn (v + of_nat i * PAGE_SIZE_4K) = vpn (v + of_nat j * PAGE_SIZE_4K)"
    and "i < 2 ^ 36" "j < 2 ^ 36"
  shows "i = j"
proof -
  have *: "(a + b) mod 2 ^ 36 = (if a + b < 2 ^ 36 then a + b else a + b - 2 ^ 36)"
    if "a < 2 ^ 36" "b < 2 ^ 36" for a b :: nat
    using that by (simp add: mod_if)
  show ?thesis
    using assms(1) * [OF vpn_less assms(2), of v] * [OF vpn_less assms(3), of v] assms(2,3) vpn_less [of v]
    unfolding vpn_add by (auto split: if_splits)
qed

lemma next_page: "v + PAGE_SIZE_4K + of_nat j * PAGE_SIZE_4K = v + of_nat (Suc j) * PAGE_SIZE_4K"
  by (simp add: algebra_simps)

lemma map_loop_spec:
  assumes "pt_forest R s" and r: "r \<in> R" and "map_loop n r v ph flags s = (res, s')"
  shows "pt_forest R s' \<and>
     (\<forall>r'\<in>R. \<forall>y<2 ^ 36. r' \<noteq> r \<or> (\<forall>j<n. y \<noteq> vpn (v + of_nat j * PAGE_SIZE_4K)) \<longrightarrow>
       leaf (pg_mem s') r' y = leaf (pg_mem s) r' y) \<and>
     (res = Inr () \<longrightarrow> n \<le> 2 ^ 36 \<longrightarrow> (\<forall>i<n.
       leaf (pg_mem s') r (vpn (v + of_nat i * PAGE_SIZE_4K)) = (ph + of_nat i * PAGE_SIZE_4K) OR flags)) \<and>
     (res = Inr () \<or> res = Inl HIC_ERROR_NO_MEMORY) \<and>
     (\<forall>k. frame_busy (pg_pmm s) k \<longrightarrow> frame_busy (pg_pmm s') k) \<and>
     g_domain_pagetables s' = g_domain_pagetables s \<and>
     (frame_busy (pg_pmm s) 0 \<longrightarrow> grows r s s')"
  using assms(1,3)
proof (induction n arbitrary: v ph s)
  case 0
  then show ?case using grows_refl [OF 0(1) r] by simp
next
  case (Suc n)
  obtain x s1 where mp: "map_page r v (ph OR flags) s = (x, s1)" by fastforce
  note M = map_page_spec [OF Suc.prems(1) r mp]
  show ?case
  proof (cases x)
    case (Inl e)
    then have "res = x" "s' = s1" using Suc.prems(2) mp by auto
    then show ?thesis using M Inl by auto
  next
    case (Inr u)
    then have x: "x = Inr ()" by simp
    have rest: "map_loop n r (v + PAGE_SIZE_4K) (ph + PAGE_SIZE_4K) flags s1 = (res, s')"
      using Suc.prems(2) mp x by simp
    note IH = Suc.IH [OF M(1) rest, unfolded next_page]
    have same: "leaf (pg_mem s') r' y = leaf (pg_mem s) r' y"
      if "r' \<in> R" "y < 2 ^ 36" "r' \<noteq> r \<or> (\<forall>j<Suc n. y \<noteq> vpn (v + of_nat j * PAGE_SIZE_4K))" for r' y
    proof -
      have "r' \<noteq> r \<or> y \<noteq> vpn v" using that(3) by (auto dest: spec [of _ 0])
      then have "leaf (pg_mem s1) r' y = leaf (pg_mem s) r' y" using M(2) [OF that(1,2)] by auto
      moreover have "leaf (pg_mem s') r' y = leaf (pg_mem s1) r' y"
        using IH that Suc_less_eq [of _ n] by blast
      ultimately show ?thesis by simp
    qed
    have hit: "leaf (pg_mem s') r (vpn (v + of_nat i * PAGE_SIZE_4K)) = (ph + of_nat i * PAGE_SIZE_4K) OR flags"
      if "res = Inr ()" "Suc n \<le> 2 ^ 36" "i < Suc n" for i
    proof (cases i)
      case 0
      have "vpn v \<noteq> vpn (v + of_nat (Suc j) * PAGE_SIZE_4K)" if "j < n" for j
        using vpn_distinct [of v 0 "Suc j"] that \<open>Suc n \<le> 2 ^ 36\<close> by auto
      then have "leaf (pg_mem s') r (vpn v) = leaf (pg_mem s1) r (vpn v)"
        using IH r vpn_less by blast
      then show ?thesis using 0 M(2) [OF r vpn_less, of v] x by simp
    next
      case (Suc j)
      then show ?thesis using IH that by (simp del: of_nat_Suc)
    qed
    show ?thesis
    proof (intro conjI)
      show "\<forall>r'\<in>R. \<forall>y<2 ^ 36. r' \<noteq> r \<or> (\<forall>j<Suc n. y \<noteq> vpn (v + of_nat j * PAGE_SIZE_4K)) \<longrightarrow>
         leaf (pg_mem s') r' y = leaf (pg_mem s) r' y" using same by blast
      show "res = Inr () \<longrightarrow> Suc n \<le> 2 ^ 36 \<longrightarrow> (\<forall>i<Suc n.
         leaf (pg_mem s') r (vpn (v + of_nat i * PAGE_SIZE_4K)) = (ph + of_nat i * PAGE_SIZE_4K) OR flags)"
        using hit by blast
      show "\<forall>k. frame_busy (pg_pmm s) k \<longrightarrow> frame_busy (pg_pmm s') k" using IH M(4) by blast
      show "g_domain_pagetables s' = g_domain_pagetables s" using IH M(5) by simp
      show "frame_busy (pg_pmm s) 0 \<longrightarrow> grows r s s'" using IH M(4,6) grows_trans by blast
    qed (use IH in blast)+
  qed
qed

lemma walk_eqI:
  assumes "\<And>t. table_at m' r q t \<longleftrightarrow> table_at m r q t" and "length q \<le> 3"
  shows "walk m' r q = walk m r q"
  using assms(1) [of "the (walk m r q)"] assms(1) [of "the (walk m' r q)"] assms(2)
  by (cases "walk m r q"; cases "walk m' r q") (simp_all add: table_at_def)

lemma update_loop_spec:
  assumes "pt_forest R s" and r: "r \<in> R"
  shows "pt_forest R (update_loop f n r v s) \<and>
     (\<forall>r'\<in>R. \<forall>q t. table_at (pg_mem (update_loop f n r v s)) r' q t \<longleftrightarrow> table_at (pg_mem s) r' q t) \<and>
     (\<forall>r'\<in>R. \<forall>y<2 ^ 36. r' \<noteq> r \<or> (\<forall>j<n. y \<noteq> vpn (v + of_nat j * PAGE_SIZE_4K)) \<longrightarrow>
       leaf (pg_mem (update_loop f n r v s)) r' y = leaf (pg_mem s) r' y) \<and>
     (n \<le> 2 ^ 36 \<longrightarrow> (\<forall>i<n. let y = vpn (v + of_nat i * PAGE_SIZE_4K) in
       leaf (pg_mem (update_loop f n r v s)) r y =
         (if walk (pg_mem s) r (vpath y) = None then 0 else f (leaf (pg_mem s) r y)))) \<and>
     pg_pmm (update_loop f n r v s) = pg_pmm s \<and>
     g_domain_pagetables (update_loop f n r v s) = g_domain_pagetables s"
  using assms(1)
proof (induction n arbitrary: v s)
  case 0
  then show ?case by simp
next
  case (Suc n)
  let ?y = "\<lambda>j. vpn (v + of_nat j * PAGE_SIZE_4K)"
  define s1 where "s1 = (case find_pt (pg_mem s) r v of None \<Rightarrow> s
      | Some pt \<Rightarrow> set_entry pt (pt_index v) (f (pg_mem s pt (pt_index v))) s)"
  define s' where "s' = update_loop f (Suc n) r v s"
  have s': "s' = update_loop f n r (v + PAGE_SIZE_4K) s1" by (simp add: s'_def s1_def)
  have S: "pt_forest R s1 \<and> (\<forall>r'\<in>R. \<forall>q t. table_at (pg_mem s1) r' q t \<longleftrightarrow> table_at (pg_mem s) r' q t) \<and>
     (\<forall>r'\<in>R. \<forall>y<2 ^ 36. leaf (pg_mem s1) r' y = (if r' = r \<and> y = vpn v
         then if walk (pg_mem s) r (vpath y) = None then 0 else f (leaf (pg_mem s) r y)
         else leaf (pg_mem s) r' y)) \<and>
     pg_pmm s1 = pg_pmm s \<and> g_domain_pagetables s1 = g_domain_pagetables s"
  proof (cases "walk (pg_mem s) r (vpath (vpn v))")
    case None
    then show ?thesis using Suc.prems by (auto simp: s1_def find_pt_walk leaf_def)
  next
    case (Some pt)
    then have T: "table_at (pg_mem s) r (vpath (vpn v)) pt" by (simp add: table_at_def)
    have L: "leaf (pg_mem s) r (vpn v) = pg_mem s pt (pt_index v)" using Some by (simp add: leaf_def index_vpn)
    have s1: "s1 = set_entry pt (vpn v mod 512) (f (leaf (pg_mem s) r (vpn v))) s"
      using Some by (simp add: s1_def find_pt_walk L index_vpn)
    note SL = set_leaf_spec [OF Suc.prems r vpn_less T s1]
    have "pg_pmm s1 = pg_pmm s \<and> g_domain_pagetables s1 = g_domain_pagetables s"
      by (simp add: s1 set_entry_def)
    then show ?thesis using SL Some by auto
  qed
  then have F1: "pt_forest R s1" by blast
  note IH = Suc.IH [OF F1, of "v + PAGE_SIZE_4K", unfolded next_page, folded s']
  have W: "walk (pg_mem s1) r (vpath y) = walk (pg_mem s) r (vpath y)" for y
    using S r by (intro walk_eqI) simp_all
  have same: "leaf (pg_mem s') r' y = leaf (pg_mem s) r' y"
    if "r' \<in> R" "y < 2 ^ 36" "r' \<noteq> r \<or> (\<forall>j<Suc n. y \<noteq> ?y j)" for r' y
  proof -
    have "r' \<noteq> r \<or> y \<noteq> vpn v" using that(3) by (auto dest: spec [of _ 0])
    then have "leaf (pg_mem s1) r' y = leaf (pg_mem s) r' y" using S that(1,2) by auto
    moreover have "leaf (pg_mem s') r' y = leaf (pg_mem s1) r' y"
      using IH that Suc_less_eq [of _ n] by blast
    ultimately show ?thesis by simp
  qed
  have hit: "leaf (pg_mem s') r (?y i) =
      (if walk (pg_mem s) r (vpath (?y i)) = None then 0 else f (leaf (pg_mem s) r (?y i)))"
    if "Suc n \<le> 2 ^ 36" "i < Suc n" for i
  proof (cases i)
    case 0
    have "vpn v \<noteq> ?y (Suc j)" if "j < n" for j
      using vpn_distinct [of v 0 "Suc j"] that \<open>Suc n \<le> 2 ^ 36\<close> by auto
    then have "leaf (pg_mem s') r (vpn v) = leaf (pg_mem s1) r (vpn v)"
      using IH r vpn_less by blast
    then show ?thesis using 0 S r vpn_less [of v] by simp
  next
    case (Suc j)
    have "?y (Suc j) \<noteq> vpn v" using vpn_distinct [of v "Suc j" 0] that Suc by auto
    then have "leaf (pg_mem s1) r (?y (Suc j)) = leaf (pg_mem s) r (?y (Suc j))"
      using S [THEN conjunct2, THEN conjunct2, THEN conjunct1, rule_format, OF r vpn_less] by simp
    moreover have "n \<le> 2 ^ 36" "j < n" using that Suc by simp_all
    then have "leaf (pg_mem s') r (?y (Suc j)) = (if walk (pg_mem s1) r (vpath (?y (Suc j))) = None then 0
        else f (leaf (pg_mem s1) r (?y (Suc j))))"
      using IH unfolding Let_def by blast
    ultimately show ?thesis using W Suc by (simp only:)
  qed
  show ?case unfolding s'_def [symmetric] Let_def
  proof (intro conjI)
    show "\<forall>r'\<in>R. \<forall>y<2 ^ 36. r' \<noteq> r \<or> (\<forall>j<Suc n. y \<noteq> ?y j) \<longrightarrow>
       leaf (pg_mem s') r' y = leaf (pg_mem s) r' y" using same by blast
    show "Suc n \<le> 2 ^ 36 \<longrightarrow> (\<forall>i<Suc n. leaf (pg_mem s') r (?y i) =
      (if walk (pg_mem s) r (vpath (?y i)) = None then 0 else f (leaf (pg_mem s) r (?y i))))"
      using hit by blast
  qed (use IH S in \<open>simp_all\<close>)
qed

section \<open>Destroying a tree\<close>

definition tree_ok :: "nat \<Rightarrow> u64 \<Rightarrow> paging \<Rightarrow> bool" where
  "tree_ok l r s \<longleftrightarrow> pmm_wf (pg_pmm s) \<and>
     (\<forall>p a. length p \<le> l \<longrightarrow> walk (pg_mem s) r p = Some a \<longrightarrow>
        a \<noteq> 0 \<and> frame_busy (pg_pmm s) (unat a div 4096)) \<and>
     (\<forall>p p' a a'. length p \<le> l \<longrightarrow> length p' \<le> l \<longrightarrow> walk (pg_mem s) r p = Some a \<longrightarrow>
        walk (pg_mem s) r p' = Some a' \<longrightarrow> unat a div 4096 = unat a' div 4096 \<longrightarrow> p = p')"

definition frees_exactly :: "nat set \<Rightarrow> paging \<Rightarrow> paging \<Rightarrow> bool" where
  "frees_exactly J s s' \<longleftrightarrow> pmm_wf (pg_pmm s') \<and> s' = s\<lparr> pg_pmm := pg_pmm s' \<rparr> \<and>
     (\<forall>j. frame_busy (pg_pmm s') j \<longleftrightarrow> frame_busy (pg_pmm s) j \<and> j \<notin> J)"

lemma free_page_table_exactly:
  assumes wf: "pmm_wf (pg_pmm s)" and "t \<noteq> 0" and busy: "frame_busy (pg_pmm s) (unat t div 4096)"
  shows "frees_exactly {unat t div 4096} s (free_page_table t s)"
proof -
  have f: "frames_at t 1 = {unat t div 4096}" by (auto simp: frames_at_def)
  obtain p where fr: "pmm_free_frames t 1 (pg_pmm s) = (Inr (), p)"
    using pmm.release_total [OF wf, of 1 t] busy f by auto
  show ?thesis
    using pmm.release_sound [OF wf fr] pmm.release_busy [OF wf fr] f assms(2)
    by (simp add: frees_exactly_def free_page_table_def fr)
qed

lemma tree_frames_Suc:
  "tree_frames m (Suc l) r = insert (unat r div 4096)
     (\<Union>i\<in>{i. i < 512 \<and> entry_present (m r i)}. tree_frames m l (entry_table (m r i)))"
proof (intro set_eqI iffI)
  fix j
  assume "j \<in> tree_frames m (Suc l) r"
  then obtain p a where "length p \<le> Suc l" "walk m r p = Some a" "j = unat a div 4096"
    by (auto simp: tree_frames_def)
  then show "j \<in> insert (unat r div 4096)
     (\<Union>i\<in>{i. i < 512 \<and> entry_present (m r i)}. tree_frames m l (entry_table (m r i)))"
    by (cases p) (auto simp: tree_frames_def split: if_splits)
next
  fix j
  assume j: "j \<in> insert (unat r div 4096)
     (\<Union>i\<in>{i. i < 512 \<and> entry_present (m r i)}. tree_frames m l (entry_table (m r i)))"
  show "j \<in> tree_frames m (Suc l) r"
  proof (cases "j = unat r div 4096")
    case True
    then show ?thesis unfolding tree_frames_def by (intro CollectI exI [of _ "[]"]) auto
  next
    case False
    then obtain i p a where "i < 512" "entry_present (m r i)" "length p \<le> l"
      "walk m (entry_table (m r i)) p = Some a" "j = unat a div 4096"
      using j by (auto simp: tree_frames_def)
    then show ?thesis unfolding tree_frames_def by (intro CollectI exI [of _ "i # p"]) auto
  qed
qed

lemma tree_okD:
  assumes "tree_ok l r s" "length p \<le> l" "walk (pg_mem s) r p = Some a"
  shows "a \<noteq> 0" "frame_busy (pg_pmm s) (unat a div 4096)"
    and "length p' \<le> l \<Longrightarrow> walk (pg_mem s) r p' = Some a' \<Longrightarrow> unat a div 4096 = unat a' div 4096 \<Longrightarrow> p = p'"
  using assms unfolding tree_ok_def by blast+

lemma frees_exactlyD:
  assumes "frees_exactly J s s'"
  shows "pmm_wf (pg_pmm s')" "pg_mem s' = pg_mem s" "g_domain_pagetables s' = g_domain_pagetables s"
    and "frame_busy (pg_pmm s') j \<longleftrightarrow> frame_busy (pg_pmm s) j \<and> j \<notin> J"
proof -
  have e: "s' = s\<lparr> pg_pmm := pg_pmm s' \<rparr>" using assms by (simp add: frees_exactly_def)
  show "pg_mem s' = pg_mem s" by (subst e) simp
  show "g_domain_pagetables s' = g_domain_pagetables s" by (subst e) simp
qed (use assms in \<open>auto simp: frees_exactly_def\<close>)

lemma frees_exactly_trans:
  assumes A: "frees_exactly J s s1" and B: "frees_exactly K s1 s2"
  shows "frees_exactly (J \<union> K) s s2"
proof -
  have "s1 = s\<lparr> pg_pmm := pg_pmm s1 \<rparr>" "s2 = s1\<lparr> pg_pmm := pg_pmm s2 \<rparr>"
    using A B by (simp_all add: frees_exactly_def)
  then have "s2 = s\<lparr> pg_pmm := pg_pmm s2 \<rparr>" by (metis paging.update_convs(1) paging.surjective)
  then show ?thesis using frees_exactlyD(4) [OF A] frees_exactlyD(1,4) [OF B]
    by (auto simp: frees_exactly_def)
qed

lemma tree_ok_child:
  assumes T: "tree_ok (Suc l) r s" and k: "k < 512" "entry_present (pg_mem s r k)"
    and fe: "frees_exactly J s t"
    and J: "\<And>p a. walk (pg_mem s) r (k # p) = Some a \<Longrightarrow> length p \<le> l \<Longrightarrow> unat a div 4096 \<notin> J"
  shows "tree_ok l (entry_table (pg_mem s r k)) t"
proof -
  let ?c = "entry_table (pg_mem s r k)"
  have step: "walk (pg_mem s) ?c p = walk (pg_mem s) r (k # p)" for p using k by simp
  show ?thesis
    unfolding tree_ok_def frees_exactlyD(2) [OF fe] step
  proof (intro conjI allI impI)
    show "pmm_wf (pg_pmm t)" by (rule frees_exactlyD(1) [OF fe])
    show "a \<noteq> 0" "frame_busy (pg_pmm t) (unat a div 4096)"
      if "length p \<le> l" "walk (pg_mem s) r (k # p) = Some a" for p a
      using tree_okD(1,2) [OF T, of "k # p" a] that J [of p a] frees_exactlyD(4) [OF fe] by simp_all
    show "p = p'"
      if "length p \<le> l" "length p' \<le> l" "walk (pg_mem s) r (k # p) = Some a"
        "walk (pg_mem s) r (k # p') = Some a'" "unat a div 4096 = unat a' div 4096" for p p' a a'
      using tree_okD(3) [OF T _ that(3), of "k # p'" a'] that by simp
  qed
qed

lemma free_tree_exactly:
  assumes "tree_ok l r s"
  shows "frees_exactly (tree_frames (pg_mem s) l r) s (free_page_table_tree l r s)"
  using assms
proof (induction l arbitrary: r s)
  case 0
  have "tree_frames (pg_mem s) 0 r = {unat r div 4096}" by (auto simp: tree_frames_def)
  moreover have "r \<noteq> 0" "frame_busy (pg_pmm s) (unat r div 4096)" using tree_okD [OF 0, of "[]"] by simp_all
  ultimately show ?case using free_page_table_exactly [of s r] 0 by (simp add: tree_ok_def)
next
  case (Suc l)
  let ?m = "pg_mem s"
  let ?f = "\<lambda>i t. let entry = pg_mem t r i in if entry_present entry
      then free_page_table_tree l (entry_table entry) t else t"
  let ?J = "\<lambda>k. \<Union>i\<in>{i. i < k \<and> i < 512 \<and> entry_present (?m r i)}. tree_frames ?m l (entry_table (?m r i))"
  have J: "\<exists>i p a. i < k \<and> length p \<le> l \<and> walk ?m r (i # p) = Some a \<and> j = unat a div 4096" if "j \<in> ?J k" for j k
    using that unfolding tree_frames_def by fastforce
  have root: "r \<noteq> 0" "frame_busy (pg_pmm s) (unat r div 4096)" using tree_okD [OF Suc.prems, of "[]"] by simp_all
  have loop: "frees_exactly (?J 512) s (for_range ?f 0 512 s)"
  proof (rule for_range_induct [where I = "\<lambda>k t. frees_exactly (?J k) s t"])
    show "frees_exactly (?J 0) s s" using Suc.prems by (simp add: frees_exactly_def tree_ok_def)
    fix k t
    assume k: "k < 512" and I: "frees_exactly (?J k) s t"
    note mt = frees_exactlyD(2) [OF I]
    show "frees_exactly (?J (Suc k)) s (?f (0 + k) t)"
    proof (cases "entry_present (?m r k)")
      case False
      then have "?J (Suc k) = ?J k" by (auto simp: less_Suc_eq)
      then show ?thesis using False I mt by simp
    next
      case True
      let ?c = "entry_table (?m r k)"
      have "unat a div 4096 \<notin> ?J k" if "walk ?m r (k # p) = Some a" "length p \<le> l" for p a
      proof
        assume "unat a div 4096 \<in> ?J k"
        from J [OF this] obtain i q b where "i < k" "length q \<le> l" "walk ?m r (i # q) = Some b"
          "unat a div 4096 = unat b div 4096" by blast
        then show False using tree_okD(3) [OF Suc.prems _ that(1), of "i # q" b] that(2) by simp
      qed
      then have "tree_ok l ?c t" by (rule tree_ok_child [OF Suc.prems k True I])
      from Suc.IH [OF this] have "frees_exactly (?J k \<union> tree_frames ?m l ?c) s (free_page_table_tree l ?c t)"
        unfolding mt by (rule frees_exactly_trans [OF I])
      moreover have "?J (Suc k) = ?J k \<union> tree_frames ?m l ?c" using True k by (auto simp: less_Suc_eq)
      ultimately show ?thesis using True mt by (simp add: Let_def)
    qed
  qed
  define t where "t = for_range ?f 0 512 s"
  have "unat r div 4096 \<notin> ?J 512"
  proof
    assume "unat r div 4096 \<in> ?J 512"
    from J [OF this] obtain i q b where "length q \<le> l" "walk ?m r (i # q) = Some b"
      "unat r div 4096 = unat b div 4096" by blast
    then show False using tree_okD(3) [OF Suc.prems, of "[]" r "i # q" b] by simp
  qed
  then have "frees_exactly {unat r div 4096} t (free_page_table r t)"
    using loop root by (intro free_page_table_exactly) (auto simp: frees_exactlyD [OF loop] t_def)
  then have "frees_exactly (?J 512 \<union> {unat r div 4096}) s (free_page_table r t)"
    using loop frees_exactly_trans unfolding t_def by blast
  moreover have "?J 512 \<union> {unat r div 4096} = tree_frames ?m (Suc l) r"
    unfolding tree_frames_Suc by auto
  ultimately show ?case using root(1) by (simp add: t_def)
qed

lemma destroy_forest:
  assumes F: "pt_forest R s" and r: "r \<in> R"
  shows "frees_exactly (tree_frames (pg_mem s) 3 r) s (pagetable_destroy r s)"
    and "pt_forest (R - {r}) (pagetable_destroy r s)"
proof -
  have ok: "tree_ok 3 r s"
  proof -
    have "p = p'" if "table_at (pg_mem s) r p a" "table_at (pg_mem s) r p' a'" "unat a div 4096 = unat a' div 4096"
      for p p' a a'
      using page_aligned_eqI [OF _ _ that(3)] forest_table(2) [OF F r] forest_inj(2) [OF F r r] that by metis
    then show ?thesis
      using forest_wf [OF F] forest_table [OF F r] unfolding tree_ok_def table_at_def by blast
  qed
  have "r \<noteq> 0" using forest_table(1) [OF F r, of "[]" r] by (simp add: table_at_def)
  then show fe: "frees_exactly (tree_frames (pg_mem s) 3 r) s (pagetable_destroy r s)"
    using free_tree_exactly [OF ok] by (simp add: pagetable_destroy_def)
  have notin: "unat t div 4096 \<notin> tree_frames (pg_mem s) 3 r"
    if "r' \<in> R - {r}" and T: "table_at (pg_mem s) r' q t" for r' q t
  proof
    assume "unat t div 4096 \<in> tree_frames (pg_mem s) 3 r"
    then obtain p a where A: "table_at (pg_mem s) r p a" and e: "unat t div 4096 = unat a div 4096"
      by (auto simp: tree_frames_def table_at_def)
    have "t = a" using forest_table(2) [OF F] A T r that(1) e by (intro page_aligned_eqI) auto
    then show False using forest_inj(1) [OF F _ r T] A that(1) by auto
  qed
  show "pt_forest (R - {r}) (pagetable_destroy r s)"
  proof (rule pt_forestI, unfold frees_exactlyD(2) [OF fe])
    show "pmm_wf (pg_pmm (pagetable_destroy r s))" by (rule frees_exactlyD(1) [OF fe])
    show "t \<noteq> 0 \<and> page_aligned t \<and> frame_busy (pg_pmm (pagetable_destroy r s)) (unat t div 4096)"
      if "r' \<in> R - {r}" "table_at (pg_mem s) r' q t" for r' q t
      using forest_table [OF F _ that(2)] that(1) notin [OF that] frees_exactlyD(4) [OF fe] by simp
    show "r1 = r2 \<and> p1 = p2" if "r1 \<in> R - {r}" "r2 \<in> R - {r}" "table_at (pg_mem s) r1 p1 t"
      "table_at (pg_mem s) r2 p2 t" for r1 r2 p1 p2 t
      using forest_inj [OF F _ _ that(3,4)] that(1,2) by simp
  qed
qed

section \<open>Aligned ranges\<close>

lemma unat_and_fff: "unat (a AND 0xFFF :: u64) = unat a mod 4096"
proof -
  have "a AND 0xFFF = take_bit 12 a" by (simp add: mask_12 take_bit_eq_mask)
  then have "unat (a AND 0xFFF) = take_bit 12 (unat a)" by (simp only: unsigned_take_bit_eq)
  then show ?thesis by (simp add: take_bit_eq_mod)
qed

lemma page_aligned_unat: "page_aligned a \<longleftrightarrow> unat a mod 4096 = 0"
  unfolding page_aligned_def by (simp only: word_unat_eq_iff unat_and_fff unat_0)

lemma page_alignedE:
  assumes "page_aligned a"
  obtains q where "unat a = 4096 * q" "q < 2 ^ 52"
proof -
  from assms have "4096 dvd unat a" by (simp add: page_aligned_unat dvd_eq_mod_eq_0)
  then obtain q where q: "unat a = 4096 * q" by (rule dvdE)
  moreover have "unat a < 2 ^ LENGTH(64)" by (rule unsigned_less)
  then have "q < 2 ^ 52" using q by simp
  ultimately show thesis by (rule that)
qed

lemma unat_aligned_offset:
  assumes "page_aligned a" "k < 4096"
  shows "unat (a + of_nat k) = unat a + k"
proof -
  obtain q where q: "unat a = 4096 * q" "q < 2 ^ 52" using assms(1) by (rule page_alignedE)
  then have "unat a + k < 2 ^ 64" using q assms(2) by simp
  then show ?thesis using assms(2) by (simp add: unat_word_ariths unat_of_nat)
qed

lemma aligned_offset:
  assumes "page_aligned a" "k < 4096"
  shows "vpn (a + of_nat k) = vpn a" and "(a + of_nat k) AND 0xFFF = of_nat k"
proof -
  note u = unat_aligned_offset [OF assms]
  obtain q where "unat a = 4096 * q" using assms(1) by (rule page_alignedE)
  then have "(unat a + k) div 4096 = unat a div 4096" "(unat a + k) mod 4096 = k"
    using assms(2) by simp_all
  then show "vpn (a + of_nat k) = vpn a" and "(a + of_nat k) AND 0xFFF = of_nat k"
    using assms(2) by (simp_all only: vpn_def u word_unat_eq_iff unat_and_fff) (simp add: unat_of_nat)
qed

lemma aligned_page_step: "page_aligned a \<Longrightarrow> page_aligned (a + of_nat j * PAGE_SIZE_4K)"
proof -
  assume "page_aligned a"
  moreover have "unat (a + of_nat j * PAGE_SIZE_4K) = (unat a + j * 4096) mod 2 ^ 64"
    by (simp add: pt_consts unat_word_ariths unat_of_nat mod_simps)
  moreover have "(unat a + j * 4096) mod 2 ^ 64 mod 4096 = (unat a + j * 4096) mod 4096"
    by (rule mod_mod_cancel) simp
  ultimately show ?thesis unfolding page_aligned_unat by (simp only: mod_mult_self3 mod_mult_self1 mod_mult_self2)
qed

lemma PAGE_ALIGN_UP_unat:
  assumes "unat a + 4095 < 2 ^ 64"
  shows "unat (PAGE_ALIGN_UP a PAGE_SIZE_4K) = (unat a + 4095) div 4096 * 4096"
proof -
  have e: "PAGE_ALIGN_UP a PAGE_SIZE_4K = (a + 4095) AND NOT (PAGE_SIZE - 1)"
    by (simp add: PAGE_ALIGN_UP_def pt_consts hic_consts add.commute)
  have "unat (a + 4095) = unat a + 4095" using assms by (simp add: unat_word_ariths)
  then show ?thesis unfolding e unat_page_down by simp
qed

lemma PAGE_ALIGN_UP_aligned:
  assumes "page_aligned a"
  shows "PAGE_ALIGN_UP a PAGE_SIZE_4K = a"
proof -
  obtain q where q: "unat a = 4096 * q" "q < 2 ^ 52" using assms by (rule page_alignedE)
  moreover have "unat a + 4095 < 2 ^ 64" using q by simp
  ultimately show ?thesis using PAGE_ALIGN_UP_unat [of a] by (simp add: word_unat_eq_iff)
qed

lemma page_count_eq:
  assumes "unat sz \<le> 2 ^ 48"
  shows "page_count sz = (unat sz + 4095) div 4096"
  using PAGE_ALIGN_UP_unat [of sz] assms
  by (simp add: page_count_def unat_div_distrib pt_consts)

lemma map_flags_ok:
  assumes "entry_present perm" "perm AND NOT 0xFFF = 0"
  shows "entry_present (map_flags perm type)" "map_flags perm type AND NOT 0xFFF = 0"
proof -
  show "entry_present (map_flags perm type)"
    using assms(1) unfolding present_bit by (simp add: map_flags_def bit_simps pt_consts)
  have "bit perm n \<Longrightarrow> n < 12" for n
    using assms(2) bit_imp_le_length [of perm n] unfolding mask_12
    by (auto simp: bit_eq_iff bit_simps dest!: spec [of _ n])
  moreover have "bit (4 :: u64) n \<Longrightarrow> n < 12" for n
    using bit_push_bit_iff [of 2 "1 :: u64" n] by (auto simp: push_bit_eq_mult bit_simps)
  ultimately show "map_flags perm type AND NOT 0xFFF = 0"
    unfolding mask_12 by (auto simp: map_flags_def pt_consts bit_eq_iff bit_simps)
qed

lemma range_pages_le: "unat (sz :: u64) \<le> 2 ^ 48 \<Longrightarrow> (unat sz + 4095) div 4096 \<le> 2 ^ 36"
  using div_le_mono [of "unat sz + 4095" "2 ^ 48 + 4095" 4096] by simp

lemma pagetable_map_cases:
  assumes F: "pt_forest R s" and r: "r \<in> R" and "0 < sz" "unat sz \<le> 2 ^ 48"
    and "page_aligned virt" "page_aligned phys"
    and g: "pagetable_map r virt phys sz perm type s = (res, s')"
  shows "map_loop ((unat sz + 4095) div 4096) r virt phys (map_flags perm type) s = (res, s')"
    and "(unat sz + 4095) div 4096 \<le> 2 ^ 36"
proof -
  have "r \<noteq> 0" using forest_table(1) [OF F r, of "[]" r] by (simp add: table_at_def)
  then show "map_loop ((unat sz + 4095) div 4096) r virt phys (map_flags perm type) s = (res, s')"
    using g assms(3,5,6) word_gt_0 [of sz] page_count_eq [OF assms(4)] by (simp add: pagetable_map_def PAGE_ALIGN_UP_aligned)
  show "(unat sz + 4095) div 4096 \<le> 2 ^ 36" by (rule range_pages_le [OF assms(4)])
qed

lemma page_offset_split:
  "x + of_nat k = x + of_nat (k div 4096) * PAGE_SIZE_4K + (of_nat (k mod 4096) :: u64)"
proof -
  have "(of_nat k :: u64) = of_nat (k div 4096 * 4096 + k mod 4096)" by simp
  then show ?thesis unfolding of_nat_add of_nat_mult by (simp add: pt_consts)
qed

lemma vpn_byte:
  assumes "page_aligned v"
  shows "vpn (v + of_nat k) = vpn (v + of_nat (k div 4096) * PAGE_SIZE_4K)"
    and "(v + of_nat k) AND 0xFFF = of_nat (k mod 4096)"
  unfolding page_offset_split [of v k]
  by (rule aligned_offset [OF aligned_page_step [OF assms]], simp)+

lemma map_translates:
  assumes F: "pt_forest R s" and r: "r \<in> R" and sz: "0 < sz" "unat sz \<le> 2 ^ 48"
    and al: "page_aligned virt" "page_aligned phys"
    and perm: "entry_present perm" "perm AND NOT 0xFFF = 0"
    and g: "pagetable_map r virt phys sz perm type s = (Inr (), s')" and k: "k < unat sz"
  shows "pagetable_get_phys r (virt + of_nat k) s' = phys + of_nat k"
proof -
  let ?j = "k div 4096" and ?o = "k mod 4096"
  note L = pagetable_map_cases [OF F r sz al g]
  note S = map_loop_spec [OF F r L(1)]
  have r0: "r \<noteq> 0" using forest_table(1) [OF F r, of "[]" r] by (simp add: table_at_def)
  have j: "?j < (unat sz + 4095) div 4096" using k by (simp add: div_less_iff_less_mult)
  note ap = aligned_page_step [OF al(2), of ?j]
  have lf: "leaf (pg_mem s') r (vpn (virt + of_nat k)) = (phys + of_nat ?j * PAGE_SIZE_4K) OR map_flags perm type"
    using S j L(2) unfolding vpn_byte(1) [OF al(1)] by simp
  have fl: "entry_present (leaf (pg_mem s') r (vpn (virt + of_nat k)))"
    using map_flags_ok(1) [OF perm] unfolding lf present_bit by (simp add: bit_simps)
  have "pagetable_get_phys r (virt + of_nat k) s' =
      entry_table (leaf (pg_mem s') r (vpn (virt + of_nat k))) + of_nat ?o"
    unfolding get_phys_leaf vpn_byte(2) [OF al(1)] using r0 fl by (simp only: if_False simp_thms)
  also have "\<dots> = phys + of_nat k"
    unfolding lf entry_table_flags [OF ap map_flags_ok(2) [OF perm]] page_offset_split [of phys k] ..
  finally show ?thesis .
qed

section \<open>Histories\<close>

text \<open>
  A history pairs the state with the set of roots created and not yet destroyed. Other users of
  the memory manager allocate blocks and give back blocks that are not page tables.
\<close>

inductive pt_step :: "paging \<times> u64 set \<Rightarrow> paging \<times> u64 set \<Rightarrow> bool" where
  create: "pagetable_create s = (a, s') \<Longrightarrow> pt_step (s, R) (s', if a = 0 then R else insert a R)"
| map_range: "r \<in> R \<Longrightarrow> pagetable_map r virt phys sz perm type s = (res, s') \<Longrightarrow> pt_step (s, R) (s', R)"
| unmap: "r \<in> R \<Longrightarrow> pagetable_unmap r virt sz s = (res, s') \<Longrightarrow> pt_step (s, R) (s', R)"
| set_perm: "r \<in> R \<Longrightarrow> pagetable_set_perm r virt sz perm s = (res, s') \<Longrightarrow> pt_step (s, R) (s', R)"
| set_root: "pagetable_setup_domain d root s = (res, s') \<Longrightarrow> pt_step (s, R) (s', R)"
| switch: "pt_step (s, R) (pagetable_switch root s, R)"
| destroy: "r \<in> R \<Longrightarrow> pt_step (s, R) (pagetable_destroy r s, R - {r})"
| client_alloc: "pmm_alloc_frames n True (pg_pmm s) = (Inr a, p') \<Longrightarrow> pt_step (s, R) (s\<lparr> pg_pmm := p' \<rparr>, R)"
| client_free: "pmm_free_frames a n (pg_pmm s) = (Inr (), p') \<Longrightarrow>
    (\<And>r. r \<in> R \<Longrightarrow> frames_at a n \<inter> tree_frames (pg_mem s) 3 r = {}) \<Longrightarrow>
    pt_step (s, R) (s\<lparr> pg_pmm := p' \<rparr>, R)"

inductive pt_reachable :: "paging \<times> u64 set \<Rightarrow> bool" where
  start: "pmm_wf (pg_pmm s) \<Longrightarrow> pt_reachable (s, {})"
| step: "pt_reachable c \<Longrightarrow> pt_step c c' \<Longrightarrow> pt_reachable c'"

lemma forest_same_tables:
  assumes "pt_forest R s" and "pg_mem s' = pg_mem s" and "pmm_wf (pg_pmm s')"
    and "\<And>r j. r \<in> R \<Longrightarrow> j \<in> tree_frames (pg_mem s) 3 r \<Longrightarrow> frame_busy (pg_pmm s') j"
  shows "pt_forest R s'"
proof (rule pt_forestI, unfold assms(2))
  show "pmm_wf (pg_pmm s')" by (rule assms(3))
  show "t \<noteq> 0 \<and> page_aligned t \<and> frame_busy (pg_pmm s') (unat t div 4096)"
    if "r \<in> R" "table_at (pg_mem s) r p t" for r p t
    using forest_table [OF assms(1) that] assms(4) [OF that(1)] that(2)
    by (auto simp: tree_frames_table_at)
  show "r = r' \<and> p = p'" if "r \<in> R" "r' \<in> R" "table_at (pg_mem s) r p t" "table_at (pg_mem s) r' p' t"
    for r r' p p' t using forest_inj [OF assms(1) that] by simp
qed

lemma forest_busy:
  assumes "pt_forest R s" "r \<in> R" "j \<in> tree_frames (pg_mem s) 3 r"
  shows "frame_busy (pg_pmm s) j"
  using assms forest_table(3) by (auto simp: tree_frames_table_at)

lemma create_forest:
  assumes F: "pt_forest R s" and "pagetable_create s = (a, s')"
  shows "pt_forest (if a = 0 then R else insert a R) s'"
    and "same_leaves R s s'"
    and "a \<noteq> 0 \<Longrightarrow> tree_frames (pg_mem s') 3 a = {unat a div 4096}"
    and "a \<noteq> 0 \<Longrightarrow> \<not> frame_busy (pg_pmm s) (unat a div 4096) \<and>
          (\<forall>j. frame_busy (pg_pmm s') j \<longleftrightarrow> frame_busy (pg_pmm s) j \<or> j = unat a div 4096)"
    and "frame_busy (pg_pmm s) k \<Longrightarrow> frame_busy (pg_pmm s') k"
proof -
  have al: "allocate_page_table s = (a, s')" using assms(2) by (simp add: pagetable_create_def)
  have "pt_forest (if a = 0 then R else insert a R) s' \<and> same_leaves R s s' \<and>
      (a \<noteq> 0 \<longrightarrow> tree_frames (pg_mem s') 3 a = {unat a div 4096} \<and> \<not> frame_busy (pg_pmm s) (unat a div 4096) \<and>
          (\<forall>j. frame_busy (pg_pmm s') j \<longleftrightarrow> frame_busy (pg_pmm s) j \<or> j = unat a div 4096)) \<and>
      (frame_busy (pg_pmm s) k \<longrightarrow> frame_busy (pg_pmm s') k)"
    using al forest_wf [OF F]
  proof (cases rule: allocate_cases)
    case refused
    then show ?thesis using F by simp
  next
    case (fresh pm)
    have pm: "pg_pmm s' = pm" by (simp add: fresh(1))
    note FP = fresh_page [OF F fresh(5,3) _ fresh(1)]
    have old: "pt_forest R s'" "same_leaves R s s'" by (rule FP, simp add: fresh(6))+
    have wa: "walk (pg_mem s') a p = (if p = [] then Some a else None)" for p
      by (cases p) (simp_all add: fresh(1) pt_consts)
    then have ta: "table_at (pg_mem s') a p t \<longleftrightarrow> p = [] \<and> t = a" for p t
      by (auto simp: table_at_def)
    have sep: "t \<noteq> a" if "r \<in> R" "table_at (pg_mem s') r p t" for r p t
    proof -
      have "table_at (pg_mem s) r p t" using that FP(3) [OF _ that(1)] fresh(6) by blast
      then show ?thesis using forest_table(3) [OF F that(1)] fresh(5) by auto
    qed
    have "pt_forest (insert a R) s'" if "a \<noteq> 0"
    proof (rule pt_forestI)
      show "pmm_wf (pg_pmm s')" using fresh(3) pm by simp
      show "t \<noteq> 0 \<and> page_aligned t \<and> frame_busy (pg_pmm s') (unat t div 4096)"
        if T: "r \<in> insert a R" "table_at (pg_mem s') r p t" for r p t
      proof (cases "r = a")
        case True
        then show ?thesis using T ta \<open>a \<noteq> 0\<close> fresh(4,6) pm by simp
      next
        case False
        then show ?thesis using T forest_table [OF old(1), of r p t] by simp
      qed
      show "r = r' \<and> p = p'"
        if "r \<in> insert a R" "r' \<in> insert a R" "table_at (pg_mem s') r p t" "table_at (pg_mem s') r' p' t"
        for r r' p p' t
        using that ta sep forest_inj [OF old(1), of r r' p t p'] by (metis insert_iff)
    qed
    moreover have "tree_frames (pg_mem s') 3 a = {unat a div 4096}"
      unfolding set_eq_iff tree_frames_table_at ta by auto
    ultimately show ?thesis using old fresh(5,6) pm by simp
  qed
  then show "pt_forest (if a = 0 then R else insert a R) s'" and "same_leaves R s s'"
    and "a \<noteq> 0 \<Longrightarrow> tree_frames (pg_mem s') 3 a = {unat a div 4096}"
    and "a \<noteq> 0 \<Longrightarrow> \<not> frame_busy (pg_pmm s) (unat a div 4096) \<and>
          (\<forall>j. frame_busy (pg_pmm s') j \<longleftrightarrow> frame_busy (pg_pmm s) j \<or> j = unat a div 4096)"
    and "frame_busy (pg_pmm s) k \<Longrightarrow> frame_busy (pg_pmm s') k" by blast+
qed

lemma map_forest:
  assumes "pt_forest R s" "r \<in> R" "pagetable_map r virt phys sz perm type s = (res, s')"
  shows "pt_forest R s'" and "frame_busy (pg_pmm s) 0 \<Longrightarrow> grows r s s'"
    and "g_domain_pagetables s' = g_domain_pagetables s"
    and "frame_busy (pg_pmm s) k \<Longrightarrow> frame_busy (pg_pmm s') k"
proof -
  have "pt_forest R s' \<and> (frame_busy (pg_pmm s) 0 \<longrightarrow> grows r s s') \<and> g_domain_pagetables s' = g_domain_pagetables s \<and>
      (frame_busy (pg_pmm s) k \<longrightarrow> frame_busy (pg_pmm s') k)"
  proof (cases "r = 0 \<or> sz = 0")
    case True
    then show ?thesis using assms grows_refl by (auto simp: pagetable_map_def)
  next
    case False
    then show ?thesis
      using assms(3) map_loop_spec [OF assms(1,2)] by (auto simp: pagetable_map_def)
  qed
  then show "pt_forest R s'" and "frame_busy (pg_pmm s) 0 \<Longrightarrow> grows r s s'"
    and "g_domain_pagetables s' = g_domain_pagetables s"
    and "frame_busy (pg_pmm s) k \<Longrightarrow> frame_busy (pg_pmm s') k" by blast+
qed

lemma forest_flush [simp]: "pt_forest R (pagetable_flush_tlb_all s) = pt_forest R s"
  by (simp add: pagetable_flush_tlb_all_def hal_set_cr3_def)

lemma forest_step:
  assumes "pt_step (s, R) (s', R')" and F: "pt_forest R s"
  shows "pt_forest R' s'"
  using assms(1)
proof cases
  case (create a)
  then show ?thesis using create_forest(1) [OF F] by simp
next
  case (map_range r virt phys sz perm type res)
  then show ?thesis using map_forest(1) [OF F] by simp
next
  case (unmap r virt sz res)
  then show ?thesis using F update_loop_spec [OF F] by (auto simp: pagetable_unmap_def split: if_splits)
next
  case (set_perm r virt sz perm res)
  then show ?thesis using F update_loop_spec [OF F] by (auto simp: pagetable_set_perm_def split: if_splits)
next
  case (set_root d root res)
  then have "pg_mem s' = pg_mem s" "pg_pmm s' = pg_pmm s"
    by (auto simp: pagetable_setup_domain_def domain_switch_set_pagetable_def split: if_splits)
  then show ?thesis using F set_root(1) by (simp add: pt_forest_def)
next
  case (switch root)
  then show ?thesis using F by (simp add: pagetable_switch_def hal_set_cr3_def pt_forest_def)
next
  case (destroy r)
  then show ?thesis using destroy_forest(2) [OF F] by simp
next
  case (client_alloc n a p')
  then have "pt_forest R s'"
    using pmm.alloc_sound [OF forest_wf [OF F]] pmm.alloc_busy [OF forest_wf [OF F]] forest_busy [OF F]
    by (intro forest_same_tables [OF F]) auto
  then show ?thesis using client_alloc(2) by simp
next
  case (client_free a n p')
  then have "pt_forest R s'"
    using pmm.release_sound [OF forest_wf [OF F]] pmm.release_busy [OF forest_wf [OF F]] forest_busy [OF F]
    by (intro forest_same_tables [OF F]) auto
  then show ?thesis using client_free(2) by simp
qed

lemma reachable_forest: "pt_reachable c \<Longrightarrow> pt_forest (snd c) (fst c)"
proof (induction rule: pt_reachable.induct)
  case (start s)
  then show ?case by (simp add: pt_forest_def)
next
  case (step c c')
  then show ?case using forest_step [of "fst c" "snd c" "fst c'" "snd c'"] by simp
qed

section \<open>Properties\<close>

definition pg_ex0 :: paging where
  "pg_ex0 = \<lparr> pg_pmm = pmm_small, pg_mem = (\<lambda>_ _. 0), g_domain_pagetables = (\<lambda>_. 0),
     g_current_domain = 0, pg_cr3 = 0 \<rparr>"

definition pg_ex1 :: paging where
  "pg_ex1 = snd (pagetable_create pg_ex0)"

definition pg_ex2 :: paging where
  "pg_ex2 = snd (pagetable_map 0x1000 0x5000 0x8000 0x1000 PERM_RW MAP_TYPE_USER pg_ex1)"

lemma pg_ex1_create: "pagetable_create pg_ex0 = (0x1000, pg_ex1)"
proof -
  have "fst (pagetable_create pg_ex0) = 0x1000" by code_simp
  then show ?thesis by (simp add: pg_ex1_def prod_eq_iff)
qed

lemma pg_ex2_map: "pagetable_map 0x1000 0x5000 0x8000 0x1000 PERM_RW MAP_TYPE_USER pg_ex1 = (Inr (), pg_ex2)"
proof -
  have "fst (pagetable_map 0x1000 0x5000 0x8000 0x1000 PERM_RW MAP_TYPE_USER pg_ex1) = Inr ()" by code_simp
  then show ?thesis by (simp add: pg_ex2_def prod_eq_iff)
qed

lemma pg_ex0_reachable: "pt_reachable (pg_ex0, {})"
  by (rule pt_reachable.start) (simp add: pg_ex0_def pmm_small_wf)

lemma pg_ex1_reachable: "pt_reachable (pg_ex1, {0x1000})"
  using pt_reachable.step [OF pg_ex0_reachable pt_step.create [OF pg_ex1_create]] by simp

lemma pg_ex2_reachable: "pt_reachable (pg_ex2, {0x1000})"
  by (rule pt_reachable.step [OF pg_ex1_reachable pt_step.map_range [OF _ pg_ex2_map]]) simp

lemma pg_ex1_forest: "pt_forest {0x1000} pg_ex1"
  using reachable_forest [OF pg_ex1_reachable] by simp

lemma pg_ex2_forest: "pt_forest {0x1000} pg_ex2"
  using reachable_forest [OF pg_ex2_reachable] by simp

text \<open>
  C7. However page tables are created, extended, changed and destroyed, and whatever other users
  of the memory manager do with frames of their own: every table of a live address space lies in
  an allocated frame, and no frame serves as a table twice, neither in two address spaces nor in
  two places of one.
\<close>

theorem page_tables_separate:
  assumes "pt_reachable (s, R)" and "r \<in> R" and "table_at (pg_mem s) r p t"
  shows "frame_busy (pg_pmm s) (unat t div 4096) \<and>
     (\<forall>r' p' t'. r' \<in> R \<and> table_at (pg_mem s) r' p' t' \<and> unat t' div 4096 = unat t div 4096 \<longrightarrow>
        r' = r \<and> p' = p)"
proof -
  have F: "pt_forest R s" using reachable_forest [OF assms(1)] by simp
  have "r' = r \<and> p' = p" if T: "r' \<in> R" "table_at (pg_mem s) r' p' t'" "unat t' div 4096 = unat t div 4096"
    for r' p' t'
  proof -
    have "t' = t" using forest_table(2) [OF F] assms(2,3) T by (intro page_aligned_eqI) blast+
    then show ?thesis using forest_inj [OF F T(1) assms(2) T(2)] assms(3) by simp
  qed
  then show ?thesis using forest_table(3) [OF F assms(2,3)] by blast
qed

theorem page_tables_separate_witness:
  "frame_busy (pg_pmm pg_ex2) (unat (0x2000 :: u64) div 4096)"
proof -
  have "walk (pg_mem pg_ex2) 0x1000 [0] = Some 0x2000" by code_simp
  then show ?thesis
    using page_tables_separate [OF pg_ex2_reachable, of "0x1000" "[0]" "0x2000"] by (simp add: table_at_def)
qed

text \<open>
  C8. The effect of \<open>pagetable_map\<close> on translation, exactly. For an aligned request of at most
  \<open>2^48\<close> bytes with a permission that includes the present bit: on success every byte of the range
  translates to the byte at the same offset of the physical range; on success and on failure
  alike the pages outside the range and every other address space translate as before, and the
  only error is that memory ran out.
\<close>

theorem pagetable_map_translates:
  assumes "pt_forest R s" and "r \<in> R" and "0 < sz" and "unat sz \<le> 2 ^ 48"
    and "page_aligned virt" and "page_aligned phys"
    and "perm AND PAGE_FLAG_PRESENT \<noteq> 0" and "perm AND NOT 0xFFF = 0"
    and "pagetable_map r virt phys sz perm type s = (res, s')"
  shows "(res = Inr () \<or> res = Inl HIC_ERROR_NO_MEMORY) \<and>
     (res = Inr () \<longrightarrow> (\<forall>k<unat sz. pagetable_get_phys r (virt + of_nat k) s' = phys + of_nat k)) \<and>
     (\<forall>r' v. r' \<in> R \<and> (r' \<noteq> r \<or> (\<forall>k<unat sz. vpn v \<noteq> vpn (virt + of_nat k))) \<longrightarrow>
        pagetable_get_phys r' v s' = pagetable_get_phys r' v s)"
proof (intro conjI allI impI)
  note L = pagetable_map_cases [OF assms(1-6,9)]
  note S = map_loop_spec [OF assms(1,2) L(1)]
  show "res = Inr () \<or> res = Inl HIC_ERROR_NO_MEMORY" using S by blast
  show "pagetable_get_phys r (virt + of_nat k) s' = phys + of_nat k" if "res = Inr ()" "k < unat sz" for k
    using map_translates [OF assms(1-8)] assms(9) that by simp
  fix r' v
  assume H: "r' \<in> R \<and> (r' \<noteq> r \<or> (\<forall>k<unat sz. vpn v \<noteq> vpn (virt + of_nat k)))"
  have "vpn v \<noteq> vpn (virt + of_nat j * PAGE_SIZE_4K)"
    if "j < (unat sz + 4095) div 4096" "\<forall>k<unat sz. vpn v \<noteq> vpn (virt + of_nat k)" for j
  proof -
    have "j * 4096 < unat sz" using that(1) div_times_less_eq_dividend [of "unat sz + 4095" 4096] by linarith
    moreover have "virt + of_nat (j * 4096) = virt + of_nat j * PAGE_SIZE_4K" by (simp add: pt_consts)
    ultimately show ?thesis using that(2) by metis
  qed
  then have "leaf (pg_mem s') r' (vpn v) = leaf (pg_mem s) r' (vpn v)"
    using S H vpn_less by blast
  then show "pagetable_get_phys r' v s' = pagetable_get_phys r' v s" by (simp add: get_phys_leaf)
qed

theorem pagetable_map_translates_witness:
  "pagetable_get_phys 0x1000 0x5123 pg_ex2 = 0x8123"
proof -
  have "page_aligned 0x5000" "page_aligned 0x8000" by (simp_all add: page_aligned_def)
  moreover have "PERM_RW AND PAGE_FLAG_PRESENT \<noteq> 0" "PERM_RW AND NOT 0xFFF = 0" by code_simp+
  ultimately show ?thesis
    using pagetable_map_translates [OF pg_ex1_forest, of "0x1000" "0x1000" "0x5000" "0x8000" PERM_RW
        MAP_TYPE_USER "Inr ()" pg_ex2] pg_ex2_map
    by (auto dest!: spec [of _ "0x123 :: nat"])
qed

text \<open>
  C9. A page table leaves no trace in the memory manager. Provided frame 0 is reserved (its
  address is the null pointer), creating an address space, mapping any range into it, with
  whatever outcome, and destroying it frees every frame it took and no other.
\<close>

theorem pagetable_lifetime_no_leak:
  assumes "pt_forest R s" and "frame_busy (pg_pmm s) 0"
    and "pagetable_create s = (a, s1)" and "a \<noteq> 0"
    and "pagetable_map a virt phys sz perm type s1 = (res, s2)"
  shows "frame_busy (pg_pmm (pagetable_destroy a s2)) j \<longleftrightarrow> frame_busy (pg_pmm s) j"
proof -
  note C = create_forest [OF assms(1,3)]
  have F1: "pt_forest (insert a R) s1" using C(1) assms(4) by simp
  have b0: "frame_busy (pg_pmm s1) 0" using C(4) assms(2,4) by blast
  note M = map_forest [OF F1 insertI1 assms(5)]
  have G: "grows a s1 s2" by (rule M(2) [OF b0])
  note D = frees_exactlyD(4) [OF destroy_forest(1) [OF M(1) insertI1], of j]
  let ?T = "tree_frames (pg_mem s2) 3 a" and ?f = "unat a div 4096"
  have c: "frame_busy (pg_pmm s1) j \<longleftrightarrow> frame_busy (pg_pmm s) j \<or> j = ?f" and f: "\<not> frame_busy (pg_pmm s) ?f"
    using C(4) assms(4) by simp_all
  have "?f \<in> ?T" and "j \<in> ?T \<Longrightarrow> j \<noteq> ?f \<Longrightarrow> \<not> frame_busy (pg_pmm s1) j"
    and "frame_busy (pg_pmm s2) j \<longleftrightarrow> frame_busy (pg_pmm s1) j \<or> j \<in> ?T"
    using G C(3) [OF assms(4)] unfolding grows_def by auto
  then show ?thesis using D c f by (cases "j = ?f") auto
qed

theorem pagetable_lifetime_no_leak_witness:
  "frame_busy (pg_pmm (pagetable_destroy 0x1000 pg_ex2)) 2 = frame_busy (pg_pmm pg_ex0) 2"
proof -
  have "frame_busy (pg_pmm pg_ex0) 0" by code_simp
  then show ?thesis
    using pagetable_lifetime_no_leak [OF _ _ pg_ex1_create _ pg_ex2_map] reachable_forest [OF pg_ex0_reachable]
    by simp
qed

text \<open>
  C40. \<open>pagetable_set_perm\<close> does not keep the frame of a page: it masks the old entry with the
  present bit before adding the permission. After it, every page of the range that has a page
  table translates into physical frame 0, whether it was mapped before or not.
\<close>

theorem pagetable_set_perm_loses_frame:
  assumes "pt_forest R s" and "r \<in> R" and "0 < sz" and "unat sz \<le> 2 ^ 48" and "page_aligned virt"
    and "perm AND PAGE_FLAG_PRESENT \<noteq> 0" and "perm AND NOT 0xFFF = 0"
    and "pagetable_set_perm r virt sz perm s = (res, s')"
    and "k < unat sz" and "find_pt (pg_mem s) r (virt + of_nat k) \<noteq> None"
  shows "pagetable_get_phys r (virt + of_nat k) s' = (virt + of_nat k) AND 0xFFF"
proof -
  let ?n = "(unat sz + 4095) div 4096" and ?j = "k div 4096"
  let ?u = "update_loop (\<lambda>entry. (entry AND PAGE_FLAG_PRESENT) OR perm) ?n r virt s"
  have r0: "r \<noteq> 0" using forest_table(1) [OF assms(1,2), of "[]" r] by (simp add: table_at_def)
  have m: "pg_mem s' = pg_mem ?u"
    using assms(3,5,8) r0 word_gt_0 [of sz] page_count_eq [OF assms(4)]
    by (auto simp: pagetable_set_perm_def PAGE_ALIGN_UP_aligned pagetable_flush_tlb_all_def hal_set_cr3_def)
  have n: "?n \<le> 2 ^ 36" by (rule range_pages_le [OF assms(4)])
  have j: "?j < ?n" using assms(9) by (simp add: div_less_iff_less_mult)
  let ?e = "(leaf (pg_mem s) r (vpn (virt + of_nat k)) AND PAGE_FLAG_PRESENT) OR perm"
  have "leaf (pg_mem s') r (vpn (virt + of_nat k)) = ?e"
    using update_loop_spec [OF assms(1,2), of "\<lambda>entry. (entry AND PAGE_FLAG_PRESENT) OR perm" ?n virt] j n assms(10)
    unfolding m vpn_byte(1) [OF assms(5)] find_pt_walk by (auto simp: Let_def)
  moreover have "entry_present ?e" using assms(6) unfolding present_bit by (simp add: bit_simps)
  moreover have "entry_table ?e = 0"
  proof -
    have "?e AND NOT 0xFFF = (leaf (pg_mem s) r (vpn (virt + of_nat k)) AND (PAGE_FLAG_PRESENT AND NOT 0xFFF))
        OR (perm AND NOT 0xFFF)" by (simp add: and.assoc bit.conj_disj_distrib2)
    also have "PAGE_FLAG_PRESENT AND NOT 0xFFF = 0" by (simp add: pt_consts)
    finally show ?thesis using assms(7) by (simp add: PAGE_ALIGN_MASK_def)
  qed
  ultimately show ?thesis unfolding get_phys_leaf using r0 by (simp only: if_False simp_thms add_0)
qed

theorem pagetable_set_perm_loses_frame_witness:
  "pagetable_get_phys 0x1000 0x5123 pg_ex2 = 0x8123 \<and>
   pagetable_get_phys 0x1000 0x5123 (snd (pagetable_set_perm 0x1000 0x5000 0x1000 PERM_READ pg_ex2)) = 0x123"
proof
  let ?s = "pagetable_set_perm 0x1000 0x5000 0x1000 PERM_READ pg_ex2"
  show "pagetable_get_phys 0x1000 0x5123 pg_ex2 = 0x8123" by code_simp
  have "pagetable_get_phys 0x1000 (0x5000 + of_nat 0x123) (snd ?s) = (0x5000 + of_nat 0x123) AND 0xFFF"
  proof (rule pagetable_set_perm_loses_frame [OF pg_ex2_forest])
    show "?s = (fst ?s, snd ?s)" by (rule prod.collapse [symmetric])
    show "page_aligned 0x5000" by (simp add: page_aligned_def)
    show "PERM_READ AND PAGE_FLAG_PRESENT \<noteq> 0" "PERM_READ AND NOT 0xFFF = 0" by code_simp+
    show "find_pt (pg_mem pg_ex2) 0x1000 (0x5000 + of_nat 0x123) \<noteq> None" by code_simp
  qed simp_all
  then show "pagetable_get_phys 0x1000 0x5123 (snd ?s) = 0x123" by simp
qed

text \<open>
  \<open>pagetable_cleanup_domain\<close> frees the page table of a domain and leaves the registered
  pointer in place, because \<open>domain_switch_set_pagetable\<close> refuses the null pointer: afterwards the
  domain is still registered with a root whose frame is free.
\<close>

lemma cleanup_leaves_dangling_root:
  assumes "pt_forest R s" and "d < HIC_DOMAIN_MAX" and "domain_switch_get_pagetable d s = root"
    and "root \<in> R"
  shows "domain_switch_get_pagetable d (pagetable_cleanup_domain d s) = root \<and>
     \<not> frame_busy (pg_pmm (pagetable_cleanup_domain d s)) (unat root div 4096)"
proof -
  have r0: "root \<noteq> 0" using forest_table(1) [OF assms(1,4), of "[]" root] by (simp add: table_at_def)
  have c: "pagetable_cleanup_domain d s = pagetable_destroy root s"
    using assms(2,3) r0 by (simp add: pagetable_cleanup_domain_def domain_switch_set_pagetable_def Let_def)
  note D = frees_exactlyD(3,4) [OF destroy_forest(1) [OF assms(1,4)]]
  have "unat root div 4096 \<in> tree_frames (pg_mem s) 3 root"
    unfolding tree_frames_table_at by (intro exI [of _ "[]"] exI [of _ root]) (simp add: table_at_def)
  then show ?thesis using D assms(2,3) unfolding c domain_switch_get_pagetable_def
    by (cases "HIC_DOMAIN_MAX \<le> d") auto
qed

lemma cleanup_leaves_dangling_root_witness:
  "domain_switch_get_pagetable 5
     (pagetable_cleanup_domain 5 (snd (pagetable_setup_domain 5 0x1000 pg_ex2))) = 0x1000"
proof -
  define s where "s = snd (pagetable_setup_domain 5 0x1000 pg_ex2)"
  have "pt_reachable (s, {0x1000})"
    unfolding s_def by (rule pt_reachable.step [OF pg_ex2_reachable pt_step.set_root]) (simp add: prod_eq_iff)
  then have "pt_forest {0x1000} s" using reachable_forest by fastforce
  moreover have "domain_switch_get_pagetable 5 s = 0x1000"
    by (simp add: s_def pagetable_setup_domain_def domain_switch_set_pagetable_def domain_switch_get_pagetable_def hic_consts)
  ultimately show ?thesis
    using cleanup_leaves_dangling_root [of "{0x1000}" s 5 "0x1000"] unfolding s_def [symmetric]
    by (simp add: hic_consts)
qed

end
