(* ===== verification/Hic_Kernel.thy ===== *)
theory Hic_Kernel
  imports Hic_Cnode Hic_Pagetable
begin

text \<open>
  The state that domains, threads, the scheduler and IPC 3.0 share: the tables of domains,
  threads and logical cores beside the capability spaces and the page tables. All parts draw on
  one physical memory manager; it lives with the capabilities, and the page table operations are
  run on a copy that is put back afterwards.
\<close>

unbundle bit_operations_syntax

section \<open>Threads\<close>

datatype thread_state =
    THREAD_STATE_READY
  | THREAD_STATE_RUNNING
  | THREAD_STATE_BLOCKED
  | THREAD_STATE_WAITING
  | THREAD_STATE_TERMINATED

text \<open>A pointer to a control block: \<open>NULL\<close>, the idle thread, or an entry of \<open>g_threads\<close>.\<close>

datatype thread_ptr = TNull | TIdle | TSlot nat

record thread =
  thr_id :: u32
  thr_domain :: u32
  thr_state :: thread_state
  thr_priority :: u8
  thr_lcore :: u32
  thr_affinity :: u32
  thr_stack_base :: u64
  thr_stack_size :: u64
  thr_stack_ptr :: u64
  thr_arch_context :: u64
  thr_time_slice :: u64
  thr_cpu_time_used :: u64
  thr_last_run_time :: u64
  thr_next :: thread_ptr
  thr_prev :: thread_ptr
  thr_wait_flags :: u32
  thr_wait_data :: u64
  thr_flags :: u32

definition THREAD_FLAG_BOUND :: u32 where [hic_consts]: "THREAD_FLAG_BOUND = 4"
definition HIC_PRIORITY_IDLE :: u8 where [hic_consts]: "HIC_PRIORITY_IDLE = 0"

text \<open>What \<open>memzero\<close> leaves of a control block: every field zero, and \<open>THREAD_STATE_READY\<close> is 0.\<close>

definition thread_zero :: thread where
  "thread_zero =
     \<lparr> thr_id = 0, thr_domain = 0, thr_state = THREAD_STATE_READY, thr_priority = 0, thr_lcore = 0,
       thr_affinity = 0, thr_stack_base = 0, thr_stack_size = 0, thr_stack_ptr = 0,
       thr_arch_context = 0, thr_time_slice = 0, thr_cpu_time_used = 0, thr_last_run_time = 0,
       thr_next = TNull, thr_prev = TNull, thr_wait_flags = 0, thr_wait_data = 0, thr_flags = 0 \<rparr>"

section \<open>Logical cores\<close>

datatype logical_core_state =
    LOGICAL_CORE_STATE_FREE
  | LOGICAL_CORE_STATE_ALLOCATED
  | LOGICAL_CORE_STATE_ACTIVE
  | LOGICAL_CORE_STATE_MIGRATING
  | LOGICAL_CORE_STATE_SUSPENDED

datatype sched_policy =
    SCHED_POLICY_EXCLUSIVE
  | SCHED_POLICY_QUOTA
  | SCHED_POLICY_SHARED
  | SCHED_POLICY_IDLE

record logical_core_perf =
  pf_instructions_retired :: u64
  pf_cycles_executed :: u64
  pf_cache_hits :: u64
  pf_cache_misses :: u64
  pf_branch_hits :: u64
  pf_branch_misses :: u64
  pf_migration_latency_sum :: u64
  pf_migration_count :: u64

text \<open>
  The control block; the fields of the nested \<open>mapping\<close> and \<open>quota\<close> are fields of the record, and
  \<open>next\<close> and \<open>prev\<close> hold the index of the control block they point to.
\<close>

record logical_core =
  lc_id :: u32
  lc_state :: logical_core_state
  lc_flags :: u32
  lc_sched_policy :: sched_policy
  lc_sched_period :: u64
  lc_sched_deadline :: u64
  lc_sched_runtime :: u64
  lc_owner_domain :: u32
  lc_capability_handle :: u64
  lc_physical_core :: u32
  lc_migration_count :: u64
  lc_last_migration_time :: u64
  lc_affinity :: "nat \<Rightarrow> u64"
  lc_guaranteed_quota :: u8
  lc_max_quota :: u8
  lc_used_time :: u64
  lc_allocated_time :: u64
  lc_running_thread :: u32
  lc_last_schedule_time :: u64
  lc_perf :: logical_core_perf
  lc_next :: "nat option"
  lc_prev :: "nat option"

definition perf_zero :: logical_core_perf where
  "perf_zero = \<lparr> pf_instructions_retired = 0, pf_cycles_executed = 0, pf_cache_hits = 0, pf_cache_misses = 0,
     pf_branch_hits = 0, pf_branch_misses = 0, pf_migration_latency_sum = 0, pf_migration_count = 0 \<rparr>"

definition logical_core_zero :: logical_core where
  "logical_core_zero = \<lparr> lc_id = 0, lc_state = LOGICAL_CORE_STATE_FREE, lc_flags = 0,
     lc_sched_policy = SCHED_POLICY_EXCLUSIVE, lc_sched_period = 0, lc_sched_deadline = 0, lc_sched_runtime = 0,
     lc_owner_domain = 0, lc_capability_handle = 0, lc_physical_core = 0, lc_migration_count = 0,
     lc_last_migration_time = 0, lc_affinity = (\<lambda>_. 0), lc_guaranteed_quota = 0, lc_max_quota = 0,
     lc_used_time = 0, lc_allocated_time = 0, lc_running_thread = 0, lc_last_schedule_time = 0,
     lc_perf = perf_zero, lc_next = None, lc_prev = None \<rparr>"

section \<open>The state\<close>

record kernel_state =
  k_doms :: domain_table
  k_domain_count :: u32
  k_partners :: "nat \<Rightarrow> u32"
  k_xs :: cspace_state
  k_pg :: paging
  k_threads :: "nat \<Rightarrow> thread"
  k_thread_bitmap :: "nat \<Rightarrow> u64"
  k_idle :: thread
  k_current :: thread_ptr
  k_last_scheduled :: u32
  k_lcores :: "nat \<Rightarrow> logical_core"
  k_domain_data_phys :: u64

definition kpmm :: "kernel_state \<Rightarrow> pmm" where
  "kpmm s = cs_pmm (xs_caps (k_xs s))"

definition set_kpmm :: "pmm \<Rightarrow> kernel_state \<Rightarrow> kernel_state" where
  "set_kpmm p s = s\<lparr> k_xs := (k_xs s)\<lparr> xs_caps := (xs_caps (k_xs s))\<lparr> cs_pmm := p \<rparr> \<rparr> \<rparr>"

definition kpaging :: "kernel_state \<Rightarrow> paging" where
  "kpaging s = (k_pg s)\<lparr> pg_pmm := kpmm s \<rparr>"

definition put_paging :: "paging \<Rightarrow> kernel_state \<Rightarrow> kernel_state" where
  "put_paging g s = set_kpmm (pg_pmm g) (s\<lparr> k_pg := g \<rparr>)"

definition upd_dom :: "nat \<Rightarrow> (domain \<Rightarrow> domain) \<Rightarrow> kernel_state \<Rightarrow> kernel_state" where
  "upd_dom d f s = s\<lparr> k_doms := (k_doms s)(d := f (k_doms s d)) \<rparr>"

definition upd_thread :: "nat \<Rightarrow> (thread \<Rightarrow> thread) \<Rightarrow> kernel_state \<Rightarrow> kernel_state" where
  "upd_thread i f s = s\<lparr> k_threads := (k_threads s)(i := f (k_threads s i)) \<rparr>"

text \<open>Frames and bytes: \<open>(u32)((size + PAGE_SIZE - 1) / PAGE_SIZE)\<close>.\<close>

definition size_to_frames :: "u64 \<Rightarrow> u32" where
  "size_to_frames sz = ucast ((sz + PAGE_SIZE - 1) div PAGE_SIZE)"

lemma kpmm_simps [simp]:
  "kpmm (set_kpmm p s) = p" "k_doms (set_kpmm p s) = k_doms s" "k_pg (set_kpmm p s) = k_pg s"
  "kpmm (put_paging g s) = pg_pmm g" "k_doms (put_paging g s) = k_doms s" "k_pg (put_paging g s) = g"
  "kpaging (put_paging g s) = g"
  "pg_pmm (kpaging s) = kpmm s" "pg_mem (kpaging s) = pg_mem (k_pg s)"
  "k_threads (set_kpmm p s) = k_threads s" "k_threads (put_paging g s) = k_threads s"
  by (simp_all add: kpmm_def set_kpmm_def put_paging_def kpaging_def)

lemma upd_simps [simp]:
  "k_doms (upd_dom d f s) = (k_doms s)(d := f (k_doms s d))" "kpmm (upd_dom d f s) = kpmm s"
  "k_pg (upd_dom d f s) = k_pg s" "k_xs (upd_dom d f s) = k_xs s" "k_threads (upd_dom d f s) = k_threads s"
  "k_threads (upd_thread i g s) = (k_threads s)(i := g (k_threads s i))" "kpmm (upd_thread i g s) = kpmm s"
  "k_doms (upd_thread i g s) = k_doms s" "k_pg (upd_thread i g s) = k_pg s"
  by (simp_all add: upd_dom_def upd_thread_def kpmm_def)

end
