(* ===== verification/Hic_Domain.thy ===== *)
theory Hic_Domain
  imports Hic_Kernel
begin

text \<open>
  Domains, \<^verbatim>\<open>Core-0/domain.c\<close>: creation with a capability space, memory and a page table of their
  own, destruction, the life cycle, quotas and their delegation, emergencies, and the primitives
  for replacing a running domain. Console output, the audit log and the run-time invariant
  monitor, whose verdict only selects a message, are left out. Time stamps are arguments.
\<close>

unbundle bit_operations_syntax

section \<open>Creation\<close>

text \<open>
  The addresses of the sections of the kernel image are set by the linker; they are an argument.
\<close>

record kernel_image =
  text_start :: u64
  text_end :: u64
  rodata_start :: u64
  rodata_end :: u64
  data_start :: u64
  data_end :: u64
  bss_start :: u64
  bss_end :: u64
  lbss_start :: u64
  lbss_end :: u64
  static_modules_text_start :: u64
  static_modules_text_end :: u64
  static_modules_data_start :: u64
  static_modules_data_end :: u64
  static_modules_bss_start :: u64
  static_modules_bss_end :: u64
  kernel_end :: u64

definition IPC3_DOMAIN_DATA_VA :: u64 where "IPC3_DOMAIN_DATA_VA = 0xFFFFF000"
definition IPC3_PAGE_SIZE :: u64 where "IPC3_PAGE_SIZE = 4096"

definition ipc3_map_domain_data :: "u32 \<Rightarrow> kernel_state \<Rightarrow> kernel_state" where
  "ipc3_map_domain_data domain s =
     (if k_domain_data_phys s = 0 then s
      else let pt = domain_switch_get_pagetable domain (k_pg s)
      in if pt = 0 then s
         else put_paging (snd (pagetable_map pt IPC3_DOMAIN_DATA_VA (k_domain_data_phys s)
                IPC3_PAGE_SIZE PERM_READ MAP_TYPE_KERNEL (kpaging s))) s)"

text \<open>First part of \<open>domain_create\<close>: the capability space. \<open>d\<close> is the slot that was found.\<close>

definition domain_setup_cspace ::
    "domain_type \<Rightarrow> nat \<Rightarrow> kernel_image \<Rightarrow> kernel_state \<Rightarrow> bool \<times> kernel_state" where
  "domain_setup_cspace type d img s =
     (if type = DOMAIN_TYPE_CORE
      then (True, upd_dom d (\<lambda>dom. dom\<lparr>
              dom_cspace := (case cspace_get HIC_DOMAIN_CORE (k_xs s) of None \<Rightarrow> None
                             | Some _ \<Rightarrow> Some (unat HIC_DOMAIN_CORE)),
              dom_root_cnode := HIC_CAP_INVALID,
              phys_base := text_start img, phys_size := kernel_end img - text_start img \<rparr>) s)
      else case cspace_init (of_nat d) 8 (k_xs s) of
        (Inl _, x) \<Rightarrow> (False, s\<lparr> k_xs := x \<rparr>)
      | (Inr _, x) \<Rightarrow>
          (True, upd_dom d (\<lambda>dom. case cspace_get (of_nat d) x of
              None \<Rightarrow> dom\<lparr> dom_cspace := None, dom_root_cnode := HIC_CAP_INVALID \<rparr>
            | Some sp \<Rightarrow> dom\<lparr> dom_cspace := Some d, dom_root_cnode := sp_root_cnode sp \<rparr>)
              (s\<lparr> k_xs := x \<rparr>)))"

definition kcspace_destroy :: "nat \<Rightarrow> kernel_state \<Rightarrow> kernel_state" where
  "kcspace_destroy d s = s\<lparr> k_xs := snd (cspace_destroy (of_nat d) (k_xs s)) \<rparr>"

text \<open>The block that fills in the control block once its memory is known.\<close>

definition domain_fill ::
    "domain_type \<Rightarrow> u32 \<Rightarrow> domain_quota \<Rightarrow> nat \<Rightarrow> u64 \<Rightarrow> u64 \<Rightarrow> kernel_state \<Rightarrow> kernel_state" where
  "domain_fill type parent q d mem_base mem_size s =
     (let s1 = upd_dom d (\<lambda>dom. dom\<lparr>
           domain_id := of_nat d, domain_type := type, domain_state := DOMAIN_STATE_READY,
           phys_base := (if type \<noteq> DOMAIN_TYPE_CORE then mem_base else phys_base dom),
           phys_size := (if type \<noteq> DOMAIN_TYPE_CORE then mem_size else phys_size dom),
           cap_count := 0, thread_list := 0, thread_count := 0, quota := q,
           usage := (usage dom)\<lparr> memory_used := 0, thread_used := 0 \<rparr>,
           cpu_time_total := 0, syscalls_total := 0, dom_flags := 0, parent_domain := parent,
           sec_level := domain_get_sec_level type \<rparr>) s
      in upd_dom d (\<lambda>dom. dom\<lparr> allowed_sched_policies :=
           domain_get_allowed_sched_policies (of_nat d) (k_doms s1) \<rparr>) s1)"

text \<open>Identity mapping of a section of the image, skipped when the section is empty.\<close>

definition map_section :: "u64 \<Rightarrow> u64 \<Rightarrow> u64 \<Rightarrow> u64 \<Rightarrow> paging \<Rightarrow> paging" where
  "map_section pt from to perm g =
     (if to - from > 0 then snd (pagetable_map pt from from (to - from) perm MAP_TYPE_KERNEL g) else g)"

definition map_kernel_image :: "domain_type \<Rightarrow> kernel_image \<Rightarrow> u64 \<Rightarrow> paging \<Rightarrow> paging" where
  "map_kernel_image type img pt g =
     (let g = map_section pt (text_start img) (text_end img) PERM_RX g;
          g = map_section pt (rodata_start img) (rodata_end img) PERM_READ g
      in if type = DOMAIN_TYPE_PRIVILEGED
         then let g = map_section pt (data_start img) (data_end img) PERM_RW g;
                  g = map_section pt (bss_start img) (bss_end img) PERM_RW g;
                  g = map_section pt (lbss_start img) (lbss_end img) PERM_RW g;
                  g = map_section pt (static_modules_text_start img) (static_modules_text_end img) PERM_RX g;
                  g = map_section pt (static_modules_data_start img) (static_modules_data_end img) PERM_RW g
              in map_section pt (static_modules_bss_start img) (static_modules_bss_end img) PERM_RW g
         else let g = map_section pt (data_start img) (data_end img) PERM_READ g;
                  g = map_section pt (bss_start img) (bss_end img) PERM_READ g
              in map_section pt (lbss_start img) (lbss_end img) PERM_READ g)"

text \<open>
  The page table of a domain that is not Core-0. On failure the memory and the capability space
  are given back; the control block stays as it was filled in.
\<close>

definition domain_build_page_table ::
    "domain_type \<Rightarrow> nat \<Rightarrow> kernel_image \<Rightarrow> u64 \<Rightarrow> u64 \<Rightarrow> kernel_state \<Rightarrow> bool \<times> kernel_state" where
  "domain_build_page_table type d img mem_base mem_size s =
     (let undo = (\<lambda>t. kcspace_destroy d (set_kpmm (snd (pmm_free_frames mem_base (size_to_frames mem_size) (kpmm t))) t));
          (pt, g) = pagetable_create (kpaging s);
          s1 = put_paging g s
      in if pt = 0 then (False, undo s1)
         else let s2 = upd_dom d (\<lambda>dom. dom\<lparr> page_table := pt \<rparr>) s1
         in case pagetable_map pt mem_base mem_base mem_size PERM_RW MAP_TYPE_USER g of
              (Inl _, g2) \<Rightarrow> (False, undo (put_paging (pagetable_destroy pt g2) s2))
            | (Inr _, g2) \<Rightarrow>
                let g3 = map_kernel_image type img pt g2;
                    g4 = snd (pagetable_setup_domain (of_nat d) pt g3)
                in (True, ipc3_map_domain_data (of_nat d) (put_paging g4 s2)))"

definition kcap_set_privileged :: "nat \<Rightarrow> bool \<Rightarrow> kernel_state \<Rightarrow> kernel_state" where
  "kcap_set_privileged d b s =
     s\<lparr> k_xs := upd_xcaps (cap_set_privileged_domain (of_nat d) b) (k_xs s) \<rparr>"

definition domain_create ::
    "domain_type \<Rightarrow> u32 \<Rightarrow> domain_quota \<Rightarrow> kernel_image \<Rightarrow> kernel_state \<Rightarrow> u32 hic_result \<times> kernel_state" where
  "domain_create type parent q img s =
     (case find_first (\<lambda>i. domain_state (k_doms s i) = DOMAIN_STATE_INIT) 0 (unat MAX_DOMAINS) of
        None \<Rightarrow> (Inl HIC_ERROR_NO_RESOURCE, s)
      | Some d \<Rightarrow>
          (case domain_setup_cspace type d img (upd_dom d (\<lambda>dom. dom\<lparr> cap_capacity := max_caps q \<rparr>) s) of
             (False, s1) \<Rightarrow> (Inl HIC_ERROR_NO_RESOURCE, s1)
           | (True, s1) \<Rightarrow>
               if type = DOMAIN_TYPE_CORE
               then let s2 = domain_fill type parent q d 0 (max_memory q) s1;
                        s3 = upd_dom d (\<lambda>dom. dom\<lparr> page_table := 0, dom_flags := dom_flags dom OR DOMAIN_FLAG_TRUSTED \<rparr>) s2;
                        s4 = put_paging (snd (pagetable_setup_domain HIC_DOMAIN_CORE (pg_cr3 (k_pg s3)) (kpaging s3))) s3
                    in (Inr (of_nat d), s4\<lparr> k_domain_count := k_domain_count s4 + 1 \<rparr>)
               else case pmm_alloc_frames (size_to_frames (max_memory q)) True (kpmm s1) of
                 (Inl _, p) \<Rightarrow> (Inl HIC_ERROR_NO_RESOURCE, kcspace_destroy d (set_kpmm p s1))
               | (Inr mem_base, p) \<Rightarrow>
                   (case domain_build_page_table type d img mem_base (max_memory q)
                           (domain_fill type parent q d mem_base (max_memory q) (set_kpmm p s1)) of
                      (False, s2) \<Rightarrow> (Inl HIC_ERROR_NO_MEMORY, s2)
                    | (True, s2) \<Rightarrow>
                        let s3 = (if type = DOMAIN_TYPE_PRIVILEGED
                                  then kcap_set_privileged d True
                                         (upd_dom d (\<lambda>dom. dom\<lparr> dom_flags := dom_flags dom OR DOMAIN_FLAG_PRIVILEGED \<rparr>) s2)
                                  else s2)
                        in (Inr (of_nat d), s3\<lparr> k_domain_count := k_domain_count s3 + 1 \<rparr>))))"

definition domain_zero :: domain where
  "domain_zero =
     \<lparr> domain_id = 0, domain_type = DOMAIN_TYPE_CORE, domain_state = DOMAIN_STATE_INIT, phys_base = 0,
       phys_size = 0, page_table = 0, dom_cspace = None, dom_root_cnode = 0, cap_count = 0,
       cap_capacity = 0, thread_list = 0, thread_count = 0,
       quota = \<lparr> max_memory = 0, max_threads = 0, max_caps = 0, cpu_quota_percent = 0,
                 memory_delegated = 0, threads_delegated = 0, caps_delegated = 0 \<rparr>,
       usage = \<lparr> memory_used = 0, thread_used = 0, cap_used = 0, cpu_time_used = 0,
                 last_check_time = 0, memory_alloc_rate = 0, thread_create_rate = 0 \<rparr>,
       cpu_time_total = 0, syscalls_total = 0,
       audit = \<lparr> privileged_mem_access = 0, thread_creates = 0, memory_allocs = 0,
                 cap_transfers = 0, cap_derives = 0, cap_revokes = 0 \<rparr>,
       dom_flags = 0, parent_domain = 0, sec_level = DOMAIN_SEC_LEVEL_CORE, allowed_sched_policies = 0 \<rparr>"

definition core_quota :: domain_quota where
  "core_quota =
     \<lparr> max_memory = 0x100000, max_threads = 16, max_caps = 1024, cpu_quota_percent = 100,
       memory_delegated = 0, threads_delegated = 0, caps_delegated = 0 \<rparr>"

definition domain_system_init :: "kernel_image \<Rightarrow> kernel_state \<Rightarrow> kernel_state" where
  "domain_system_init img s =
     (let s1 = s\<lparr> k_doms := (\<lambda>i. if i < unat MAX_DOMAINS
              then domain_zero\<lparr> domain_id := of_nat i, domain_state := DOMAIN_STATE_INIT, dom_flags := 0,
                     parent_domain := HIC_INVALID_DOMAIN \<rparr>
              else k_doms s i),
            k_domain_count := 0 \<rparr>;
          s2 = snd (domain_create DOMAIN_TYPE_CORE HIC_INVALID_DOMAIN core_quota img s1)
      in s2\<lparr> k_domain_count := 1 \<rparr>)"

section \<open>Destruction and life cycle\<close>

definition domain_destroy :: "u32 \<Rightarrow> kernel_state \<Rightarrow> unit hic_result \<times> kernel_state" where
  "domain_destroy d s =
     (if d \<ge> MAX_DOMAINS then (Inl HIC_ERROR_INVALID_DOMAIN, s)
      else let i = unat d; dom = k_doms s i
      in if domain_state dom = DOMAIN_STATE_INIT \<or> domain_state dom = DOMAIN_STATE_TERMINATED
         then (Inl HIC_ERROR_INVALID_STATE, s)
      else let s1 = (if dom_cspace dom \<noteq> None
                     then upd_dom i (\<lambda>x. x\<lparr> dom_cspace := None, dom_root_cnode := HIC_CAP_INVALID \<rparr>) (kcspace_destroy i s)
                     else s);
               s2 = (if phys_base dom \<noteq> 0
                     then set_kpmm (snd (pmm_free_frames (phys_base dom) (size_to_frames (phys_size dom)) (kpmm s1))) s1
                     else s1);
               s3 = (if page_table dom \<noteq> 0 \<and> domain_type dom \<noteq> DOMAIN_TYPE_CORE
                     then upd_dom i (\<lambda>x. x\<lparr> page_table := 0 \<rparr>)
                            (put_paging (pagetable_destroy (page_table dom) (kpaging s2)) s2)
                     else s2);
               s4 = upd_dom i (\<lambda>x. x\<lparr> domain_state := DOMAIN_STATE_TERMINATED \<rparr>) s3
      in (Inr (), s4\<lparr> k_domain_count := k_domain_count s4 - 1 \<rparr>))"

definition domain_get_info :: "u32 \<Rightarrow> kernel_state \<Rightarrow> domain hic_result" where
  "domain_get_info d s =
     (if d \<ge> MAX_DOMAINS then Inl HIC_ERROR_INVALID_DOMAIN
      else if domain_state (k_doms s (unat d)) = DOMAIN_STATE_INIT then Inl HIC_ERROR_INVALID_STATE
      else Inr (k_doms s (unat d)))"

definition set_domain_state :: "domain_state \<Rightarrow> domain \<Rightarrow> domain" where
  "set_domain_state st x = x\<lparr> domain_state := st \<rparr>"

definition domain_suspend :: "u32 \<Rightarrow> kernel_state \<Rightarrow> unit hic_result \<times> kernel_state" where
  "domain_suspend d s =
     (if d \<ge> MAX_DOMAINS then (Inl HIC_ERROR_INVALID_DOMAIN, s)
      else if domain_state (k_doms s (unat d)) \<noteq> DOMAIN_STATE_RUNNING then (Inl HIC_ERROR_INVALID_STATE, s)
      else (Inr (), upd_dom (unat d) (set_domain_state DOMAIN_STATE_SUSPENDED) s))"

definition domain_resume :: "u32 \<Rightarrow> kernel_state \<Rightarrow> unit hic_result \<times> kernel_state" where
  "domain_resume d s =
     (if d \<ge> MAX_DOMAINS then (Inl HIC_ERROR_INVALID_DOMAIN, s)
      else if domain_state (k_doms s (unat d)) \<noteq> DOMAIN_STATE_SUSPENDED \<and>
              domain_state (k_doms s (unat d)) \<noteq> DOMAIN_STATE_READY then (Inl HIC_ERROR_INVALID_STATE, s)
      else (Inr (), upd_dom (unat d) (set_domain_state DOMAIN_STATE_RUNNING) s))"

definition domain_check_memory_quota :: "u32 \<Rightarrow> u64 \<Rightarrow> kernel_state \<Rightarrow> unit hic_result" where
  "domain_check_memory_quota d sz s =
     (if d \<ge> MAX_DOMAINS then Inl HIC_ERROR_INVALID_DOMAIN
      else if memory_used (usage (k_doms s (unat d))) + sz > max_memory (quota (k_doms s (unat d)))
      then Inl HIC_ERROR_QUOTA_EXCEEDED
      else Inr ())"

definition domain_check_thread_quota :: "u32 \<Rightarrow> kernel_state \<Rightarrow> unit hic_result" where
  "domain_check_thread_quota d s =
     (if d \<ge> MAX_DOMAINS then Inl HIC_ERROR_INVALID_DOMAIN
      else if thread_used (usage (k_doms s (unat d))) \<ge> max_threads (quota (k_doms s (unat d)))
      then Inl HIC_ERROR_QUOTA_EXCEEDED
      else Inr ())"

definition domain_is_active :: "u32 \<Rightarrow> kernel_state \<Rightarrow> bool" where
  "domain_is_active d s \<longleftrightarrow> \<not> d \<ge> MAX_DOMAINS \<and>
     (domain_state (k_doms s (unat d)) = DOMAIN_STATE_RUNNING \<or>
      domain_state (k_doms s (unat d)) = DOMAIN_STATE_SUSPENDED)"

definition count_domain_capabilities :: "u32 \<Rightarrow> kernel_state \<Rightarrow> u64" where
  "count_domain_capabilities d s = (if d \<ge> MAX_DOMAINS then 0 else ucast (cap_count (k_doms s (unat d))))"

definition get_domain_initial_cap_quota :: "u32 \<Rightarrow> kernel_state \<Rightarrow> u64" where
  "get_domain_initial_cap_quota d s =
     (if d \<ge> MAX_DOMAINS then 0 else ucast (max_caps (quota (k_doms s (unat d)))))"

definition get_domain_granted_caps :: "u32 \<Rightarrow> kernel_state \<Rightarrow> u64" where
  "get_domain_granted_caps d s =
     (if d \<ge> MAX_DOMAINS then 0
      else if dom_cspace (k_doms s (unat d)) \<noteq> None then ucast (cap_count (k_doms s (unat d))) else 0)"

definition get_domain_revoked_caps :: "u32 \<Rightarrow> kernel_state \<Rightarrow> u64" where
  "get_domain_revoked_caps d s =
     (if d \<ge> MAX_DOMAINS then 0
      else for_range (\<lambda>i n. let e = g_global_cap_table (xs_caps (k_xs s)) i
                            in if ce_id e = of_nat i \<and> ce_owner e = d \<and> ce_flags e AND CAP_FLAG_REVOKED \<noteq> 0
                               then n + 1 else n) 0 (unat CAP_TABLE_SIZE) 0)"

definition get_domain_memory_region :: "u32 \<Rightarrow> kernel_state \<Rightarrow> u64 \<times> u64" where
  "get_domain_memory_region d s =
     (if d \<ge> MAX_DOMAINS then (0, 0) else (phys_base (k_doms s (unat d)), phys_size (k_doms s (unat d))))"

definition get_domain_allocated_memory :: "u32 \<Rightarrow> kernel_state \<Rightarrow> u64" where
  "get_domain_allocated_memory d s = (if d \<ge> MAX_DOMAINS then 0 else memory_used (usage (k_doms s (unat d))))"

definition get_domain_cpu_quota :: "u32 \<Rightarrow> kernel_state \<Rightarrow> u64" where
  "get_domain_cpu_quota d s =
     (if d \<ge> MAX_DOMAINS then 0 else ucast (cpu_quota_percent (quota (k_doms s (unat d)))))"

section \<open>Quotas\<close>

datatype quota_type = QUOTA_TYPE_MEMORY | QUOTA_TYPE_THREADS | QUOTA_TYPE_CAPABILITIES | QUOTA_TYPE_CPU

datatype quota_check_result =
    QUOTA_CHECK_OK
  | QUOTA_CHECK_WARNING
  | QUOTA_CHECK_CRITICAL
  | QUOTA_CHECK_EXCEEDED

fun quota_used :: "quota_type \<Rightarrow> domain \<Rightarrow> u64" where
  "quota_used QUOTA_TYPE_MEMORY x = memory_used (usage x)"
| "quota_used QUOTA_TYPE_THREADS x = ucast (thread_used (usage x))"
| "quota_used QUOTA_TYPE_CAPABILITIES x = ucast (cap_used (usage x))"
| "quota_used QUOTA_TYPE_CPU x = cpu_time_used (usage x) div 1000000"

fun quota_max :: "quota_type \<Rightarrow> domain \<Rightarrow> u64" where
  "quota_max QUOTA_TYPE_MEMORY x = max_memory (quota x)"
| "quota_max QUOTA_TYPE_THREADS x = ucast (max_threads (quota x))"
| "quota_max QUOTA_TYPE_CAPABILITIES x = ucast (max_caps (quota x))"
| "quota_max QUOTA_TYPE_CPU x = ucast (cpu_quota_percent (quota x)) * 10"

definition quota_available :: "quota_type \<Rightarrow> domain \<Rightarrow> u64" where
  "quota_available type x =
     (if quota_max type x > quota_used type x then quota_max type x - quota_used type x else 0)"

text \<open>The result and what is stored through \<open>actual_available\<close> when the domain exists.\<close>

definition domain_quota_check ::
    "u32 \<Rightarrow> quota_type \<Rightarrow> u64 \<Rightarrow> kernel_state \<Rightarrow> quota_check_result \<times> u64 option" where
  "domain_quota_check d type amount s =
     (if d \<ge> MAX_DOMAINS then (QUOTA_CHECK_EXCEEDED, None)
      else let x = k_doms s (unat d); avail = quota_available type x
      in if amount > avail then (QUOTA_CHECK_EXCEEDED, Some avail)
      else let percent = ucast ((quota_used type x * 100) div
                           (if quota_max type x > 0 then quota_max type x else 1)) :: u32
      in if percent \<ge> 95 then (QUOTA_CHECK_CRITICAL, Some avail)
         else if percent \<ge> 80 then (QUOTA_CHECK_WARNING, Some avail)
         else (QUOTA_CHECK_OK, Some avail))"

text \<open>\<open>now\<close> is what \<open>hal_get_timestamp\<close> returns.\<close>

fun consume_usage :: "quota_type \<Rightarrow> u64 \<Rightarrow> u64 \<Rightarrow> domain_usage \<Rightarrow> domain_usage" where
  "consume_usage QUOTA_TYPE_MEMORY amount now u =
     (let elapsed = now - last_check_time u
      in u\<lparr> memory_used := memory_used u + amount,
            memory_alloc_rate := (if elapsed > 0 \<and> elapsed < 1000000000
                                  then (amount * 1000000000) div elapsed else memory_alloc_rate u),
            last_check_time := now \<rparr>)"
| "consume_usage QUOTA_TYPE_THREADS amount now u = u\<lparr> thread_used := thread_used u + 1 \<rparr>"
| "consume_usage QUOTA_TYPE_CAPABILITIES amount now u = u\<lparr> cap_used := cap_used u + 1 \<rparr>"
| "consume_usage QUOTA_TYPE_CPU amount now u = u\<lparr> cpu_time_used := cpu_time_used u + amount \<rparr>"

definition domain_quota_consume ::
    "u32 \<Rightarrow> quota_type \<Rightarrow> u64 \<Rightarrow> u64 \<Rightarrow> kernel_state \<Rightarrow> unit hic_result \<times> kernel_state" where
  "domain_quota_consume d type amount now s =
     (if d \<ge> MAX_DOMAINS then (Inl HIC_ERROR_INVALID_DOMAIN, s)
      else if fst (domain_quota_check d type amount s) = QUOTA_CHECK_EXCEEDED
      then (Inl HIC_ERROR_QUOTA_EXCEEDED, s)
      else (Inr (), upd_dom (unat d) (\<lambda>x. x\<lparr> usage := consume_usage type amount now (usage x) \<rparr>) s))"

fun release_usage :: "quota_type \<Rightarrow> u64 \<Rightarrow> domain_usage \<Rightarrow> domain_usage" where
  "release_usage QUOTA_TYPE_MEMORY amount u =
     (if memory_used u \<ge> amount then u\<lparr> memory_used := memory_used u - amount \<rparr>
      else u\<lparr> memory_used := 0 \<rparr>)"
| "release_usage QUOTA_TYPE_THREADS amount u =
     (if thread_used u > 0 then u\<lparr> thread_used := thread_used u - 1 \<rparr> else u)"
| "release_usage QUOTA_TYPE_CAPABILITIES amount u =
     (if cap_used u > 0 then u\<lparr> cap_used := cap_used u - 1 \<rparr> else u)"
| "release_usage QUOTA_TYPE_CPU amount u = u"

definition domain_quota_release :: "u32 \<Rightarrow> quota_type \<Rightarrow> u64 \<Rightarrow> kernel_state \<Rightarrow> kernel_state" where
  "domain_quota_release d type amount s =
     (if d \<ge> MAX_DOMAINS then s
      else upd_dom (unat d) (\<lambda>x. x\<lparr> usage := release_usage type amount (usage x) \<rparr>) s)"

definition domain_quota_delegate ::
    "u32 \<Rightarrow> u32 \<Rightarrow> u64 \<Rightarrow> u32 \<Rightarrow> kernel_state \<Rightarrow> unit hic_result \<times> kernel_state" where
  "domain_quota_delegate parent child memory_quota thread_quota s =
     (if parent \<ge> MAX_DOMAINS \<or> child \<ge> MAX_DOMAINS then (Inl HIC_ERROR_INVALID_DOMAIN, s)
      else let p = k_doms s (unat parent);
               available_memory = max_memory (quota p) - memory_delegated (quota p) - memory_used (usage p);
               available_threads = max_threads (quota p) - threads_delegated (quota p) - thread_used (usage p)
      in if memory_quota > available_memory \<or> thread_quota > available_threads
         then (Inl HIC_ERROR_QUOTA_EXCEEDED, s)
      else (Inr (),
            upd_dom (unat child) (\<lambda>c. c\<lparr>
                quota := (quota c)\<lparr> max_memory := memory_quota, max_threads := thread_quota \<rparr>,
                parent_domain := parent \<rparr>)
              (upd_dom (unat parent) (\<lambda>x. x\<lparr> quota := (quota x)\<lparr>
                memory_delegated := memory_delegated (quota x) + memory_quota,
                threads_delegated := threads_delegated (quota x) + thread_quota \<rparr> \<rparr>) s)))"

definition domain_get_usage_percent :: "u32 \<Rightarrow> quota_type \<Rightarrow> kernel_state \<Rightarrow> u32" where
  "domain_get_usage_percent d type s =
     (if d \<ge> MAX_DOMAINS then 0
      else let x = k_doms s (unat d)
      in if type = QUOTA_TYPE_CPU then cpu_quota_percent (quota x)
         else ucast ((quota_used type x * 100) div (if quota_max type x > 0 then quota_max type x else 1)))"

definition domain_get_allocation_rate :: "u32 \<Rightarrow> quota_type \<Rightarrow> kernel_state \<Rightarrow> u64" where
  "domain_get_allocation_rate d type s =
     (if d \<ge> MAX_DOMAINS then 0
      else case type of
        QUOTA_TYPE_MEMORY \<Rightarrow> memory_alloc_rate (usage (k_doms s (unat d)))
      | QUOTA_TYPE_THREADS \<Rightarrow> ucast (thread_create_rate (usage (k_doms s (unat d))))
      | _ \<Rightarrow> 0)"

section \<open>Emergencies\<close>

datatype emergency_level =
    EMERGENCY_LEVEL_NONE
  | EMERGENCY_LEVEL_WARNING
  | EMERGENCY_LEVEL_CRITICAL
  | EMERGENCY_LEVEL_EMERGENCY

record system_resource_status =
  st_total_memory :: u64
  st_free_memory :: u64
  st_used_memory :: u64
  st_free_percent :: u32
  st_domain_count :: u32
  st_thread_count :: u32
  st_cap_count :: u32
  st_level :: emergency_level

definition domain_detect_emergency :: "kernel_state \<Rightarrow> emergency_level" where
  "domain_detect_emergency s =
     (let total = total_memory (kpmm s); used = used_memory (kpmm s)
      in if total = 0 then EMERGENCY_LEVEL_NONE
      else let free_mem = (if total > used then total - used else 0);
               free_percent = ucast ((free_mem * 100) div total) :: u32
      in if free_percent < 5 then EMERGENCY_LEVEL_EMERGENCY
         else if free_percent < 10 then EMERGENCY_LEVEL_CRITICAL
         else if free_percent < 20 then EMERGENCY_LEVEL_WARNING
         else EMERGENCY_LEVEL_NONE)"

definition domain_get_system_status :: "kernel_state \<Rightarrow> system_resource_status" where
  "domain_get_system_status s =
     (let total = total_memory (kpmm s); used = used_memory (kpmm s);
          free = (if total > used then total - used else 0);
          (threads, caps) = for_range (\<lambda>i (t, c). if domain_state (k_doms s i) \<noteq> DOMAIN_STATE_INIT
              then (t + thread_count (k_doms s i), c + cap_count (k_doms s i)) else (t, c))
              0 (unat MAX_DOMAINS) (0, 0)
      in \<lparr> st_total_memory = total, st_free_memory = free, st_used_memory = used,
           st_free_percent = ucast ((free * 100) div (if total > 0 then total else 1)),
           st_domain_count = k_domain_count s, st_thread_count = threads, st_cap_count = caps,
           st_level = domain_detect_emergency s \<rparr>)"

definition emergency_one :: "emergency_level \<Rightarrow> bool \<Rightarrow> nat \<Rightarrow> u32 \<times> kernel_state \<Rightarrow> u32 \<times> kernel_state" where
  "emergency_one level exclude_critical i = (\<lambda>(affected, s).
     let x = k_doms s i; critical = (dom_flags x AND DOMAIN_FLAG_CRITICAL \<noteq> 0)
     in if domain_state x \<noteq> DOMAIN_STATE_RUNNING \<or> domain_type x = DOMAIN_TYPE_CORE \<or>
           (exclude_critical \<and> critical) then (affected, s)
        else if level = EMERGENCY_LEVEL_CRITICAL \<and> domain_type x = DOMAIN_TYPE_APPLICATION \<or>
                level = EMERGENCY_LEVEL_EMERGENCY \<and> \<not> critical
        then (affected + 1, snd (domain_suspend (of_nat i) s))
        else (affected, s))"

definition domain_trigger_emergency_action ::
    "emergency_level \<Rightarrow> bool \<Rightarrow> kernel_state \<Rightarrow> u32 \<times> kernel_state" where
  "domain_trigger_emergency_action level exclude_critical s =
     for_range (emergency_one level exclude_critical) 0 (unat MAX_DOMAINS) (0, s)"

definition domain_atomic_resource_reclaim :: "u32 \<Rightarrow> kernel_state \<Rightarrow> unit hic_result \<times> kernel_state" where
  "domain_atomic_resource_reclaim d s =
     (if d \<ge> MAX_DOMAINS then (Inl HIC_ERROR_INVALID_DOMAIN, s)
      else let i = unat d;
               s1 = upd_dom i (set_domain_state DOMAIN_STATE_SUSPENDED) s;
               s2 = (if dom_cspace (k_doms s1 i) \<noteq> None then kcspace_destroy i s1 else s1)
      in (Inr (), upd_dom i (\<lambda>x. x\<lparr> usage := (usage x)\<lparr> memory_used := 0, thread_used := 0, cap_used := 0 \<rparr> \<rparr>) s2))"

section \<open>Replacement without downtime\<close>

definition DOMAIN_FLAG_NEW_INSTANCE :: u32 where [hic_consts]: "DOMAIN_FLAG_NEW_INSTANCE = 0x200"
definition DOMAIN_FLAG_OLD_INSTANCE :: u32 where [hic_consts]: "DOMAIN_FLAG_OLD_INSTANCE = 0x400"
definition DOMAIN_FLAG_DRAINING :: u32 where [hic_consts]: "DOMAIN_FLAG_DRAINING = 0x800"

definition domain_parallel_create ::
    "u32 \<Rightarrow> domain_quota option \<Rightarrow> bool \<Rightarrow> kernel_image \<Rightarrow> kernel_state \<Rightarrow> u32 hic_result \<times> kernel_state" where
  "domain_parallel_create template_domain quota_override out_ok img s =
     (if template_domain \<ge> MAX_DOMAINS \<or> \<not> out_ok then (Inl HIC_ERROR_INVALID_PARAM, s)
      else let t = k_doms s (unat template_domain)
      in if domain_state t \<noteq> DOMAIN_STATE_RUNNING \<and> domain_state t \<noteq> DOMAIN_STATE_READY
         then (Inl HIC_ERROR_INVALID_STATE, s)
      else case domain_create (domain_type t) template_domain
                  (case quota_override of None \<Rightarrow> quota t | Some q \<Rightarrow> q) img s of
        (Inl e, s1) \<Rightarrow> (Inl e, s1)
      | (Inr n, s1) \<Rightarrow>
          let s2 = upd_dom (unat n) (\<lambda>x. x\<lparr> dom_flags := dom_flags x OR DOMAIN_FLAG_NEW_INSTANCE \<rparr>) s1;
              s3 = s2\<lparr> k_partners := (k_partners s2)(unat n := template_domain, unat template_domain := n) \<rparr>
          in (Inr n, upd_dom (unat n) (\<lambda>x. x\<lparr> cap_capacity := cap_capacity (k_doms s3 (unat template_domain)) \<rparr>) s3))"

definition domain_set_parallel_partner :: "u32 \<Rightarrow> u32 \<Rightarrow> kernel_state \<Rightarrow> unit hic_result \<times> kernel_state" where
  "domain_set_parallel_partner a b s =
     (if a \<ge> MAX_DOMAINS \<or> b \<ge> MAX_DOMAINS then (Inl HIC_ERROR_INVALID_PARAM, s)
      else (Inr (), s\<lparr> k_partners := (k_partners s)(unat a := b, unat b := a) \<rparr>))"

text \<open>The partner is stored through the pointer also when the answer is not found.\<close>

definition domain_get_parallel_partner :: "u32 \<Rightarrow> bool \<Rightarrow> kernel_state \<Rightarrow> u32 hic_result" where
  "domain_get_parallel_partner d partner_ok s =
     (if d \<ge> MAX_DOMAINS \<or> \<not> partner_ok then Inl HIC_ERROR_INVALID_PARAM
      else if k_partners s (unat d) = HIC_INVALID_DOMAIN then Inl HIC_ERROR_NOT_FOUND
      else Inr (k_partners s (unat d)))"

text \<open>What the switch does to entry \<open>i\<close> of the thread table.\<close>

definition switch_thread :: "u32 \<Rightarrow> u32 \<Rightarrow> nat \<Rightarrow> thread \<Rightarrow> thread" where
  "switch_thread from_d to_d i t =
     (if thr_id t \<noteq> of_nat i then t
      else let t1 = (if thr_domain t = from_d \<and> (thr_state t = THREAD_STATE_READY \<or> thr_state t = THREAD_STATE_RUNNING)
                     then t\<lparr> thr_state := THREAD_STATE_BLOCKED \<rparr> else t)
      in if thr_domain t1 = to_d \<and> (thr_state t1 = THREAD_STATE_BLOCKED \<or> thr_state t1 = THREAD_STATE_WAITING)
         then t1\<lparr> thr_state := THREAD_STATE_READY, thr_time_slice := 100 \<rparr> else t1)"

definition domain_atomic_switch :: "u32 \<Rightarrow> u32 \<Rightarrow> kernel_state \<Rightarrow> unit hic_result \<times> kernel_state" where
  "domain_atomic_switch from_d to_d s =
     (if from_d \<ge> MAX_DOMAINS \<or> to_d \<ge> MAX_DOMAINS then (Inl HIC_ERROR_INVALID_PARAM, s)
      else let f = domain_state (k_doms s (unat from_d)); t = domain_state (k_doms s (unat to_d))
      in if f \<noteq> DOMAIN_STATE_RUNNING \<and> f \<noteq> DOMAIN_STATE_READY then (Inl HIC_ERROR_INVALID_STATE, s)
      else if t \<noteq> DOMAIN_STATE_RUNNING \<and> t \<noteq> DOMAIN_STATE_READY then (Inl HIC_ERROR_INVALID_STATE, s)
      else let s1 = upd_dom (unat from_d) (\<lambda>x. x\<lparr>
                 dom_flags := dom_flags x OR (DOMAIN_FLAG_DRAINING OR DOMAIN_FLAG_OLD_INSTANCE),
                 domain_state := DOMAIN_STATE_SUSPENDED \<rparr>) s;
               s2 = for_range (\<lambda>i. upd_thread i (switch_thread from_d to_d i)) 0 (unat MAX_THREADS) s1
      in (Inr (), upd_dom (unat to_d) (\<lambda>x. x\<lparr>
            dom_flags := (dom_flags x AND NOT DOMAIN_FLAG_NEW_INSTANCE) OR DOMAIN_FLAG_PRIMARY \<rparr>) s2))"

text \<open>
  The wait of \<open>domain_graceful_shutdown\<close>. In round \<open>n\<close> the clock reads \<open>clock n\<close>, and \<open>env n\<close> is
  what the rest of the system does to the state while the caller yields or delays. \<open>None\<close> means
  that the loop is still waiting after \<open>fuel\<close> rounds. The flag of the result says whether to go on
  and destroy the domain.
\<close>

primrec shutdown_wait ::
    "nat \<Rightarrow> (nat \<Rightarrow> u64) \<Rightarrow> (nat \<Rightarrow> kernel_state \<Rightarrow> kernel_state) \<Rightarrow> nat \<Rightarrow> u64 \<Rightarrow> u64 \<Rightarrow> bool \<Rightarrow> nat \<Rightarrow>
     kernel_state \<Rightarrow> (bool \<times> kernel_state) option" where
  "shutdown_wait 0 clock env d start timeout force n s = None"
| "shutdown_wait (Suc fuel) clock env d start timeout force n s =
     (let u = usage (k_doms s d)
      in if thread_used u > 0 \<or> cap_used u > 0
         then if clock n - start \<ge> timeout then Some (force, s)
              else shutdown_wait fuel clock env d start timeout force (Suc n) (env n s)
         else Some (True, s))"

definition block_domain_thread :: "u32 \<Rightarrow> thread \<Rightarrow> thread" where
  "block_domain_thread d t =
     (if thr_domain t = d \<and> (thr_state t = THREAD_STATE_READY \<or> thr_state t = THREAD_STATE_RUNNING)
      then t\<lparr> thr_state := THREAD_STATE_BLOCKED \<rparr> else t)"

definition domain_graceful_shutdown ::
    "nat \<Rightarrow> (nat \<Rightarrow> u64) \<Rightarrow> (nat \<Rightarrow> kernel_state \<Rightarrow> kernel_state) \<Rightarrow> u64 \<Rightarrow> u32 \<Rightarrow> u32 \<Rightarrow> bool \<Rightarrow>
     kernel_state \<Rightarrow> (unit hic_result \<times> kernel_state) option" where
  "domain_graceful_shutdown fuel clock env start d timeout_ms force s =
     (if d \<ge> MAX_DOMAINS then Some (Inl HIC_ERROR_INVALID_DOMAIN, s)
      else let st = domain_state (k_doms s (unat d))
      in if st \<noteq> DOMAIN_STATE_RUNNING \<and> st \<noteq> DOMAIN_STATE_SUSPENDED then Some (Inl HIC_ERROR_INVALID_STATE, s)
      else let s1 = for_range (\<lambda>i. upd_thread i (block_domain_thread d)) 0 (unat MAX_THREADS) s;
               s2 = upd_dom (unat d) (\<lambda>x. x\<lparr> domain_state := DOMAIN_STATE_SUSPENDED,
                      dom_flags := dom_flags x OR DOMAIN_FLAG_OLD_INSTANCE \<rparr>) s1
      in case shutdown_wait fuel clock env (unat d) start (ucast timeout_ms * 1000000) force 0 s2 of
           None \<Rightarrow> None
         | Some (go, s3) \<Rightarrow> Some (if go then domain_destroy d s3 else (Inl HIC_ERROR_TIMEOUT, s3)))"

section \<open>Revocation only gives frames back\<close>

definition pmm_shrinks :: "pmm \<Rightarrow> pmm \<Rightarrow> bool" where
  "pmm_shrinks p p' \<longleftrightarrow> (pmm_wf p \<longrightarrow> pmm_wf p') \<and> (\<forall>j. frame_busy p' j \<longrightarrow> frame_busy p j)"

lemma pmm_shrinks_refl [simp]: "pmm_shrinks p p"
  by (simp add: pmm_shrinks_def)

lemma pmm_shrinks_trans: "pmm_shrinks p q \<Longrightarrow> pmm_shrinks q r \<Longrightarrow> pmm_shrinks p r"
  unfolding pmm_shrinks_def by blast

lemma pmm_shrinks_free: "pmm_shrinks p (snd (pmm_free_frames a n p))"
proof (cases "pmm_free_frames a n p")
  case (Pair r p')
  show ?thesis
  proof (cases r)
    case (Inl e)
    from pmm_free_frames_errD(2) [OF Pair [unfolded Inl]]
    have "p' = p \<or> p' = p\<lparr> pmm_fault := True \<rparr>" .
    then show ?thesis using Pair by (auto simp: pmm_shrinks_def frame_busy_def)
  next
    case (Inr u)
    then have fr: "pmm_free_frames a n p = (Inr u, p')" using Pair by simp
    show ?thesis
      using pmm_free_frames_used [OF fr] pmm_free_frames_wf [OF _ fr] fr
      by (auto simp: pmm_shrinks_def frame_busy_def)
  qed
qed

abbreviation cap_shrinks :: "cap_state \<Rightarrow> cap_state \<Rightarrow> bool" where
  "cap_shrinks s s' \<equiv> pmm_shrinks (cs_pmm s) (cs_pmm s')"

lemma cs_pmm_updates [simp]:
  "cs_pmm (upd_cap c f s) = cs_pmm s" "cs_pmm (upd_deriv c g s) = cs_pmm s"
  "cs_pmm (upd_region i h s) = cs_pmm s" "cs_pmm (set_revoked c s) = cs_pmm s"
  "cs_pmm (clear_cap c s) = cs_pmm s" "cs_pmm (unlink_child q c s) = cs_pmm s"
  by (simp_all add: upd_cap_def upd_deriv_def upd_region_def set_revoked_def clear_cap_def
      unlink_child_def Let_def split: option.split)

lemma cap_release_shrinks: "cap_shrinks s (cap_release_shmem_if_needed c s)"
  using pmm_shrinks_free
  by (auto simp: cap_release_shmem_if_needed_def Let_def split: option.split)

lemma revoke_children_shrinks:
  assumes "\<And>c t. cap_shrinks t (f c t)"
  shows "cap_shrinks s (revoke_children f cap n i s)"
proof (induction n arbitrary: i s)
  case 0
  then show ?case by simp
next
  case (Suc n)
  have "cap_shrinks s (revoke_children f cap n (Suc i) t)" if "cap_shrinks s t" for t
    using pmm_shrinks_trans [OF that Suc.IH] .
  then show ?case using assms by (auto simp: Let_def)
qed

lemma cap_revoke_r_shrinks: "cap_shrinks s (cap_revoke_r levels cap s)"
proof (induction levels arbitrary: cap s)
  case 0
  then show ?case by simp
next
  case (Suc levels)
  let ?s1 = "set_revoked cap s"
  let ?s2 = "revoke_children (cap_revoke_r levels) cap MAX_DERIVATIVES_PER_CAP 0 ?s1"
  let ?s3 = "cap_release_shmem_if_needed cap ?s2"
  have "cap_shrinks ?s1 ?s2" by (rule revoke_children_shrinks) (rule Suc.IH)
  then have "cap_shrinks s ?s3" using pmm_shrinks_trans [OF _ cap_release_shrinks] by simp
  moreover have "cap_revoke_r (Suc levels) cap s = s \<or>
      cap_revoke_r (Suc levels) cap s = clear_cap cap (unlink_child (dv_parent (deriv_at ?s3 cap)) cap ?s3)"
    unfolding cap_revoke_r.simps Let_def by simp
  ultimately show ?case by (metis cs_pmm_updates(5,6) pmm_shrinks_refl)
qed

lemma cap_revoke_shrinks: "cap_shrinks s (snd (cap_revoke c s))"
  by (simp add: cap_revoke_def cap_revoke_recursive_impl_def cap_revoke_r_shrinks del: cap_revoke_r.simps)

abbreviation xs_shrinks :: "cspace_state \<Rightarrow> cspace_state \<Rightarrow> bool" where
  "xs_shrinks s s' \<equiv> cap_shrinks (xs_caps s) (xs_caps s')"

lemma xs_caps_updates [simp]:
  "xs_caps (upd_slot b i f s) = xs_caps s" "xs_caps (upd_cnode b g s) = xs_caps s"
  "xs_caps (fault s) = xs_caps s" "xs_caps (cnode_free p s) = xs_caps s"
  "xs_caps (upd_xcaps h s) = h (xs_caps s)" "xs_caps (cap_cache_invalidate d c s) = xs_caps s"
  by (simp_all add: upd_slot_def upd_cnode_def fault_def cnode_free_def upd_xcaps_def
      cap_cache_invalidate_def split: option.split)

lemma cnode_revoke_r_shrinks: "xs_shrinks s (cnode_revoke_r levels c s)"
proof (induction levels arbitrary: c s)
  case 0
  then show ?case by simp
next
  case (Suc levels)
  have step: "xs_shrinks t (revoke_slot_step (cnode_revoke_r levels) b i t)" for b i t
    using Suc.IH cap_revoke_shrinks by (simp add: revoke_slot_step_def Let_def)
  have "xs_shrinks s (for_range (revoke_slot_step (cnode_revoke_r levels) b) i n s)" for b i n
    by (rule for_range_invariant [where I = "xs_shrinks s"]) (simp, rule pmm_shrinks_trans [OF _ step])
  then show ?case by (simp split: sum.split option.split)
qed

lemma cnode_revoke_subtree_shrinks: "xs_shrinks s (snd (cnode_revoke_subtree c s))"
  by (simp add: cnode_revoke_subtree_def cnode_revoke_subtree_impl_def cnode_revoke_r_shrinks
      del: cnode_revoke_r.simps)

lemma cspace_destroy_shrinks: "xs_shrinks s (snd (cspace_destroy d s))"
proof -
  have "xs_shrinks t (snd (cnode_destroy c t))" for c t
    using cnode_revoke_subtree_shrinks by (simp add: cnode_destroy_def Let_def)
  then have "xs_shrinks s (snd (cnode_destroy c (snd (cnode_revoke_subtree c s))))" for c
    by (rule pmm_shrinks_trans [OF cnode_revoke_subtree_shrinks])
  then show ?thesis by (simp add: cspace_destroy_def Let_def)
qed

lemma kcspace_destroy_shrinks: "pmm_shrinks (kpmm s) (kpmm (kcspace_destroy d s))"
  using cspace_destroy_shrinks by (simp add: kcspace_destroy_def kpmm_def)

lemma kcspace_destroy_simps [simp]:
  "k_doms (kcspace_destroy d s) = k_doms s" "k_pg (kcspace_destroy d s) = k_pg s"
  "k_threads (kcspace_destroy d s) = k_threads s"
  by (simp_all add: kcspace_destroy_def)

lemma cspace_init_pmm: "cspace_init d b s = (r, s') \<Longrightarrow> cs_pmm (xs_caps s') = cs_pmm (xs_caps s)"
  by (auto simp: cspace_init_def cnode_create_def cnode_alloc_def Let_def split: if_splits option.splits)

lemma domain_setup_cspace_same:
  assumes "domain_setup_cspace type d img s = (ok, s')"
  shows "kpmm s' = kpmm s" "k_pg s' = k_pg s" "i \<noteq> d \<Longrightarrow> k_doms s' i = k_doms s i"
    and "domain_state (k_doms s' d) = domain_state (k_doms s d)"
  using assms cspace_init_pmm
  by (auto simp: domain_setup_cspace_def kpmm_def split: if_splits prod.splits sum.splits option.splits)

section \<open>A creation that fails\<close>

lemma give_back_frames:
  assumes wf: "pmm_wf (kpmm t)" and n: "n \<noteq> 0" and busy: "\<And>j. j \<in> frames_at a n \<Longrightarrow> frame_busy (kpmm t) j"
    and j: "j \<in> frames_at a n"
  shows "\<not> frame_busy (kpmm (kcspace_destroy d (set_kpmm (snd (pmm_free_frames a n (kpmm t))) t))) j"
proof -
  obtain p where fr: "pmm_free_frames a n (kpmm t) = (Inr (), p)"
    using pmm.release_total [OF wf n busy] by blast
  then have "\<not> frame_busy p j" using pmm.release_busy [OF wf fr] j by simp
  then show ?thesis
    using kcspace_destroy_shrinks [of "set_kpmm p t" d] fr by (auto simp: pmm_shrinks_def)
qed

lemma build_page_table_failure:
  assumes F: "pt_forest R (kpaging s)" and b0: "frame_busy (kpmm s) 0"
    and n: "size_to_frames sz \<noteq> 0"
    and busy: "\<And>j. j \<in> frames_at mem (size_to_frames sz) \<Longrightarrow> frame_busy (kpmm s) j"
    and bp: "domain_build_page_table type d img mem sz s = (False, s')"
  shows "domain_state (k_doms s' d) = domain_state (k_doms s d) \<and>
     phys_base (k_doms s' d) = phys_base (k_doms s d) \<and> phys_size (k_doms s' d) = phys_size (k_doms s d) \<and>
     (\<forall>j. j \<in> frames_at mem (size_to_frames sz) \<longrightarrow> \<not> frame_busy (kpmm s') j)"
proof -
  obtain pt g where cr: "pagetable_create (kpaging s) = (pt, g)" by fastforce
  note C = create_forest [OF F cr]
  define s1 where "s1 = put_paging g s"
  have wf1: "pmm_wf (kpmm s1)" using forest_wf [OF C(1)] by (simp add: s1_def)
  have bs1: "frame_busy (kpmm s1) j" if "frame_busy (kpmm s) j" for j
    using C(5) [of j] that by (simp add: s1_def)
  let ?undo = "\<lambda>t. kcspace_destroy d (set_kpmm (snd (pmm_free_frames mem (size_to_frames sz) (kpmm t))) t)"
  show ?thesis
  proof (cases "pt = 0")
    case True
    then have s': "s' = ?undo s1" using bp cr by (simp add: domain_build_page_table_def Let_def s1_def)
    then show ?thesis
      using give_back_frames [OF wf1 n bs1 [OF busy]] by (simp add: s1_def)
  next
    case False
    define s2 where "s2 = upd_dom d (\<lambda>dom. dom\<lparr> page_table := pt \<rparr>) s1"
    obtain r g2 where mp: "pagetable_map pt mem mem sz PERM_RW MAP_TYPE_USER g = (r, g2)" by fastforce
    have F1: "pt_forest (insert pt R) g" using C(1) False by simp
    note M = map_forest [OF F1 insertI1 mp]
    note D = destroy_forest [OF M(1) insertI1]
    define t where "t = put_paging (pagetable_destroy pt g2) s2"
    have "isl r" and s': "s' = ?undo t"
      using bp cr mp False
      by (auto simp: domain_build_page_table_def Let_def s1_def s2_def t_def split: sum.splits)
    have "frame_busy (pg_pmm g) 0" using C(5) [of 0] b0 by simp
    then have G: "grows pt g g2" by (rule M(2))
    have "frame_busy (kpmm t) j" if j: "j \<in> frames_at mem (size_to_frames sz)" for j
    proof -
      have s0: "frame_busy (kpmm s) j" by (rule busy [OF j])
      have nf: "j \<noteq> unat pt div 4096" using C(4) [OF False] s0 by auto
      have gj: "frame_busy (pg_pmm g) j" using C(5) [of j] s0 by simp
      have "j \<notin> tree_frames (pg_mem g2) 3 pt"
        using G gj nf C(3) [OF False] unfolding grows_def by blast
      then show ?thesis using frees_exactlyD(4) [OF D(1), of j] M(4) [OF gj] by (simp add: t_def)
    qed
    moreover have "pmm_wf (kpmm t)" using frees_exactlyD(1) [OF D(1)] by (simp add: t_def)
    ultimately show ?thesis
      using give_back_frames [OF _ n, of t mem] s' by (simp add: t_def s2_def s1_def)
  qed
qed

lemma domain_fill_simps [simp]:
  "kpmm (domain_fill type parent q d b sz s) = kpmm s" "k_pg (domain_fill type parent q d b sz s) = k_pg s"
  "domain_state (k_doms (domain_fill type parent q d b sz s) d) = DOMAIN_STATE_READY"
  "type \<noteq> DOMAIN_TYPE_CORE \<Longrightarrow> phys_base (k_doms (domain_fill type parent q d b sz s) d) = b"
  "type \<noteq> DOMAIN_TYPE_CORE \<Longrightarrow> phys_size (k_doms (domain_fill type parent q d b sz s) d) = sz"
  "i \<noteq> d \<Longrightarrow> k_doms (domain_fill type parent q d b sz s) i = k_doms s i"
  by (simp_all add: domain_fill_def Let_def)

lemma domain_create_no_memory:
  assumes F: "pt_forest R (kpaging s)" and b0: "frame_busy (kpmm s) 0"
    and cr: "domain_create type parent q img s = (Inl HIC_ERROR_NO_MEMORY, s')"
  shows "\<exists>d<128. domain_state (k_doms s d) = DOMAIN_STATE_INIT \<and>
     domain_state (k_doms s' d) = DOMAIN_STATE_READY \<and> phys_size (k_doms s' d) = max_memory q \<and>
     (\<forall>j. j \<in> frames_at (phys_base (k_doms s' d)) (size_to_frames (max_memory q)) \<longrightarrow> \<not> frame_busy (kpmm s') j)"
proof -
  let ?n = "size_to_frames (max_memory q)"
  obtain d where d: "find_first (\<lambda>i. domain_state (k_doms s i) = DOMAIN_STATE_INIT) 0 (unat MAX_DOMAINS) = Some d"
    using cr by (auto simp: domain_create_def split: option.splits)
  let ?s0 = "upd_dom d (\<lambda>dom. dom\<lparr> cap_capacity := max_caps q \<rparr>) s"
  obtain ok s1 where sc: "domain_setup_cspace type d img ?s0 = (ok, s1)" by fastforce
  have ok: "ok" and nc: "type \<noteq> DOMAIN_TYPE_CORE"
    using cr d sc by (auto simp: domain_create_def Let_def split: if_splits bool.splits)
  note S = domain_setup_cspace_same [OF sc]
  obtain a p where al: "pmm_alloc_frames ?n True (kpmm s1) = (Inr a, p)"
    using cr d sc ok nc by (auto simp: domain_create_def Let_def split: prod.splits sum.splits)
  define s2 where "s2 = domain_fill type parent q d a (max_memory q) (set_kpmm p s1)"
  have bp: "domain_build_page_table type d img a (max_memory q) s2 = (False, s')"
    using cr d sc ok nc al
    by (auto simp: domain_create_def Let_def s2_def split: prod.splits bool.splits)
  have wf: "pmm_wf (kpmm s1)" using forest_wf [OF F] S(1) by simp
  have "kpaging s1 = kpaging s" using S(1,2) by (simp add: kpaging_def)
  then have "pt_forest R (kpaging s1)" using F by simp
  then have F2: "pt_forest R (kpaging s2)"
    using forest_step [OF pt_step.client_alloc, of ?n "kpaging s1" a p R] al
    by (simp add: s2_def kpaging_def)
  have b2: "frame_busy (kpmm s2) 0" using pmm.alloc_busy [OF wf al] b0 S(1) by (simp add: s2_def)
  have busy2: "frame_busy (kpmm s2) j" if "j \<in> frames_at a ?n" for j
    using pmm.alloc_busy [OF wf al] that by (simp add: s2_def)
  have "d < 128 \<and> domain_state (k_doms s d) = DOMAIN_STATE_INIT"
    using find_first_SomeD [OF d] by (simp add: hic_consts)
  moreover note build_page_table_failure [OF F2 b2 pmm.alloc_nonzero [OF wf al] busy2 bp]
  ultimately show ?thesis using nc by (intro exI [of _ d]) (simp add: s2_def)
qed

end
