(* ===== verification/Hic_Thread.thy ===== *)
theory Hic_Thread
  imports Hic_Domain
begin

text \<open>
  Threads and the boot scheduler, \<^verbatim>\<open>Core-0/thread.c\<close>, \<^verbatim>\<open>Core-0/scheduler.c\<close> and the routine
  \<open>context_switch\<close> of \<^verbatim>\<open>Core-0/arch/x86_64/context.S\<close>. A stack is memory in the same store that
  holds the page tables, addressed by identity. The registers at the moment a context switch is
  called are an argument of the operations that may switch, and the registers after it a result.
  Console output and critical sections are left out.
\<close>

unbundle bit_operations_syntax

section \<open>Registers and stacks\<close>

text \<open>\<open>cpu_saved\<close> lists \<open>rbx\<close>, \<open>rbp\<close>, \<open>r12\<close> to \<open>r15\<close>, in the order in which they are pushed.\<close>

record cpu =
  cpu_rsp :: u64
  cpu_rip :: u64
  cpu_saved :: "u64 list"

definition page_of :: "u64 \<Rightarrow> u64" where
  "page_of a = a AND NOT 0xFFF"

definition word_index :: "u64 \<Rightarrow> nat" where
  "word_index a = unat (drop_bit 3 (a AND 0xFFF))"

definition load_word :: "u64 \<Rightarrow> kernel_state \<Rightarrow> u64" where
  "load_word a s = pg_mem (k_pg s) (page_of a) (word_index a)"

definition store_word :: "u64 \<Rightarrow> u64 \<Rightarrow> kernel_state \<Rightarrow> kernel_state" where
  "store_word a v s = s\<lparr> k_pg := (k_pg s)\<lparr> pg_mem := (pg_mem (k_pg s))(page_of a :=
     (pg_mem (k_pg s) (page_of a))(word_index a := v)) \<rparr> \<rparr>"

text \<open>Dereference of a control block pointer; the operations never dereference \<open>NULL\<close>.\<close>

fun thread_of :: "thread_ptr \<Rightarrow> kernel_state \<Rightarrow> thread" where
  "thread_of TNull s = thread_zero"
| "thread_of TIdle s = k_idle s"
| "thread_of (TSlot i) s = k_threads s i"

fun upd_ptr :: "thread_ptr \<Rightarrow> (thread \<Rightarrow> thread) \<Rightarrow> kernel_state \<Rightarrow> kernel_state" where
  "upd_ptr TNull f s = s"
| "upd_ptr TIdle f s = s\<lparr> k_idle := f (k_idle s) \<rparr>"
| "upd_ptr (TSlot i) f s = upd_thread i f s"

definition set_thread_state :: "thread_state \<Rightarrow> thread \<Rightarrow> thread" where
  "set_thread_state st t = t\<lparr> thr_state := st \<rparr>"

definition push_word :: "u64 \<Rightarrow> u64 \<times> kernel_state \<Rightarrow> u64 \<times> kernel_state" where
  "push_word v = (\<lambda>(sp, s). (sp - 8, store_word (sp - 8) v s))"

text \<open>
  \<open>context_switch\<close>: save the registers of \<open>prev\<close> on its stack, load the page table of the
  domain of \<open>next\<close> when it differs from the current one, and continue from the stack of \<open>next\<close>.
  The return address that the inner call leaves below the old stack pointer is dead and left out.
\<close>

definition cr3_mask :: u64 where [hic_consts]: "cr3_mask = 0xFFFFFFFFF000"

definition load_page_table :: "u32 \<Rightarrow> kernel_state \<Rightarrow> kernel_state" where
  "load_page_table d s =
     (if d \<ge> 256 then s
      else let pt = domain_switch_get_pagetable d (k_pg s)
      in if pt = 0 then s
      else if pt AND cr3_mask = pg_cr3 (k_pg s) AND cr3_mask then s
      else s\<lparr> k_pg := (k_pg s)\<lparr> pg_cr3 := pt AND cr3_mask \<rparr> \<rparr>)"

definition context_switch :: "thread_ptr \<Rightarrow> thread_ptr \<Rightarrow> cpu \<Rightarrow> kernel_state \<Rightarrow> cpu \<times> kernel_state" where
  "context_switch prev next c s =
     (let s1 = (if prev = TNull then s
                else let (sp, t) = fold push_word (cpu_saved c) (cpu_rsp c, s)
                     in upd_ptr prev (\<lambda>x. x\<lparr> thr_stack_ptr := sp \<rparr>) t);
          s2 = load_page_table (thr_domain (thread_of next s1)) s1;
          sp = thr_stack_ptr (thread_of next s2)
      in (\<lparr> cpu_rsp = sp + 56, cpu_rip = load_word (sp + 48) s2,
            cpu_saved = map (\<lambda>k. load_word (sp + k) s2) [40, 32, 24, 16, 8, 0] \<rparr>, s2))"

section \<open>The boot scheduler\<close>


definition boot_pick_next :: "kernel_state \<Rightarrow> thread_ptr \<times> kernel_state" where
  "boot_pick_next s =
     (let slot = (\<lambda>k. unat ((k_last_scheduled s + of_nat k) mod MAX_THREADS))
      in case find_first (\<lambda>k. thr_id (k_threads s (slot k)) = of_nat (slot k) \<and>
                              thr_state (k_threads s (slot k)) = THREAD_STATE_READY)
                1 (unat MAX_THREADS) of
           None \<Rightarrow> (TIdle, s)
         | Some k \<Rightarrow> (TSlot (slot k), s\<lparr> k_last_scheduled := of_nat (slot k) \<rparr>))"

text \<open>\<open>idle_stack\<close> is the address of \<open>g_idle_stack\<close>, \<open>halt\<close> that of \<open>hal_halt\<close>.\<close>

definition scheduler_init :: "u64 \<Rightarrow> u64 \<Rightarrow> kernel_state \<Rightarrow> kernel_state" where
  "scheduler_init idle_stack halt s =
     store_word (idle_stack + 8192 - 8) halt
       (s\<lparr> k_current := TNull,
           k_idle := thread_zero\<lparr> thr_id := 0xFFFFFFFF, thr_state := THREAD_STATE_READY,
             thr_priority := HIC_PRIORITY_IDLE, thr_lcore := INVALID_LOGICAL_CORE,
             thr_stack_base := idle_stack, thr_stack_size := 8192,
             thr_stack_ptr := idle_stack + 8192 - 8 - 48 \<rparr> \<rparr>)"

definition schedule :: "cpu \<Rightarrow> kernel_state \<Rightarrow> thread_ptr \<times> cpu \<times> kernel_state" where
  "schedule c s =
     (let prev = k_current s; (next, s1) = boot_pick_next s
      in if next = prev then (next, c, s1)
      else let s2 = (if prev \<noteq> TNull \<and> thr_state (thread_of prev s1) = THREAD_STATE_RUNNING \<and> prev \<noteq> TIdle
                     then upd_ptr prev (set_thread_state THREAD_STATE_READY) s1 else s1);
               s3 = upd_ptr next (set_thread_state THREAD_STATE_RUNNING) s2;
               s4 = s3\<lparr> k_current := next \<rparr>;
               (c', s5) = context_switch prev next c s4
      in (next, c', s5))"

definition thread_yield :: "cpu \<Rightarrow> kernel_state \<Rightarrow> cpu \<times> kernel_state" where
  "thread_yield c s =
     snd (schedule c (if k_current s \<noteq> TNull \<and> k_current s \<noteq> TIdle
                      then upd_ptr (k_current s) (set_thread_state THREAD_STATE_READY) s else s))"

definition thread_block :: "u32 \<Rightarrow> cpu \<Rightarrow> kernel_state \<Rightarrow> unit hic_result \<times> cpu \<times> kernel_state" where
  "thread_block thread_id c s =
     (if thread_id \<ge> MAX_THREADS then (Inl HIC_ERROR_INVALID_PARAM, c, s)
      else let s1 = upd_thread (unat thread_id) (set_thread_state THREAD_STATE_BLOCKED) s
      in if k_current s1 = TSlot (unat thread_id) then (Inr (), snd (schedule c s1))
         else (Inr (), c, s1))"

definition thread_wakeup :: "u32 \<Rightarrow> kernel_state \<Rightarrow> unit hic_result \<times> kernel_state" where
  "thread_wakeup thread_id s =
     (if thread_id \<ge> MAX_THREADS then (Inl HIC_ERROR_INVALID_PARAM, s)
      else if thr_state (k_threads s (unat thread_id)) \<noteq> THREAD_STATE_BLOCKED then (Inl HIC_ERROR_INVALID_STATE, s)
      else (Inr (), upd_thread (unat thread_id) (set_thread_state THREAD_STATE_READY) s))"

definition thread_ready :: "u32 \<Rightarrow> kernel_state \<Rightarrow> unit hic_result \<times> kernel_state" where
  "thread_ready thread_id s =
     (if thread_id \<ge> MAX_THREADS then (Inl HIC_ERROR_INVALID_PARAM, s)
      else (Inr (), upd_thread (unat thread_id) (set_thread_state THREAD_STATE_READY) s))"

definition scheduler_pick_next :: "kernel_state \<Rightarrow> u32 \<times> kernel_state" where
  "scheduler_pick_next s = (let (next, s1) = boot_pick_next s in (thr_id (thread_of next s1), s1))"

definition context_switch_to :: "u32 \<Rightarrow> cpu \<Rightarrow> kernel_state \<Rightarrow> cpu \<times> kernel_state" where
  "context_switch_to next_thread c s =
     (if next_thread \<ge> MAX_THREADS then (c, s)
      else let next = TSlot (unat next_thread); prev = k_current s;
               s1 = (if prev \<noteq> TNull \<and> thr_state (thread_of prev s) = THREAD_STATE_RUNNING
                     then upd_ptr prev (set_thread_state THREAD_STATE_READY) s else s);
               s2 = (upd_ptr next (set_thread_state THREAD_STATE_RUNNING) s1)\<lparr> k_current := next \<rparr>
      in context_switch prev next c s2)"

section \<open>The thread table\<close>

definition thread_system_init :: "u64 \<Rightarrow> u64 \<Rightarrow> kernel_state \<Rightarrow> kernel_state" where
  "thread_system_init idle_stack halt s =
     (let s1 = scheduler_init idle_stack halt
                 (s\<lparr> k_threads := (\<lambda>i. if i < unat MAX_THREADS then thread_zero else k_threads s i) \<rparr>)
      in s1\<lparr> k_idle := (k_idle s1)\<lparr> thr_id := 0xFFFFFFFF, thr_state := THREAD_STATE_READY,
               thr_priority := HIC_PRIORITY_IDLE, thr_last_run_time := 0, thr_time_slice := 0 \<rparr> \<rparr>)"

text \<open>What \<open>thread_exit_handler\<close> does before it halts.\<close>

definition thread_exit_handler :: "cpu \<Rightarrow> kernel_state \<Rightarrow> cpu \<times> kernel_state" where
  "thread_exit_handler c s =
     snd (schedule c (if k_current s \<noteq> TNull \<and> k_current s \<noteq> TIdle
                      then upd_ptr (k_current s) (set_thread_state THREAD_STATE_TERMINATED) s else s))"

definition thread_is_active :: "u32 \<Rightarrow> kernel_state \<Rightarrow> bool" where
  "thread_is_active thread s \<longleftrightarrow> \<not> thread \<ge> MAX_THREADS \<and>
     thr_state (k_threads s (unat thread)) \<in>
       {THREAD_STATE_READY, THREAD_STATE_RUNNING, THREAD_STATE_BLOCKED, THREAD_STATE_WAITING}"

definition get_thread_wait_time :: "u32 \<Rightarrow> kernel_state \<Rightarrow> u64" where
  "get_thread_wait_time thread s = 0"


definition get_thread_wait_resource :: "u32 \<Rightarrow> kernel_state \<Rightarrow> u32" where
  "get_thread_wait_resource thread s =
     (if thread \<ge> MAX_THREADS then INVALID_CAP_ID
      else if thr_wait_data (k_threads s (unat thread)) \<noteq> 0
      then ucast (thr_wait_data (k_threads s (unat thread)))
      else INVALID_CAP_ID)"

definition thread_terminate :: "u32 \<Rightarrow> kernel_state \<Rightarrow> unit hic_result \<times> kernel_state" where
  "thread_terminate thread_id s =
     (if thread_id \<ge> MAX_THREADS then (Inl HIC_ERROR_INVALID_PARAM, s)
      else let i = unat thread_id;
               s1 = upd_thread i (set_thread_state THREAD_STATE_TERMINATED) s;
               s2 = (let t = k_threads s1 i in if thr_prev t \<noteq> TNull
                     then upd_ptr (thr_prev t) (\<lambda>x. x\<lparr> thr_next := thr_next t \<rparr>) s1 else s1);
               s3 = (let t = k_threads s2 i in if thr_next t \<noteq> TNull
                     then upd_ptr (thr_next t) (\<lambda>x. x\<lparr> thr_prev := thr_prev t \<rparr>) s2 else s2);
               s4 = (if k_current s3 = TSlot i then s3\<lparr> k_current := TNull \<rparr> else s3);
               t = k_threads s4 i
      in (Inr (), if thr_stack_base t \<noteq> 0
                  then upd_thread i (\<lambda>x. x\<lparr> thr_stack_base := 0, thr_stack_size := 0 \<rparr>)
                         (set_kpmm (snd (pmm_free_frames (thr_stack_base t) (size_to_frames (thr_stack_size t)) (kpmm s4))) s4)
                  else s4))"

text \<open>
  The search for a free slot: the first word of the bitmap that is not full, then its first clear
  bit, which is set.
\<close>

definition take_thread_slot :: "kernel_state \<Rightarrow> nat option \<times> kernel_state" where
  "take_thread_slot s =
     (case find_first (\<lambda>i. k_thread_bitmap s i \<noteq> 0xFFFFFFFFFFFFFFFF) 0 4 of
        None \<Rightarrow> (None, s)
      | Some i \<Rightarrow>
          (case find_first (\<lambda>j. k_thread_bitmap s i AND push_bit j 1 = 0) 0 64 of
             None \<Rightarrow> (None, s)
           | Some j \<Rightarrow> (Some (i * 64 + j),
               s\<lparr> k_thread_bitmap := (k_thread_bitmap s)(i := k_thread_bitmap s i OR push_bit j 1) \<rparr>)))"

text \<open>The mapping of the stack into the page table of the domain; its status is ignored.\<close>

definition map_stack :: "u32 \<Rightarrow> u64 \<Rightarrow> kernel_state \<Rightarrow> kernel_state" where
  "map_stack d stack s =
     (let pt = domain_switch_get_pagetable d (k_pg s)
      in if pt = 0 then s
         else put_paging (snd (pagetable_map pt stack stack (2 * PAGE_SIZE) PERM_RW MAP_TYPE_USER (kpaging s))) s)"

text \<open>The words put on a new stack and the stack pointer that is left.\<close>

definition init_stack :: "u64 \<Rightarrow> u64 \<Rightarrow> u64 \<Rightarrow> kernel_state \<Rightarrow> u64 \<times> kernel_state" where
  "init_stack exit_handler entry stack s =
     (let (sp, s1) = push_word entry (push_word exit_handler (stack + 2 * PAGE_SIZE, s))
      in (sp - 48, s1))"

definition new_thread :: "nat \<Rightarrow> u32 \<Rightarrow> u8 \<Rightarrow> u32 \<Rightarrow> u64 \<Rightarrow> u64 \<Rightarrow> thread" where
  "new_thread slot d prio lcore stack sp =
     thread_zero\<lparr> thr_id := of_nat slot, thr_domain := d, thr_state := THREAD_STATE_READY,
       thr_priority := prio, thr_lcore := lcore, thr_affinity := 0xFFFFFFFF, thr_flags := THREAD_FLAG_BOUND,
       thr_stack_base := stack, thr_stack_size := 2 * PAGE_SIZE, thr_last_run_time := 0,
       thr_cpu_time_used := 0, thr_time_slice := 100, thr_wait_flags := 0, thr_stack_ptr := sp \<rparr>"


definition upd_lcore :: "nat \<Rightarrow> (logical_core \<Rightarrow> logical_core) \<Rightarrow> kernel_state \<Rightarrow> kernel_state" where
  "upd_lcore i f s = s\<lparr> k_lcores := (k_lcores s)(i := f (k_lcores s i)) \<rparr>"

text \<open>\<open>exit_handler\<close> is the address of \<open>thread_exit_handler\<close>.\<close>

definition thread_create_bound ::
    "u64 \<Rightarrow> u32 \<Rightarrow> u32 \<Rightarrow> u64 \<Rightarrow> u8 \<Rightarrow> bool \<Rightarrow> kernel_state \<Rightarrow> u32 hic_result \<times> kernel_state" where
  "thread_create_bound exit_handler d lcore entry prio out_ok s =
     (if \<not> out_ok \<or> d \<ge> HIC_DOMAIN_MAX then (Inl HIC_ERROR_INVALID_PARAM, s)
      else if lcore \<ge> MAX_LOGICAL_CORES then (Inl HIC_ERROR_INVALID_PARAM, s)
      else if lc_owner_domain (k_lcores s (unat lcore)) \<noteq> d then (Inl HIC_ERROR_PERMISSION_DENIED, s)
      else if lc_state (k_lcores s (unat lcore)) \<noteq> LOGICAL_CORE_STATE_ALLOCATED \<and>
              lc_state (k_lcores s (unat lcore)) \<noteq> LOGICAL_CORE_STATE_ACTIVE then (Inl HIC_ERROR_INVALID_STATE, s)
      else case take_thread_slot s of
        (None, s1) \<Rightarrow> (Inl HIC_ERROR_NO_RESOURCE, s1)
      | (Some slot, s1) \<Rightarrow>
          (case pmm_alloc_frames 2 True (kpmm s1) of
             (Inl _, p) \<Rightarrow> (Inl HIC_ERROR_NO_RESOURCE, set_kpmm p s1)
           | (Inr stack, p) \<Rightarrow>
               let s2 = map_stack d stack (set_kpmm p s1);
                   (sp, s3) = init_stack exit_handler entry stack s2;
                   s4 = upd_thread slot (\<lambda>_. new_thread slot d prio lcore stack sp) s3;
                   s5 = upd_lcore (unat lcore) (\<lambda>x. if lc_running_thread x = INVALID_THREAD
                          then x\<lparr> lc_running_thread := of_nat slot \<rparr> else x) s4;
                   s6 = upd_lcore (unat lcore) (\<lambda>x. if lc_state x = LOGICAL_CORE_STATE_ALLOCATED
                          then x\<lparr> lc_state := LOGICAL_CORE_STATE_ACTIVE \<rparr> else x) s5
               in (Inr (of_nat slot), snd (thread_ready (of_nat slot) s6))))"

definition thread_bind_to_core :: "u32 \<Rightarrow> u32 \<Rightarrow> kernel_state \<Rightarrow> unit hic_result \<times> kernel_state" where
  "thread_bind_to_core thread_id lcore s =
     (if thread_id \<ge> MAX_THREADS then (Inl HIC_ERROR_INVALID_PARAM, s)
      else if lcore \<ge> MAX_LOGICAL_CORES then (Inl HIC_ERROR_INVALID_PARAM, s)
      else if lc_owner_domain (k_lcores s (unat lcore)) \<noteq> thr_domain (k_threads s (unat thread_id))
      then (Inl HIC_ERROR_PERMISSION_DENIED, s)
      else (Inr (), upd_thread (unat thread_id)
              (\<lambda>t. t\<lparr> thr_lcore := lcore, thr_flags := thr_flags t OR THREAD_FLAG_BOUND \<rparr>) s))"

definition thread_migrate :: "u32 \<Rightarrow> u32 \<Rightarrow> kernel_state \<Rightarrow> unit hic_result \<times> kernel_state" where
  "thread_migrate thread_id lcore s =
     (if thread_id \<ge> MAX_THREADS then (Inl HIC_ERROR_INVALID_PARAM, s)
      else if lcore \<ge> MAX_LOGICAL_CORES then (Inl HIC_ERROR_INVALID_PARAM, s)
      else let t = k_threads s (unat thread_id); core = k_lcores s (unat lcore)
      in if lc_owner_domain core \<noteq> thr_domain t then (Inl HIC_ERROR_PERMISSION_DENIED, s)
      else if lc_state core \<noteq> LOGICAL_CORE_STATE_ALLOCATED \<and> lc_state core \<noteq> LOGICAL_CORE_STATE_ACTIVE
      then (Inl HIC_ERROR_INVALID_STATE, s)
      else if thr_state t = THREAD_STATE_RUNNING then (Inl HIC_ERROR_INVALID_STATE, s)
      else let s1 = upd_thread (unat thread_id)
                      (\<lambda>t. t\<lparr> thr_lcore := lcore, thr_flags := thr_flags t OR THREAD_FLAG_BOUND \<rparr>) s;
               s2 = upd_lcore (unat lcore) (\<lambda>x. if lc_state x = LOGICAL_CORE_STATE_ALLOCATED
                      then x\<lparr> lc_state := LOGICAL_CORE_STATE_ACTIVE \<rparr> else x) s1
      in (Inr (), if thr_state (k_threads s2 (unat thread_id)) = THREAD_STATE_READY
                  then snd (thread_ready thread_id s2) else s2))"

definition thread_get_bound_core :: "u32 \<Rightarrow> kernel_state \<Rightarrow> u32" where
  "thread_get_bound_core thread_id s =
     (if thread_id \<ge> MAX_THREADS then INVALID_LOGICAL_CORE else thr_lcore (k_threads s (unat thread_id)))"

definition thread_find_by_logical_core :: "u32 \<Rightarrow> kernel_state \<Rightarrow> u32" where
  "thread_find_by_logical_core lcore s =
     (case find_first (\<lambda>i. thr_domain (k_threads s i) \<noteq> HIC_INVALID_DOMAIN \<and>
             thr_state (k_threads s i) \<noteq> THREAD_STATE_TERMINATED \<and> thr_lcore (k_threads s i) = lcore)
             0 (unat MAX_THREADS) of
        None \<Rightarrow> INVALID_THREAD
      | Some i \<Rightarrow> of_nat i)"

end
