(* ===== verification/Hic_Ipc3.thy ===== *)
theory Hic_Ipc3
  imports Hic_Thread
begin

text \<open>
  IPC 3.0, \<^verbatim>\<open>Core-0/ipc3.c\<close>: services behind entry pages that check the caller against a bitmap
  and jump into the service, the page fault that completes the call, and the return. An entry page
  is memory in the common store, read and written byte by byte, so that what the code generator
  leaves in the page can be executed. The two assembly fragments of \<^verbatim>\<open>arch/x86_64/interrupts.S\<close>
  that load the page table and restore the caller are included. Console output and critical
  sections are left out.
\<close>

unbundle bit_operations_syntax

section \<open>Bytes\<close>

definition byte_index :: "u64 \<Rightarrow> nat" where
  "byte_index a = unat (a AND 7)"

definition load_byte :: "u64 \<Rightarrow> kernel_state \<Rightarrow> u8" where
  "load_byte a s = get_byte (byte_index a) (load_word a s)"

definition store_byte :: "u64 \<Rightarrow> u8 \<Rightarrow> kernel_state \<Rightarrow> kernel_state" where
  "store_byte a v s = store_word a (set_byte (byte_index a) v (load_word a s)) s"

primrec store_bytes :: "u64 \<Rightarrow> u8 list \<Rightarrow> kernel_state \<Rightarrow> kernel_state" where
  "store_bytes a [] s = s"
| "store_bytes a (v # vs) s = store_bytes (a + 1) vs (store_byte a v s)"

section \<open>State\<close>

definition IPC3_MAX_SERVICES :: u32 where [hic_consts]: "IPC3_MAX_SERVICES = 128"
definition IPC3_BITMAP_SIZE :: nat where "IPC3_BITMAP_SIZE = 32"
definition IPC3_CALL_STACK_DEPTH :: u32 where [hic_consts]: "IPC3_CALL_STACK_DEPTH = 16"

record ipc3_service =
  sv_entry_page_phys :: u64
  sv_entry_page_virt :: u64
  sv_business_addr :: u64
  sv_service_stack :: u64
  sv_owner :: u32
  sv_active :: bool
  sv_bitmap :: "nat \<Rightarrow> u8"

definition ipc3_service_zero :: ipc3_service where
  "ipc3_service_zero = \<lparr> sv_entry_page_phys = 0, sv_entry_page_virt = 0, sv_business_addr = 0,
     sv_service_stack = 0, sv_owner = 0, sv_active = False, sv_bitmap = (\<lambda>_. 0) \<rparr>"

record ipc3_saved_context =
  cx_r15 :: u64
  cx_r14 :: u64
  cx_r13 :: u64
  cx_r12 :: u64
  cx_r11 :: u64
  cx_r10 :: u64
  cx_r9 :: u64
  cx_r8 :: u64
  cx_rbp :: u64
  cx_rdi :: u64
  cx_rsi :: u64
  cx_rdx :: u64
  cx_rcx :: u64
  cx_rbx :: u64
  cx_rax :: u64
  cx_rip :: u64
  cx_cs :: u64
  cx_rflags :: u64
  cx_rsp :: u64
  cx_ss :: u64
  cx_cr3 :: u64
  cx_domain :: u32

definition saved_context_zero :: ipc3_saved_context where
  "saved_context_zero = \<lparr> cx_r15 = 0, cx_r14 = 0, cx_r13 = 0, cx_r12 = 0, cx_r11 = 0, cx_r10 = 0,
     cx_r9 = 0, cx_r8 = 0, cx_rbp = 0, cx_rdi = 0, cx_rsi = 0, cx_rdx = 0, cx_rcx = 0, cx_rbx = 0,
     cx_rax = 0, cx_rip = 0, cx_cs = 0, cx_rflags = 0, cx_rsp = 0, cx_ss = 0, cx_cr3 = 0, cx_domain = 0 \<rparr>"

text \<open>
  \<open>i3_slots\<close> and \<open>i3_top\<close> are the call stack, \<open>i3_return_ctx\<close> the slot that \<open>g_ipc3_return_ctx\<close>
  points to. The domain data page is at the physical address \<open>k_domain_data_phys\<close>.
\<close>

record ipc3_state =
  i3_k :: kernel_state
  i3_services :: "nat \<Rightarrow> ipc3_service"
  i3_service_count :: u32
  i3_slots :: "nat \<Rightarrow> ipc3_saved_context"
  i3_top :: u32
  i3_pending_cr3 :: u64
  i3_return_ctx :: "nat option"
  i3_initialized :: bool

definition upd_k :: "(kernel_state \<Rightarrow> kernel_state) \<Rightarrow> ipc3_state \<Rightarrow> ipc3_state" where
  "upd_k f s = s\<lparr> i3_k := f (i3_k s) \<rparr>"

definition upd_service :: "nat \<Rightarrow> (ipc3_service \<Rightarrow> ipc3_service) \<Rightarrow> ipc3_state \<Rightarrow> ipc3_state" where
  "upd_service i f s = s\<lparr> i3_services := (i3_services s)(i := f (i3_services s i)) \<rparr>"

section \<open>Entry pages\<close>

definition ENTRY_BITMAP_OFFSET :: u64 where "ENTRY_BITMAP_OFFSET = 0x00"
definition ENTRY_BUSADDR_OFFSET :: u64 where "ENTRY_BUSADDR_OFFSET = 0x20"
definition ENTRY_CODE_OFFSET :: u64 where "ENTRY_CODE_OFFSET = 0x28"

definition entry_code :: "u8 list" where
  "entry_code =
     [0x48, 0xB8, 0x00, 0xF0, 0xFF, 0xFF, 0x00, 0x00, 0x00, 0x00,
      0x8B, 0x08,
      0x0F, 0xA3, 0x0D, 0xC5, 0xFF, 0xFF, 0xFF,
      0x73, 0x05,
      0xFF, 0x25, 0xDD, 0xFF, 0xFF, 0xFF,
      0xFA, 0xF4, 0xEB, 0xFD]"

text \<open>
  The loop \<^verbatim>\<open>for (i = 0x28 + 31; i < 4096; i += 2)\<close> runs 2013 times; round \<open>k\<close> writes the two
  bytes from offset \<open>71 + 2 k\<close> on.
\<close>

definition fill_ud2 :: "u64 \<Rightarrow> nat \<Rightarrow> kernel_state \<Rightarrow> kernel_state" where
  "fill_ud2 page k s =
     store_byte (page + of_nat (71 + 2 * k + 1)) 0x0B (store_byte (page + of_nat (71 + 2 * k)) 0x0F s)"

definition build_entry_page :: "u64 \<Rightarrow> u64 \<Rightarrow> kernel_state \<Rightarrow> unit hic_result \<times> kernel_state" where
  "build_entry_page page business s =
     (if page = 0 then (Inl HIC_ERROR_INVALID_PARAM, s)
      else let s1 = store_bytes (page + ENTRY_CODE_OFFSET) entry_code s;
               s2 = for_range (fill_ud2 page) 0 2013 s1;
               s3 = store_bytes (page + ENTRY_BITMAP_OFFSET) (replicate IPC3_BITMAP_SIZE 0) s2;
               s4 = store_word (page + ENTRY_BUSADDR_OFFSET) business s3
      in (Inr (), s4))"

section \<open>Initialisation and services\<close>

definition set_current_domain :: "u32 \<Rightarrow> kernel_state \<Rightarrow> kernel_state" where
  "set_current_domain d s =
     store_word (k_domain_data_phys s) (set_lo32 d (load_word (k_domain_data_phys s) s)) s"

definition current_domain_id :: "kernel_state \<Rightarrow> u32" where
  "current_domain_id s = ucast (load_word (k_domain_data_phys s) s)"

definition ipc3_init :: "ipc3_state \<Rightarrow> ipc3_state" where
  "ipc3_init s =
     (case pmm_alloc_frames 1 True (kpmm (i3_k s)) of
        (Inl _, p) \<Rightarrow> upd_k (set_kpmm p) s
      | (Inr data_phys, p) \<Rightarrow>
          let s1 = upd_k (set_kpmm p) s;
              undo = (\<lambda>t. upd_k (\<lambda>k. set_kpmm (snd (pmm_free_frames data_phys 1 (kpmm k))) k) t);
              core_pt = domain_switch_get_pagetable HIC_DOMAIN_CORE (k_pg (i3_k s1))
          in if core_pt = 0 then undo s1
             else case pagetable_map core_pt IPC3_DOMAIN_DATA_VA data_phys IPC3_PAGE_SIZE PERM_READ MAP_TYPE_KERNEL
                         (kpaging (i3_k s1)) of
               (Inl _, g) \<Rightarrow> undo (upd_k (put_paging g) s1)
             | (Inr _, g) \<Rightarrow>
                 (upd_k (\<lambda>k. set_current_domain HIC_DOMAIN_CORE ((put_paging g k)\<lparr> k_domain_data_phys := data_phys \<rparr>)) s1)
                   \<lparr> i3_slots := (\<lambda>i. if i < unat IPC3_CALL_STACK_DEPTH then saved_context_zero else i3_slots s i),
                     i3_top := 0,
                     i3_services := (\<lambda>i. if i < unat IPC3_MAX_SERVICES then ipc3_service_zero else i3_services s i),
                     i3_service_count := 0, i3_pending_cr3 := 0, i3_return_ctx := None, i3_initialized := True \<rparr>)"

definition ipc3_register_service ::
    "u32 \<Rightarrow> u64 \<Rightarrow> u64 \<Rightarrow> ipc3_state \<Rightarrow> u32 hic_result \<times> ipc3_state" where
  "ipc3_register_service owner business_entry service_stack s =
     (if \<not> i3_initialized s then (Inl HIC_ERROR_INVALID_STATE, s)
      else if i3_service_count s \<ge> IPC3_MAX_SERVICES then (Inl HIC_ERROR_NO_RESOURCE, s)
      else let id = i3_service_count s
      in case pmm_alloc_frames 1 True (kpmm (i3_k s)) of
           (Inl e, p) \<Rightarrow> (Inl e, upd_k (set_kpmm p) s)
         | (Inr entry_phys, p) \<Rightarrow>
             let s1 = upd_k (set_kpmm p) s;
                 free = upd_k (\<lambda>k. set_kpmm (snd (pmm_free_frames entry_phys 1 (kpmm k))) k);
                 pt = domain_switch_get_pagetable HIC_DOMAIN_CORE (k_pg (i3_k s1))
             in if pt = 0 then (Inl HIC_ERROR_INVALID_STATE, free s1)
             else case pagetable_map pt entry_phys entry_phys IPC3_PAGE_SIZE PERM_RX MAP_TYPE_IDENTITY
                         (kpaging (i3_k s1)) of
               (Inl e, g) \<Rightarrow> (Inl e, free (upd_k (put_paging g) s1))
             | (Inr _, g) \<Rightarrow>
                 let s2 = upd_service (unat id) (\<lambda>v. v\<lparr> sv_entry_page_phys := entry_phys,
                            sv_entry_page_virt := entry_phys, sv_business_addr := business_entry,
                            sv_service_stack := service_stack, sv_owner := owner, sv_active := True,
                            sv_bitmap := (\<lambda>i. if i < IPC3_BITMAP_SIZE then 0 else sv_bitmap v i) \<rparr>)
                            (upd_k (put_paging g) s1)
                 in case build_entry_page entry_phys business_entry (i3_k s2) of
                      (Inl e, k) \<Rightarrow>
                        (Inl e, upd_service (unat id) (\<lambda>v. v\<lparr> sv_active := False \<rparr>)
                           (free (upd_k (\<lambda>k. put_paging (snd (pagetable_unmap pt entry_phys IPC3_PAGE_SIZE (kpaging k))) k)
                              (s2\<lparr> i3_k := k \<rparr>))))
                    | (Inr _, k) \<Rightarrow>
                        (Inr id, s2\<lparr> i3_k := k, i3_service_count := i3_service_count s2 + 1 \<rparr>))"

definition ipc3_unregister_service :: "u32 \<Rightarrow> ipc3_state \<Rightarrow> unit hic_result \<times> ipc3_state" where
  "ipc3_unregister_service service_id s =
     (if \<not> i3_initialized s then (Inl HIC_ERROR_INVALID_STATE, s)
      else if service_id \<ge> IPC3_MAX_SERVICES then (Inl HIC_ERROR_INVALID_PARAM, s)
      else let i = unat service_id; svc = i3_services s i
      in if \<not> sv_active svc then (Inl HIC_ERROR_INVALID_PARAM, s)
      else let pt = domain_switch_get_pagetable HIC_DOMAIN_CORE (k_pg (i3_k s));
               s1 = (if pt = 0 then s
                     else upd_k (\<lambda>k. put_paging (snd (pagetable_unmap pt (sv_entry_page_phys svc) IPC3_PAGE_SIZE (kpaging k))) k) s);
               s2 = upd_k (\<lambda>k. set_kpmm (snd (pmm_free_frames (sv_entry_page_phys svc) 1 (kpmm k))) k) s1
      in (Inr (), upd_service i (\<lambda>_. ipc3_service_zero) s2))"

section \<open>Authorization\<close>

definition ipc3_authorize :: "u32 \<Rightarrow> u32 \<Rightarrow> ipc3_state \<Rightarrow> unit hic_result \<times> ipc3_state" where
  "ipc3_authorize service_id domain s =
     (if \<not> i3_initialized s then (Inl HIC_ERROR_INVALID_STATE, s)
      else if service_id \<ge> IPC3_MAX_SERVICES then (Inl HIC_ERROR_INVALID_PARAM, s)
      else if domain \<ge> HIC_DOMAIN_MAX then (Inl HIC_ERROR_INVALID_PARAM, s)
      else let i = unat service_id; svc = i3_services s i
      in if \<not> sv_active svc then (Inl HIC_ERROR_INVALID_PARAM, s)
      else let byte_idx = unat domain div 8; bit_idx = unat domain mod 8;
               a = sv_entry_page_virt svc + ENTRY_BITMAP_OFFSET + of_nat byte_idx;
               s1 = upd_k (\<lambda>k. store_byte a (load_byte a k OR push_bit bit_idx 1) k) s
      in (Inr (), upd_service i (\<lambda>v. v\<lparr> sv_bitmap := (sv_bitmap v)(byte_idx :=
                    sv_bitmap v byte_idx OR push_bit bit_idx 1) \<rparr>) s1))"

definition ipc3_deauthorize :: "u32 \<Rightarrow> u32 \<Rightarrow> ipc3_state \<Rightarrow> unit hic_result \<times> ipc3_state" where
  "ipc3_deauthorize service_id domain s =
     (if \<not> i3_initialized s then (Inl HIC_ERROR_INVALID_STATE, s)
      else if service_id \<ge> IPC3_MAX_SERVICES then (Inl HIC_ERROR_INVALID_PARAM, s)
      else if domain \<ge> HIC_DOMAIN_MAX then (Inl HIC_ERROR_INVALID_PARAM, s)
      else let i = unat service_id; svc = i3_services s i
      in if \<not> sv_active svc then (Inl HIC_ERROR_INVALID_PARAM, s)
      else let byte_idx = unat domain div 8; bit_idx = unat domain mod 8;
               a = sv_entry_page_virt svc + ENTRY_BITMAP_OFFSET + of_nat byte_idx;
               s1 = upd_k (\<lambda>k. store_byte a (load_byte a k AND NOT (push_bit bit_idx 1)) k) s
      in (Inr (), upd_service i (\<lambda>v. v\<lparr> sv_bitmap := (sv_bitmap v)(byte_idx :=
                    sv_bitmap v byte_idx AND NOT (push_bit bit_idx 1)) \<rparr>) s1))"

definition ipc3_get_entry_va :: "u32 \<Rightarrow> ipc3_state \<Rightarrow> u64" where
  "ipc3_get_entry_va service_id s =
     (if service_id \<ge> IPC3_MAX_SERVICES then 0
      else let svc = i3_services s (unat service_id)
      in if \<not> sv_active svc then 0 else sv_entry_page_virt svc)"

section \<open>The call: page fault and return\<close>

text \<open>The registers saved on the interrupt stack, \<open>regs[0]\<close> to \<open>regs[21]\<close>.\<close>

type_synonym frame_regs = "nat \<Rightarrow> u64"

definition save_context :: "frame_regs \<Rightarrow> u64 \<Rightarrow> u32 \<Rightarrow> ipc3_saved_context" where
  "save_context regs cr3 d =
     \<lparr> cx_r15 = regs 0, cx_r14 = regs 1, cx_r13 = regs 2, cx_r12 = regs 3, cx_r11 = regs 4, cx_r10 = regs 5,
       cx_r9 = regs 6, cx_r8 = regs 7, cx_rbp = regs 8, cx_rdi = regs 9, cx_rsi = regs 10, cx_rdx = regs 11,
       cx_rcx = regs 12, cx_rbx = regs 13, cx_rax = regs 14, cx_rip = regs 17, cx_cs = regs 18,
       cx_rflags = regs 19, cx_rsp = regs 20, cx_ss = regs 21, cx_cr3 = cr3, cx_domain = d \<rparr>"

definition service_regs :: "u64 \<Rightarrow> u64 \<Rightarrow> u32 \<Rightarrow> frame_regs \<Rightarrow> frame_regs" where
  "service_regs business stack d regs =
     (\<lambda>i. if i = 9 then ucast d else if i < 15 then 0 else if i = 17 then business else if i = 20 then stack
          else if i = 18 then 0x08 else if i = 21 then 0x10 else if i = 19 then 0x202 else regs i)"

definition ipc3_handle_pf ::
    "u64 \<Rightarrow> u64 \<Rightarrow> frame_regs \<Rightarrow> ipc3_state \<Rightarrow> bool \<times> frame_regs \<times> ipc3_state" where
  "ipc3_handle_pf cr2 err_code regs s =
     (if \<not> i3_initialized s then (False, regs, s)
      else case find_first (\<lambda>i. sv_active (i3_services s i) \<and> sv_business_addr (i3_services s i) = cr2)
                  0 (unat (i3_service_count s)) of
        None \<Rightarrow> (False, regs, s)
      | Some i \<Rightarrow>
          let svc = i3_services s i; fault_rip = regs 17
          in if fault_rip < sv_entry_page_virt svc \<or> fault_rip \<ge> sv_entry_page_virt svc + IPC3_PAGE_SIZE
             then (False, regs, s)
          else let d = current_domain_id (i3_k s)
          in if d \<ge> HIC_DOMAIN_MAX then (False, regs, s)
          else if load_byte (sv_entry_page_virt svc + ENTRY_BITMAP_OFFSET + of_nat (unat d div 8)) (i3_k s)
                    AND push_bit (unat d mod 8) 1 = 0 then (False, regs, s)
          else if i3_top s \<ge> IPC3_CALL_STACK_DEPTH then (False, regs, s)
          else let ctx = save_context regs (domain_switch_get_pagetable d (k_pg (i3_k s))) d
          in (True, service_regs (sv_business_addr svc) (sv_service_stack svc) d regs,
              s\<lparr> i3_slots := (i3_slots s)(unat (i3_top s) := ctx), i3_top := i3_top s + 1,
                 i3_pending_cr3 := domain_switch_get_pagetable (sv_owner svc) (k_pg (i3_k s)) \<rparr>))"

text \<open>The end of \<open>isr_14_handler\<close> when the fault was handled: load the pending page table.\<close>

definition isr_14_handled :: "ipc3_state \<Rightarrow> ipc3_state" where
  "isr_14_handled s =
     (if i3_pending_cr3 s = 0 then s
      else (upd_k (\<lambda>k. k\<lparr> k_pg := (k_pg k)\<lparr> pg_cr3 := i3_pending_cr3 s \<rparr> \<rparr>) s)\<lparr> i3_pending_cr3 := 0 \<rparr>)"

text \<open>
  \<open>ipc3_return_asm\<close>: the general registers of the caller in the order of the interrupt frame, the
  stack pointer and the instruction pointer it continues with. The six registers that pass through
  the caller's stack are written below its stack pointer and popped again.
\<close>

definition ipc3_return_asm :: "ipc3_saved_context \<Rightarrow> ipc3_state \<Rightarrow> u64 list \<times> u64 \<times> u64 \<times> ipc3_state" where
  "ipc3_return_asm ctx s =
     (let s1 = upd_k (\<lambda>k. k\<lparr> k_pg := (k_pg k)\<lparr> pg_cr3 := cx_cr3 ctx \<rparr> \<rparr>) s;
          sp = cx_rsp ctx - 48;
          s2 = upd_k (\<lambda>k. store_word (sp + 40) (cx_rax ctx) (store_word (sp + 32) (cx_rbx ctx)
                 (store_word (sp + 24) (cx_rcx ctx) (store_word (sp + 16) (cx_rdx ctx)
                 (store_word (sp + 8) (cx_rsi ctx) (store_word sp (cx_rdi ctx) k)))))) s1;
          rd = (\<lambda>k. load_word (sp + k) (i3_k s2))
      in ([cx_r15 ctx, cx_r14 ctx, cx_r13 ctx, cx_r12 ctx, cx_r11 ctx, cx_r10 ctx, cx_r9 ctx, cx_r8 ctx,
           cx_rbp ctx, rd 0, rd 8, rd 16, rd 24, rd 32, rd 40], sp + 56, rd 48, s2))"

text \<open>\<open>None\<close> stands for the halt on an empty call stack.\<close>

definition ipc3_return :: "ipc3_state \<Rightarrow> (u64 list \<times> u64 \<times> u64 \<times> ipc3_state) option" where
  "ipc3_return s =
     (if i3_top s = 0 then None
      else let s1 = s\<lparr> i3_top := i3_top s - 1, i3_return_ctx := Some (unat (i3_top s - 1)) \<rparr>
      in Some (ipc3_return_asm (i3_slots s1 (unat (i3_top s1))) s1))"

section \<open>Execution of an entry page\<close>

text \<open>
  The instructions that the generated code uses, executed from the bytes of the page; offsets are
  relative to the page. \<open>data\<close> is what a 32-bit load through \<open>rax\<close> returns. An instruction outside
  this set is \<open>Undefined\<close>.
\<close>

datatype exec_result = Jump u64 | Undefined int

record exec_state =
  ex_ip :: int
  ex_rax :: u64
  ex_ecx :: u32
  ex_cf :: bool

definition page_le :: "(int \<Rightarrow> u8) \<Rightarrow> int \<Rightarrow> nat \<Rightarrow> u64" where
  "page_le pb i n = fold (\<lambda>k w. set_byte k (pb (i + int k)) w) [0..<n] 0"

definition exec_step ::
    "(u64 \<Rightarrow> u32) \<Rightarrow> (int \<Rightarrow> u8) \<Rightarrow> exec_state \<Rightarrow> exec_result + exec_state" where
  "exec_step data pb x =
     (let i = ex_ip x; b = (\<lambda>k. pb (i + k)); disp = (\<lambda>k. sint (ucast (page_le pb (i + k) 4) :: u32))
      in if b 0 = 0x48 \<and> b 1 = 0xB8 then Inr (x\<lparr> ex_ip := i + 10, ex_rax := page_le pb (i + 2) 8 \<rparr>)
         else if b 0 = 0x8B \<and> b 1 = 0x08 then Inr (x\<lparr> ex_ip := i + 2, ex_ecx := data (ex_rax x) \<rparr>)
         else if b 0 = 0x0F \<and> b 1 = 0xA3 \<and> b 2 = 0x0D
         then Inr (x\<lparr> ex_ip := i + 7,
                ex_cf := bit (pb (i + 7 + disp 3 + int (unat (ex_ecx x) div 8))) (unat (ex_ecx x) mod 8) \<rparr>)
         else if b 0 = 0x73
         then Inr (x\<lparr> ex_ip := (if ex_cf x then i + 2 else i + 2 + sint (b 1)) \<rparr>)
         else if b 0 = 0xFF \<and> b 1 = 0x25 then Inl (Jump (page_le pb (i + 6 + disp 2) 8))
         else Inl (Undefined i))"

primrec exec_run ::
    "nat \<Rightarrow> (u64 \<Rightarrow> u32) \<Rightarrow> (int \<Rightarrow> u8) \<Rightarrow> exec_state \<Rightarrow> exec_result option" where
  "exec_run 0 data pb x = None"
| "exec_run (Suc n) data pb x =
     (case exec_step data pb x of Inl r \<Rightarrow> Some r | Inr y \<Rightarrow> exec_run n data pb y)"

definition page_bytes :: "u64 \<Rightarrow> kernel_state \<Rightarrow> int \<Rightarrow> u8" where
  "page_bytes page s i = load_byte (page + of_int i) s"

definition run_entry_page :: "u64 \<Rightarrow> u32 \<Rightarrow> kernel_state \<Rightarrow> exec_result option" where
  "run_entry_page page d s =
     exec_run 5 (\<lambda>a. if a = IPC3_DOMAIN_DATA_VA then d else 0) (page_bytes page s)
       \<lparr> ex_ip = 0x28, ex_rax = 0, ex_ecx = 0, ex_cf = False \<rparr>"

end
