(* ===== verification/Hic_Domain_Props.thy ===== *)
theory Hic_Domain_Props
  imports Hic_Domain Hic_Cnode_Props
begin

text \<open>
  Properties of domains: what a failed creation leaves behind, the life cycle, quotas, the
  replacement of a running domain and the termination of a graceful shutdown.
\<close>

unbundle bit_operations_syntax

section \<open>What the operations leave alone\<close>

lemma ipc3_map_domain_data_doms [simp]: "k_doms (ipc3_map_domain_data d s) = k_doms s"
  by (simp add: ipc3_map_domain_data_def Let_def)

lemma build_page_table_others:
  assumes "domain_build_page_table type d img b sz s = (ok, s')" and "i \<noteq> d"
  shows "k_doms s' i = k_doms s i"
  using assms
  by (auto simp: domain_build_page_table_def Let_def split: prod.splits if_splits sum.splits)

lemma domain_create_others:
  assumes cr: "domain_create type parent q img s = (r, s')" and i: "domain_state (k_doms s i) \<noteq> DOMAIN_STATE_INIT"
  shows "k_doms s' i = k_doms s i"
proof (cases "find_first (\<lambda>i. domain_state (k_doms s i) = DOMAIN_STATE_INIT) 0 (unat MAX_DOMAINS)")
  case None
  then show ?thesis using cr by (simp add: domain_create_def)
next
  case (Some d)
  have "i \<noteq> d" using find_first_SomeD(3) [OF Some] i by auto
  let ?s0 = "upd_dom d (\<lambda>dom. dom\<lparr> cap_capacity := max_caps q \<rparr>) s"
  obtain ok s1 where sc: "domain_setup_cspace type d img ?s0 = (ok, s1)" by fastforce
  have s1: "k_doms s1 i = k_doms s i" using domain_setup_cspace_same(3) [OF sc \<open>i \<noteq> d\<close>] \<open>i \<noteq> d\<close> by simp
  show ?thesis
  proof (cases "ok \<and> type \<noteq> DOMAIN_TYPE_CORE")
    case False
    then show ?thesis
      using cr Some sc s1 \<open>i \<noteq> d\<close> by (auto simp: domain_create_def Let_def split: bool.splits if_splits)
  next
    case True
    obtain x p where al: "pmm_alloc_frames (size_to_frames (max_memory q)) True (kpmm s1) = (x, p)" by fastforce
    show ?thesis
    proof (cases x)
      case (Inl e)
      then show ?thesis using cr Some sc s1 True al by (auto simp: domain_create_def)
    next
      case (Inr b)
      let ?s2 = "domain_fill type parent q d b (max_memory q) (set_kpmm p s1)"
      obtain ok2 s2 where bp: "domain_build_page_table type d img b (max_memory q) ?s2 = (ok2, s2)" by fastforce
      have "k_doms s2 i = k_doms s i" using build_page_table_others [OF bp \<open>i \<noteq> d\<close>] s1 \<open>i \<noteq> d\<close> by simp
      then show ?thesis
        using cr Some sc True al Inr bp \<open>i \<noteq> d\<close>
        by (auto simp: domain_create_def Let_def kcap_set_privileged_def split: bool.splits if_splits)
    qed
  qed
qed

lemma domain_destroy_others:
  assumes "domain_destroy d s = (r, s')" and "i \<noteq> unat d"
  shows "k_doms s' i = k_doms s i"
  using assms by (auto simp: domain_destroy_def Let_def split: if_splits)

section \<open>The life cycle\<close>

definition keeps_terminated :: "kernel_state \<Rightarrow> kernel_state \<Rightarrow> bool" where
  "keeps_terminated s s' \<longleftrightarrow> (\<forall>i. domain_state (k_doms s i) = DOMAIN_STATE_TERMINATED \<longrightarrow>
     domain_state (k_doms s' i) = DOMAIN_STATE_TERMINATED)"

text \<open>
  The operations on domains. While a graceful shutdown waits, other operations may run; they are
  only assumed not to revive a terminated domain.
\<close>

inductive dom_step :: "kernel_state \<Rightarrow> kernel_state \<Rightarrow> bool" where
  create: "domain_create type parent q img s = (r, s') \<Longrightarrow> dom_step s s'"
| destroy: "domain_destroy d s = (r, s') \<Longrightarrow> dom_step s s'"
| suspend: "domain_suspend d s = (r, s') \<Longrightarrow> dom_step s s'"
| resume: "domain_resume d s = (r, s') \<Longrightarrow> dom_step s s'"
| consume: "domain_quota_consume d ty amount now s = (r, s') \<Longrightarrow> dom_step s s'"
| release: "dom_step s (domain_quota_release d ty amount s)"
| delegate: "domain_quota_delegate p c m t s = (r, s') \<Longrightarrow> dom_step s s'"
| emergency: "domain_trigger_emergency_action level ex s = (n, s') \<Longrightarrow> dom_step s s'"
| reclaim: "domain_atomic_resource_reclaim d s = (r, s') \<Longrightarrow> dom_step s s'"
| parallel: "domain_parallel_create d qo out_ok img s = (r, s') \<Longrightarrow> dom_step s s'"
| partner: "domain_set_parallel_partner a b s = (r, s') \<Longrightarrow> dom_step s s'"
| switch: "domain_atomic_switch a b s = (r, s') \<Longrightarrow> dom_step s s'"
| shutdown: "domain_graceful_shutdown fuel clock env start d timeout force s = Some (r, s') \<Longrightarrow>
    (\<And>n t. keeps_terminated t (env n t)) \<Longrightarrow> dom_step s s'"

lemma keeps_terminated_refl [simp]: "keeps_terminated s s"
  by (simp add: keeps_terminated_def)

lemma keeps_terminated_trans: "keeps_terminated s t \<Longrightarrow> keeps_terminated t u \<Longrightarrow> keeps_terminated s u"
  by (simp add: keeps_terminated_def)

lemma keeps_doms: "k_doms s' = k_doms s \<Longrightarrow> keeps_terminated s s'"
  by (simp add: keeps_terminated_def)

lemma keeps_upd:
  assumes "\<And>x. domain_state x = DOMAIN_STATE_TERMINATED \<Longrightarrow> domain_state (f x) = DOMAIN_STATE_TERMINATED"
  shows "keeps_terminated s (upd_dom d f s)"
  using assms by (simp add: keeps_terminated_def)

lemma for_range_upd_thread:
  "k_threads (for_range (\<lambda>i. upd_thread i (f i)) i n s) j =
     (if i \<le> j \<and> j < i + n then f j (k_threads s j) else k_threads s j)"
  "k_doms (for_range (\<lambda>i. upd_thread i (f i)) i n s) = k_doms s"
  by (induction n arbitrary: i s) (auto simp: Suc_le_eq order_le_less)

lemma keeps_create: "domain_create type parent q img s = (r, s') \<Longrightarrow> keeps_terminated s s'"
  using domain_create_others unfolding keeps_terminated_def by (metis domain_state.distinct(7))

lemma keeps_destroy:
  assumes "domain_destroy d s = (r, s')"
  shows "keeps_terminated s s'"
proof (cases "r")
  case (Inl e)
  then show ?thesis using assms by (auto simp: domain_destroy_def Let_def split: if_splits)
next
  case (Inr u)
  then have "domain_state (k_doms s' (unat d)) = DOMAIN_STATE_TERMINATED"
    using assms by (auto simp: domain_destroy_def Let_def split: if_splits)
  then show ?thesis using domain_destroy_others [OF assms] unfolding keeps_terminated_def by metis
qed

lemma keeps_suspend: "keeps_terminated s (snd (domain_suspend d s))"
  by (auto simp: domain_suspend_def keeps_terminated_def set_domain_state_def)

lemma keeps_wait:
  assumes "shutdown_wait fuel clock env d start timeout force n s = Some (go, s')"
    and "\<And>n t. keeps_terminated t (env n t)"
  shows "keeps_terminated s s'"
  using assms(1)
proof (induction fuel arbitrary: n s)
  case 0
  then show ?case by simp
next
  case (Suc fuel)
  then show ?case using assms(2) keeps_terminated_trans
    by (auto simp: Let_def split: if_splits) blast+
qed

lemma keeps_step:
  assumes "dom_step s s'"
  shows "keeps_terminated s s' \<or> (\<exists>d. s' = snd (domain_atomic_resource_reclaim d s))"
  using assms
proof cases
  case (create type parent q img r)
  then show ?thesis using keeps_create by blast
next
  case (destroy d r)
  then show ?thesis using keeps_destroy by blast
next
  case (suspend d r)
  then show ?thesis using keeps_suspend [of s d] by simp
next
  case (resume d r)
  then have "keeps_terminated s s'"
    by (auto simp: domain_resume_def keeps_terminated_def set_domain_state_def split: if_splits)
  then show ?thesis ..
next
  case (consume d ty amount now r)
  then have "keeps_terminated s s'" by (auto simp: domain_quota_consume_def intro: keeps_upd split: if_splits)
  then show ?thesis ..
next
  case (release d ty amount)
  then have "keeps_terminated s s'" by (auto simp: domain_quota_release_def intro: keeps_upd)
  then show ?thesis ..
next
  case (delegate p c m t r)
  then have "keeps_terminated s s'"
    by (auto simp: domain_quota_delegate_def keeps_terminated_def Let_def split: if_splits)
  then show ?thesis ..
next
  case (emergency level ex n)
  have one: "keeps_terminated (snd p) (snd (emergency_one level ex i p))" for i p
    using keeps_suspend by (cases p) (simp add: emergency_one_def Let_def)
  have "keeps_terminated s (snd (for_range (emergency_one level ex) 0 (unat MAX_DOMAINS) (0, s)))"
    by (rule for_range_invariant [where I = "\<lambda>p. keeps_terminated s (snd p)"])
       (simp, rule keeps_terminated_trans [OF _ one])
  then show ?thesis using emergency by (simp add: domain_trigger_emergency_action_def)
next
  case (reclaim d r)
  then show ?thesis by (intro disjI2 exI [of _ d]) simp
next
  case (parallel d qo out_ok img r)
  have "keeps_terminated s s'"
  proof (cases "domain_create (domain_type (k_doms s (unat d))) d
      (case qo of None \<Rightarrow> quota (k_doms s (unat d)) | Some q \<Rightarrow> q) img s")
    case (Pair x s1)
    have "keeps_terminated s s1" by (rule keeps_create [OF Pair])
    then show ?thesis
      using parallel Pair
      by (auto simp: domain_parallel_create_def Let_def keeps_terminated_def split: if_splits sum.splits)
  qed
  then show ?thesis ..
next
  case (partner a b r)
  then have "keeps_terminated s s'"
    by (auto simp: domain_set_parallel_partner_def intro: keeps_doms split: if_splits)
  then show ?thesis ..
next
  case (switch a b r)
  then have "keeps_terminated s s'"
    by (auto simp: domain_atomic_switch_def keeps_terminated_def Let_def for_range_upd_thread split: if_splits)
  then show ?thesis ..
next
  case (shutdown fuel clock env start d timeout force r)
  have "keeps_terminated s s'"
  proof (cases "d \<ge> MAX_DOMAINS \<or> (domain_state (k_doms s (unat d)) \<noteq> DOMAIN_STATE_RUNNING \<and>
      domain_state (k_doms s (unat d)) \<noteq> DOMAIN_STATE_SUSPENDED)")
    case True
    then show ?thesis using shutdown(1) by (auto simp: domain_graceful_shutdown_def Let_def split: if_splits)
  next
    case False
    define s2 where "s2 = upd_dom (unat d) (\<lambda>x. x\<lparr> domain_state := DOMAIN_STATE_SUSPENDED,
        dom_flags := dom_flags x OR DOMAIN_FLAG_OLD_INSTANCE \<rparr>)
        (for_range (\<lambda>i. upd_thread i (block_domain_thread d)) 0 (unat MAX_THREADS) s)"
    have k2: "keeps_terminated s s2"
      using False by (auto simp: s2_def keeps_terminated_def for_range_upd_thread)
    obtain go s3 where w: "shutdown_wait fuel clock env (unat d) start (ucast timeout * 1000000) force 0 s2 = Some (go, s3)"
      and e: "(r, s') = (if go then domain_destroy d s3 else (Inl HIC_ERROR_TIMEOUT, s3))"
      using shutdown(1) False
      by (auto simp: domain_graceful_shutdown_def Let_def s2_def split: option.splits)
    have "keeps_terminated s2 s3" by (rule keeps_wait [OF w shutdown(2)])
    moreover have "keeps_terminated s3 s'" using e keeps_destroy [of d s3 r s'] by (cases go) auto
    ultimately show ?thesis using k2 keeps_terminated_trans by blast
  qed
  then show ?thesis ..
qed


section \<open>Quotas\<close>

definition within_quota :: "domain \<Rightarrow> bool" where
  "within_quota x \<longleftrightarrow> (\<forall>ty \<in> {QUOTA_TYPE_MEMORY, QUOTA_TYPE_THREADS, QUOTA_TYPE_CAPABILITIES}. quota_used ty x \<le> quota_max ty x)"

datatype quota_request =
    Consume u32 quota_type u64 u64
  | Release u32 quota_type u64

fun run_request :: "quota_request \<Rightarrow> kernel_state \<Rightarrow> kernel_state" where
  "run_request (Consume d ty amount now) s = snd (domain_quota_consume d ty amount now s)"
| "run_request (Release d ty amount) s = domain_quota_release d ty amount s"

fun positive_request :: "quota_request \<Rightarrow> bool" where
  "positive_request (Consume d ty amount now) \<longleftrightarrow> amount > 0"
| "positive_request (Release d ty amount) \<longleftrightarrow> True"

lemma consume_accepted:
  "fst (domain_quota_consume d ty amount now s) = Inr () \<longleftrightarrow>
     d < MAX_DOMAINS \<and> amount \<le> quota_available ty (k_doms s (unat d))"
  by (auto simp: domain_quota_consume_def domain_quota_check_def Let_def not_le)

lemma quota_available_word:
  assumes "a \<le> quota_available ty x" and "quota_used ty x \<le> quota_max ty x"
  shows "unat (quota_used ty x) + unat a \<le> unat (quota_max ty x)"
proof -
  have "a \<le> quota_max ty x - quota_used ty x"
    using assms by (cases "quota_max ty x > quota_used ty x") (auto simp: quota_available_def)
  then show ?thesis using assms(2) by (simp add: word_le_nat_alt unat_sub)
qed

lemma unat_ucast_u64: "unat (ucast (a :: u32) :: u64) = unat a"
  by (simp add: unsigned_ucast_eq)

lemma ucast_le_u64: "(ucast (a :: u32) :: u64) \<le> ucast b \<longleftrightarrow> a \<le> b"
  by (simp add: word_le_nat_alt unat_ucast_u64)

lemma consume_usage_within:
  assumes w: "within_quota x" and a: "amount > 0" and le: "amount \<le> quota_available ty x"
  shows "within_quota (x\<lparr> usage := consume_usage ty amount now (usage x) \<rparr>)"
proof -
  have 1: "unat (quota_used ty x) + unat amount \<le> unat (quota_max ty x)" if "ty \<noteq> QUOTA_TYPE_CPU"
    using quota_available_word [OF le] w that by (cases ty) (simp_all add: within_quota_def)
  have p: "0 < unat amount" using a by (simp add: word_less_nat_alt)
  have s32: "u + 1 \<le> m" if "unat (u :: u32) + unat amount \<le> unat m" for u m :: u32
  proof -
    have "unat m < 2 ^ 32" using unsigned_less [of m] by simp
    then have "unat u + 1 < 2 ^ 32" using that p by linarith
    then have "unat (u + 1) = unat u + 1" using unat_add_lem [of u 1] by simp
    then show ?thesis using that p by (simp add: word_le_nat_alt)
  qed
  show ?thesis
  proof (cases ty)
    case QUOTA_TYPE_MEMORY
    have "unat (max_memory (quota x)) < 2 ^ 64" using unsigned_less [of "max_memory (quota x)"] by simp
    then have "unat (memory_used (usage x) + amount) = unat (memory_used (usage x)) + unat amount"
      using 1 QUOTA_TYPE_MEMORY unat_add_lem [of "memory_used (usage x)" amount] by simp
    then show ?thesis using w 1 QUOTA_TYPE_MEMORY by (simp add: within_quota_def Let_def word_le_nat_alt)
  next
    case QUOTA_TYPE_THREADS
    then show ?thesis using w 1 s32 by (simp add: within_quota_def ucast_le_u64 unat_ucast_u64)
  next
    case QUOTA_TYPE_CAPABILITIES
    then show ?thesis using w 1 s32 by (simp add: within_quota_def ucast_le_u64 unat_ucast_u64)
  next
    case QUOTA_TYPE_CPU
    then show ?thesis using w by (simp add: within_quota_def)
  qed
qed

lemma release_usage_within:
  assumes w: "within_quota x"
  shows "within_quota (x\<lparr> usage := release_usage ty amount (usage x) \<rparr>)"
proof -
  have m: "u - v \<le> m" if "u \<le> m" "v \<le> u" for u v m :: u64
    using that by (simp add: word_le_nat_alt unat_sub)
  have one: "u - 1 \<le> m" if "u \<le> m" "0 < u" for u m :: u32
  proof -
    have "1 \<le> u" using that(2) by (simp add: word_le_nat_alt word_less_nat_alt)
    then show ?thesis using that(1) by (simp add: word_le_nat_alt unat_sub)
  qed
  show ?thesis using w by (cases ty) (auto simp: within_quota_def ucast_le_u64 intro: m one)
qed

lemma request_within:
  assumes "\<And>i. within_quota (k_doms s i)" and "positive_request r"
  shows "within_quota (k_doms (run_request r s) i)"
proof (cases r)
  case (Consume d ty amount now)
  show ?thesis
  proof (cases "fst (domain_quota_consume d ty amount now s) = Inr ()")
    case True
    then show ?thesis
      using consume_usage_within [OF assms(1)] assms consume_accepted Consume
      by (auto simp: domain_quota_consume_def split: if_splits)
  next
    case False
    then show ?thesis using assms(1) Consume by (auto simp: domain_quota_consume_def split: if_splits)
  qed
next
  case (Release d ty amount)
  then show ?thesis using assms(1) release_usage_within by (simp add: domain_quota_release_def)
qed

lemma requests_within:
  assumes "\<And>i. within_quota (k_doms s i)" and "list_all positive_request rs"
  shows "within_quota (k_doms (fold run_request rs s) i)"
  using assms by (induction rs arbitrary: s) (simp_all add: request_within)

lemma reclaim_others:
  assumes "i \<noteq> unat d"
  shows "k_doms (snd (domain_atomic_resource_reclaim d s)) i = k_doms s i"
  using assms by (simp add: domain_atomic_resource_reclaim_def Let_def)

lemma for_range_upd_thread_rest:
  "kpaging (for_range (\<lambda>i. upd_thread i (f i)) i n s) = kpaging s"
  by (induction n arbitrary: i s) (simp_all add: kpaging_def)

lemma atomic_switch_state:
  assumes "domain_atomic_switch a b s = (Inr (), s')"
  shows "k_threads s' i = (if i < 256 then switch_thread a b i (k_threads s i) else k_threads s i)"
    and "a \<noteq> b \<Longrightarrow> k_doms s' (unat a) = (k_doms s (unat a))\<lparr>
           dom_flags := dom_flags (k_doms s (unat a)) OR (DOMAIN_FLAG_DRAINING OR DOMAIN_FLAG_OLD_INSTANCE),
           domain_state := DOMAIN_STATE_SUSPENDED \<rparr>"
    and "a \<noteq> b \<Longrightarrow> k_doms s' (unat b) = (k_doms s (unat b))\<lparr>
           dom_flags := (dom_flags (k_doms s (unat b)) AND NOT DOMAIN_FLAG_NEW_INSTANCE) OR DOMAIN_FLAG_PRIMARY \<rparr>"
    and "kpaging s' = kpaging s"
proof -
  define s1 where "s1 = upd_dom (unat a) (\<lambda>x. x\<lparr>
                 dom_flags := dom_flags x OR (DOMAIN_FLAG_DRAINING OR DOMAIN_FLAG_OLD_INSTANCE),
                 domain_state := DOMAIN_STATE_SUSPENDED \<rparr>) s"
  define s2 where "s2 = for_range (\<lambda>i. upd_thread i (switch_thread a b i)) 0 (unat MAX_THREADS) s1"
  have s': "s' = upd_dom (unat b) (\<lambda>x. x\<lparr>
            dom_flags := (dom_flags x AND NOT DOMAIN_FLAG_NEW_INSTANCE) OR DOMAIN_FLAG_PRIMARY \<rparr>) s2"
    using assms unfolding s2_def s1_def domain_atomic_switch_def Let_def
    by (simp split: if_splits)
  have n: "unat MAX_THREADS = 256" by (simp add: hic_consts)
  have ne: "a \<noteq> b \<Longrightarrow> unat a \<noteq> unat b" by (simp add: word_unat_eq_iff)
  show "k_threads s' i = (if i < 256 then switch_thread a b i (k_threads s i) else k_threads s i)"
    by (simp add: s' s2_def n for_range_upd_thread s1_def)
  show "a \<noteq> b \<Longrightarrow> k_doms s' (unat a) = (k_doms s (unat a))\<lparr>
           dom_flags := dom_flags (k_doms s (unat a)) OR (DOMAIN_FLAG_DRAINING OR DOMAIN_FLAG_OLD_INSTANCE),
           domain_state := DOMAIN_STATE_SUSPENDED \<rparr>"
    using ne by (simp add: s' s2_def for_range_upd_thread s1_def)
  show "a \<noteq> b \<Longrightarrow> k_doms s' (unat b) = (k_doms s (unat b))\<lparr>
           dom_flags := (dom_flags (k_doms s (unat b)) AND NOT DOMAIN_FLAG_NEW_INSTANCE) OR DOMAIN_FLAG_PRIMARY \<rparr>"
    using ne by (simp add: s' s2_def for_range_upd_thread s1_def)
  have "kpaging s1 = kpaging s" by (simp add: s1_def kpaging_def)
  then show "kpaging s' = kpaging s" using for_range_upd_thread_rest [of _ _ _ s1] by (simp add: s' s2_def kpaging_def)
qed

lemma word_or_keeps_bit: "(x OR y) AND z = 0 \<Longrightarrow> y AND z = (0 :: u32)"
  by (simp add: bit.conj_disj_distrib2 or_eq_0_iff)

section \<open>Termination of the wait\<close>

lemma shutdown_wait_returns:
  assumes "clock m - start \<ge> timeout" and "n \<le> m" and "m < n + fuel"
  shows "\<exists>go s'. shutdown_wait fuel clock env d start timeout force n s = Some (go, s') \<and> (force \<longrightarrow> go)"
  using assms
proof (induction fuel arbitrary: n s)
  case 0
  then show ?case by simp
next
  case (Suc fuel)
  show ?case
  proof (cases "m = n")
    case True
    then show ?thesis using Suc.prems(1) by (auto simp: Let_def)
  next
    case False
    then show ?thesis using Suc.IH [of "Suc n" "env n s"] Suc.prems by (auto simp: Let_def)
  qed
qed

lemma shutdown_returns:
  assumes "clock m - start \<ge> ucast timeout_ms * 1000000" and "m < fuel"
  shows "\<exists>r s'. domain_graceful_shutdown fuel clock env start d timeout_ms force s = Some (r, s') \<and>
     (r = Inl HIC_ERROR_TIMEOUT \<longrightarrow> \<not> force)"
proof (cases "d \<ge> MAX_DOMAINS \<or> (domain_state (k_doms s (unat d)) \<noteq> DOMAIN_STATE_RUNNING \<and>
      domain_state (k_doms s (unat d)) \<noteq> DOMAIN_STATE_SUSPENDED)")
  case True
  then show ?thesis by (auto simp: domain_graceful_shutdown_def Let_def)
next
  case False
  define s2 where "s2 = upd_dom (unat d) (\<lambda>x. x\<lparr> domain_state := DOMAIN_STATE_SUSPENDED,
        dom_flags := dom_flags x OR DOMAIN_FLAG_OLD_INSTANCE \<rparr>)
        (for_range (\<lambda>i. upd_thread i (block_domain_thread d)) 0 (unat MAX_THREADS) s)"
  obtain go s3 where w: "shutdown_wait fuel clock env (unat d) start (ucast timeout_ms * 1000000) force 0 s2 = Some (go, s3)"
    and g: "force \<longrightarrow> go"
    using shutdown_wait_returns [where clock = clock, OF assms(1), of 0 fuel env "unat d" force s2] assms(2) by auto
  have nt: "fst (domain_destroy d s3) \<noteq> Inl HIC_ERROR_TIMEOUT" by (simp add: domain_destroy_def Let_def)
  have e: "domain_graceful_shutdown fuel clock env start d timeout_ms force s =
      Some (if go then domain_destroy d s3 else (Inl HIC_ERROR_TIMEOUT, s3))"
    using False w by (auto simp: domain_graceful_shutdown_def Let_def s2_def)
  show ?thesis
  proof (cases go)
    case True
    then show ?thesis using e nt by (cases "domain_destroy d s3") auto
  next
    case False
    then show ?thesis using e g by auto
  qed
qed

section \<open>Properties\<close>

definition img_ex :: kernel_image where
  "img_ex = \<lparr> text_start = 0, text_end = 0, rodata_start = 0, rodata_end = 0, data_start = 0, data_end = 0,
     bss_start = 0, bss_end = 0, lbss_start = 0, lbss_end = 0, static_modules_text_start = 0,
     static_modules_text_end = 0, static_modules_data_start = 0, static_modules_data_end = 0,
     static_modules_bss_start = 0, static_modules_bss_end = 0, kernel_end = 0 \<rparr>"

definition ks_ex :: kernel_state where
  "ks_ex = \<lparr> k_doms = (\<lambda>_. domain_zero), k_domain_count = 0, k_partners = (\<lambda>_. 0), k_xs = xs_ex0, k_pg = pg_ex0,
     k_threads = (\<lambda>_. thread_zero), k_thread_bitmap = (\<lambda>_. 0), k_idle = thread_zero, k_current = TNull,
     k_last_scheduled = 0, k_lcores = (\<lambda>_. logical_core_zero), k_domain_data_phys = 0 \<rparr>"

definition quota_ex :: domain_quota where
  "quota_ex = \<lparr> max_memory = 0xF000, max_threads = 4, max_caps = 4, cpu_quota_percent = 10,
     memory_delegated = 0, threads_delegated = 0, caps_delegated = 0 \<rparr>"

lemma create_fails:
  assumes "find_first (\<lambda>i. domain_state (k_doms s i) = DOMAIN_STATE_INIT) 0 (unat MAX_DOMAINS) = Some d"
    and "domain_setup_cspace type d img (upd_dom d (\<lambda>dom. dom\<lparr> cap_capacity := max_caps q \<rparr>) s) = (True, s1)"
    and "type \<noteq> DOMAIN_TYPE_CORE" and "pmm_alloc_frames (size_to_frames (max_memory q)) True (kpmm s1) = (Inr a, p)"
    and "pmm_alloc_frames 1 True p = (Inl e, p')"
  shows "fst (domain_create type parent q img s) = Inl HIC_ERROR_NO_MEMORY"
proof -
  define s2 where "s2 = domain_fill type parent q d a (max_memory q) (set_kpmm p s1)"
  have "fst (pagetable_create (kpaging s2)) = 0"
    using assms(5) by (simp add: pagetable_create_def allocate_page_table_def s2_def)
  then have "\<not> fst (domain_build_page_table type d img a (max_memory q) s2)"
    by (cases "pagetable_create (kpaging s2)") (simp add: domain_build_page_table_def Let_def)
  then show ?thesis
    using assms by (auto simp: domain_create_def s2_def split: prod.splits bool.splits)
qed

lemma ks_ex_sel: "k_doms ks_ex i = domain_zero" "k_xs ks_ex = xs_ex0" "k_pg ks_ex = pg_ex0"
  by (simp_all add: ks_ex_def)

lemma ks_ex_pmm: "kpmm ks_ex = pmm_small"
proof -
  have "cs_pmm ex_mem = cs_pmm cap_zero_state" unfolding ex_mem_def ex_boot_def
    by (simp add: cap_create_memory_def cap_init_domain_key_def capability_system_init_def Let_def split: prod.splits option.splits if_splits)
  then show ?thesis by (simp add: kpmm_def ks_ex_def xs_ex0_def cap_zero_state_def)
qed

lemma cspace_init_ex: "fst (cspace_init 0 8 xs_ex0) = Inr ()"
proof -
  have "\<not> HIC_DOMAIN_MAX \<le> (0 :: u32)" by (simp add: word_le_nat_alt hic_consts)
  then show ?thesis
    by (simp add: cspace_init_def cnode_create_def cnode_alloc_def xs_ex0_alloc Let_def xs_ex0_sel ex_mem_free
        HIC_CAP_INVALID_def sizeof_cnode_def sizeof_cnode_slot_def CNODE_BLOCK_SIZE_def CNODE_POOL_SIZE_def)
qed

definition pmm_full :: pmm where
  "pmm_full = snd (pmm_alloc_frames 15 True pmm_small)"

lemma pmm_small_used: "frame_used pmm_small 0" and pmm_small_unused: "1 \<le> j \<Longrightarrow> j < 16 \<Longrightarrow> \<not> frame_used pmm_small j"
proof -
  show "frame_used pmm_small 0" by code_simp
  have "list_all (\<lambda>j. \<not> frame_used pmm_small j) [1..<16]" by code_simp
  then show "1 \<le> j \<Longrightarrow> j < 16 \<Longrightarrow> \<not> frame_used pmm_small j" by (simp add: list_all_iff)
qed

lemma pmm_full_alloc: "pmm_alloc_frames 15 True pmm_small = (Inr 0x1000, pmm_full)"
proof (cases "pmm_alloc_frames 15 True pmm_small")
  case (Pair r p)
  have run: "run_free (frame_used pmm_small) 1 15" using pmm_small_unused by (simp add: run_free_def)
  from Pair show ?thesis
  proof (cases rule: pmm_alloc_frames_cases)
    case full
    then show ?thesis using run pmm_small_usable by auto
  next
    case (ok start)
    have "\<not> 1 < start" using ok(6) run by auto
    moreover have "start \<noteq> 0" using ok(4) pmm_small_used by (auto simp: run_free_def)
    ultimately have "start = 1" by simp
    then show ?thesis using ok(3) Pair by (simp add: pmm_full_def hic_consts)
  qed simp
qed

lemma pmm_full_used: "j < 16 \<Longrightarrow> frame_used pmm_full j"
proof -
  assume "j < 16"
  then consider "j = 0" | "j \<in> frames_at 0x1000 15" by (cases j) (auto simp: frames_at_def hic_consts)
  then show ?thesis
    using pmm_alloc_frames_okD(5) [OF pmm_small_wf pmm_full_alloc] pmm_small_used by cases auto
qed

lemma pmm_full_no_more: "pmm_alloc_frames 1 True pmm_full = (Inl HIC_ERROR_NO_MEMORY, pmm_full)"
proof (cases "pmm_alloc_frames 1 True pmm_full")
  case (Pair r p)
  from Pair show ?thesis
  proof (cases rule: pmm_alloc_frames_cases)
    case (ok start)
    have "usable_max_frame pmm_full = usable_max_frame pmm_small"
      by (rule pmm_alloc_frames_okD(3) [OF pmm_small_wf pmm_full_alloc])
    then have "start < 16" using ok(5) pmm_small_usable by simp
    then have "frame_used pmm_full start" by (rule pmm_full_used)
    then show ?thesis using ok(4) by (auto simp: run_free_def)
  qed (use Pair in simp_all)
qed

lemma ks_ex_create: "fst (domain_create DOMAIN_TYPE_APPLICATION 0 quota_ex img_ex ks_ex) = Inl HIC_ERROR_NO_MEMORY"
proof -
  have ff: "find_first (\<lambda>i. domain_state (k_doms ks_ex i) = DOMAIN_STATE_INIT) 0 (unat MAX_DOMAINS) = Some 0"
    by (simp add: find_first_Some_iff ks_ex_sel domain_zero_def hic_consts)
  let ?s0 = "upd_dom 0 (\<lambda>dom. dom\<lparr> cap_capacity := max_caps quota_ex \<rparr>) ks_ex"
  obtain x where x: "cspace_init 0 8 xs_ex0 = (Inr (), x)" using cspace_init_ex by (cases "cspace_init 0 8 xs_ex0") auto
  obtain s1 where s1: "domain_setup_cspace DOMAIN_TYPE_APPLICATION 0 img_ex ?s0 = (True, s1)"
    using x by (simp add: domain_setup_cspace_def ks_ex_sel)
  have "kpmm s1 = pmm_small" using domain_setup_cspace_same(1) [OF s1] ks_ex_pmm by simp
  moreover have "size_to_frames (max_memory quota_ex) = 15" by (simp add: size_to_frames_def quota_ex_def hic_consts)
  ultimately show ?thesis using create_fails [OF ff s1 _ _ pmm_full_no_more] pmm_full_alloc by simp
qed

lemma ks_ex_forest: "pt_forest {} (kpaging ks_ex)"
proof -
  have "kpaging ks_ex = pg_ex0" using ks_ex_pmm by (simp add: kpaging_def ks_ex_def pg_ex0_def)
  then show ?thesis using reachable_forest [OF pg_ex0_reachable] by simp
qed

text \<open>
  C28. A creation that fails for want of memory is not undone. When the page table cannot be built
  the frames of the domain are released, but the control block stays filled in: the slot, unused
  before, is \<open>DOMAIN_STATE_READY\<close>, its \<open>phys_base\<close> and \<open>phys_size\<close> name frames that are free again
  and may be given to anyone, and \<open>domain_resume\<close> accepts the domain.
\<close>

theorem failed_create_leaves_domain:
  assumes "pt_forest R (kpaging s)" and "frame_busy (kpmm s) 0"
    and "domain_create type parent q img s = (Inl HIC_ERROR_NO_MEMORY, s')"
  shows "\<exists>d. d < MAX_DOMAINS \<and> domain_state (k_doms s (unat d)) = DOMAIN_STATE_INIT \<and>
     domain_state (k_doms s' (unat d)) = DOMAIN_STATE_READY \<and> phys_size (k_doms s' (unat d)) = max_memory q \<and>
     (\<forall>j. frame_busy (kpmm s') j \<longrightarrow> j \<notin> frames_at (phys_base (k_doms s' (unat d))) (size_to_frames (max_memory q))) \<and>
     fst (domain_resume d s') = Inr ()"
proof -
  from domain_create_no_memory [OF assms] obtain d where d: "d < 128" "domain_state (k_doms s d) = DOMAIN_STATE_INIT"
      "domain_state (k_doms s' d) = DOMAIN_STATE_READY" "phys_size (k_doms s' d) = max_memory q"
      "\<forall>j. j \<in> frames_at (phys_base (k_doms s' d)) (size_to_frames (max_memory q)) \<longrightarrow> \<not> frame_busy (kpmm s') j"
    by blast
  have u: "unat (of_nat d :: u32) = d" using d(1) by (simp add: unat_of_nat)
  then have lt: "(of_nat d :: u32) < MAX_DOMAINS" using d(1) by (simp add: word_less_nat_alt hic_consts)
  have "fst (domain_resume (of_nat d) s') = Inr ()" using lt d(3) u by (simp add: domain_resume_def)
  then show ?thesis using d lt u by (intro exI [of _ "of_nat d"]) auto
qed

theorem failed_create_leaves_domain_witness:
  "\<exists>d. d < MAX_DOMAINS \<and>
     fst (domain_resume d (snd (domain_create DOMAIN_TYPE_APPLICATION 0 quota_ex img_ex ks_ex))) = Inr ()"
proof -
  have "frame_busy (kpmm ks_ex) 0" unfolding ks_ex_pmm by code_simp
  moreover have "domain_create DOMAIN_TYPE_APPLICATION 0 quota_ex img_ex ks_ex =
      (Inl HIC_ERROR_NO_MEMORY, snd (domain_create DOMAIN_TYPE_APPLICATION 0 quota_ex img_ex ks_ex))"
    using ks_ex_create by (simp add: prod_eq_iff)
  ultimately show ?thesis using failed_create_leaves_domain [OF ks_ex_forest] by blast
qed

text \<open>
  C22. A terminated domain stays terminated under every operation on domains but one:
  \<open>domain_atomic_resource_reclaim\<close> applied to the domain itself suspends it whatever its state
  was, after which \<open>domain_resume\<close> makes it run again.
\<close>

theorem terminated_is_final_but_for_reclaim:
  assumes "d < MAX_DOMAINS" and "domain_state (k_doms s (unat d)) = DOMAIN_STATE_TERMINATED"
  shows "(\<forall>s'. dom_step s s' \<longrightarrow> domain_state (k_doms s' (unat d)) = DOMAIN_STATE_TERMINATED \<or>
             s' = snd (domain_atomic_resource_reclaim d s)) \<and>
         domain_state (k_doms (snd (domain_resume d (snd (domain_atomic_resource_reclaim d s)))) (unat d)) = DOMAIN_STATE_RUNNING"
proof (intro conjI allI impI)
  fix s'
  assume "dom_step s s'"
  then consider "keeps_terminated s s'" | d' where "s' = snd (domain_atomic_resource_reclaim d' s)"
    using keeps_step by blast
  then show "domain_state (k_doms s' (unat d)) = DOMAIN_STATE_TERMINATED \<or> s' = snd (domain_atomic_resource_reclaim d s)"
  proof cases
    case 1
    then show ?thesis using assms(2) by (simp add: keeps_terminated_def)
  next
    case 2
    then show ?thesis using assms(2) reclaim_others [of "unat d" d' s] by (cases "d' = d") (simp_all add: word_unat_eq_iff)
  qed
next
  show "domain_state (k_doms (snd (domain_resume d (snd (domain_atomic_resource_reclaim d s)))) (unat d)) = DOMAIN_STATE_RUNNING"
    using assms(1) by (cases "MAX_DOMAINS \<le> d") (simp_all add: domain_atomic_resource_reclaim_def domain_resume_def Let_def set_domain_state_def)
qed

definition ks_dead :: kernel_state where
  "ks_dead = upd_dom 3 (set_domain_state DOMAIN_STATE_TERMINATED) ks_ex"

theorem terminated_is_final_but_for_reclaim_witness:
  "domain_state (k_doms ks_dead 3) = DOMAIN_STATE_TERMINATED \<and>
   domain_state (k_doms (snd (domain_resume 3 (snd (domain_atomic_resource_reclaim 3 ks_dead)))) 3) = DOMAIN_STATE_RUNNING"
proof -
  have "(3 :: u32) < MAX_DOMAINS" by (simp add: word_less_nat_alt hic_consts)
  moreover have "domain_state (k_doms ks_dead (unat (3 :: u32))) = DOMAIN_STATE_TERMINATED"
    by (simp add: ks_dead_def set_domain_state_def)
  ultimately show ?thesis using terminated_is_final_but_for_reclaim [of 3 ks_dead] by simp
qed

text \<open>
  C20. Quotas hold. From a state in which every domain is within its memory, thread and capability
  quota, no sequence of calls of \<open>domain_quota_consume\<close> with positive amounts and of
  \<open>domain_quota_release\<close> takes a domain beyond one of them, and a call that asks for at most what is
  left is granted.
\<close>

theorem quota_never_exceeded:
  assumes "\<And>i. within_quota (k_doms s i)" and "list_all positive_request rs"
  shows "within_quota (k_doms (fold run_request rs s) i) \<and>
     (fst (domain_quota_consume d ty amount now (fold run_request rs s)) = Inr () \<longleftrightarrow>
        d < MAX_DOMAINS \<and> amount \<le> quota_available ty (k_doms (fold run_request rs s) (unat d)))"
  using requests_within [OF assms] consume_accepted by blast

theorem quota_never_exceeded_witness:
  "within_quota (k_doms (fold run_request [Consume 1 QUOTA_TYPE_MEMORY 7 0, Release 1 QUOTA_TYPE_MEMORY 2] ks_ex) 1)"
proof -
  have "within_quota (k_doms ks_ex i)" for i
    by (simp add: within_quota_def ks_ex_sel domain_zero_def)
  moreover have "list_all positive_request [Consume 1 QUOTA_TYPE_MEMORY 7 0, Release 1 QUOTA_TYPE_MEMORY 2]" by simp
  ultimately show ?thesis using quota_never_exceeded by blast
qed

text \<open>
  C21. A graceful shutdown ends, whatever the rest of the system does while it waits: once the
  clock has passed the deadline in some round, the call has returned by that round. It gives up
  with \<open>HIC_ERROR_TIMEOUT\<close> only when it was not asked to force the shutdown.
\<close>

theorem graceful_shutdown_returns:
  assumes "clock m - start \<ge> ucast timeout_ms * 1000000" and "m < fuel"
  shows "\<exists>r s'. domain_graceful_shutdown fuel clock env start d timeout_ms force s = Some (r, s') \<and>
     (r = Inl HIC_ERROR_TIMEOUT \<longrightarrow> \<not> force)"
  using shutdown_returns [of timeout_ms clock m start] assms by blast

theorem graceful_shutdown_returns_witness:
  "\<exists>r s'. domain_graceful_shutdown 10 (\<lambda>n. of_nat n * 1000000) (\<lambda>_ s. s) 0 0 5 True ks_ex = Some (r, s') \<and>
     r \<noteq> Inl HIC_ERROR_TIMEOUT"
proof -
  have "ucast (5 :: u32) * 1000000 \<le> (of_nat 5 * 1000000 - 0 :: u64)" by simp
  moreover have "(5 :: nat) < 10" by simp
  ultimately show ?thesis
    using graceful_shutdown_returns [of 5 "\<lambda>n. of_nat n * 1000000" 5 0 10 "\<lambda>_ s. s" 0 True ks_ex] by blast
qed

text \<open>
  C23. \<open>domain_atomic_switch\<close> hands over in one step. Afterwards no thread of the old domain is ready
  or running and every thread of the new domain that was blocked or waiting is ready with a full
  time slice; threads of other domains are untouched; the old domain is suspended and
  draining, the new one is marked primary; the memory of the system is not touched.
\<close>

theorem atomic_switch_hands_over:
  assumes "domain_atomic_switch a b s = (Inr (), s')" and "a \<noteq> b" and "i < 256" and "thr_id (k_threads s i) = of_nat i"
  shows "(thr_domain (k_threads s i) = a \<longrightarrow> thr_state (k_threads s' i) \<notin> {THREAD_STATE_READY, THREAD_STATE_RUNNING}) \<and>
     (thr_domain (k_threads s i) = b \<longrightarrow> thr_state (k_threads s' i) \<notin> {THREAD_STATE_BLOCKED, THREAD_STATE_WAITING}) \<and>
     (thr_domain (k_threads s i) \<notin> {a, b} \<longrightarrow> k_threads s' i = k_threads s i) \<and>
     domain_state (k_doms s' (unat a)) = DOMAIN_STATE_SUSPENDED \<and>
     domain_state (k_doms s' (unat b)) = domain_state (k_doms s (unat b)) \<and>
     dom_flags (k_doms s' (unat a)) AND DOMAIN_FLAG_DRAINING \<noteq> 0 \<and>
     dom_flags (k_doms s' (unat b)) AND DOMAIN_FLAG_PRIMARY \<noteq> 0 \<and> kpaging s' = kpaging s"
proof -
  note d = atomic_switch_state [OF assms(1)]
  have t: "k_threads s' i = switch_thread a b i (k_threads s i)" using d(1) assms(3) by simp
  have "dom_flags (k_doms s' (unat a)) AND DOMAIN_FLAG_DRAINING \<noteq> 0"
    using word_or_keeps_bit by (fastforce simp: d(2) [OF assms(2)] hic_consts)
  moreover have "dom_flags (k_doms s' (unat b)) AND DOMAIN_FLAG_PRIMARY \<noteq> 0"
    using word_or_keeps_bit by (fastforce simp: d(3) [OF assms(2)] hic_consts)
  moreover have "thr_domain (k_threads s i) = a \<Longrightarrow> thr_state (k_threads s' i) \<notin> {THREAD_STATE_READY, THREAD_STATE_RUNNING}"
    "thr_domain (k_threads s i) = b \<Longrightarrow> thr_state (k_threads s' i) \<notin> {THREAD_STATE_BLOCKED, THREAD_STATE_WAITING}"
    "thr_domain (k_threads s i) \<notin> {a, b} \<Longrightarrow> k_threads s' i = k_threads s i"
    using assms(2,4) by (auto simp: t switch_thread_def Let_def)
  ultimately show ?thesis using d(4) by (simp add: d(2,3) [OF assms(2)])
qed

definition ks_pair :: kernel_state where
  "ks_pair = upd_thread 0 (\<lambda>t. t\<lparr> thr_domain := 1 \<rparr>)
     (upd_dom 1 (set_domain_state DOMAIN_STATE_RUNNING) (upd_dom 2 (set_domain_state DOMAIN_STATE_RUNNING) ks_ex))"

theorem atomic_switch_hands_over_witness:
  "thr_state (k_threads ks_pair 0) = THREAD_STATE_READY \<and>
   thr_state (k_threads (snd (domain_atomic_switch 1 2 ks_pair)) 0) \<notin> {THREAD_STATE_READY, THREAD_STATE_RUNNING}"
proof -
  have "fst (domain_atomic_switch 1 2 ks_pair) = Inr ()"
    by (simp add: domain_atomic_switch_def Let_def ks_pair_def set_domain_state_def word_le_nat_alt hic_consts)
  then have sw: "domain_atomic_switch 1 2 ks_pair = (Inr (), snd (domain_atomic_switch 1 2 ks_pair))"
    by (simp add: prod_eq_iff)
  have t: "thr_id (k_threads ks_pair 0) = of_nat 0" "thr_domain (k_threads ks_pair 0) = 1"
    "thr_state (k_threads ks_pair 0) = THREAD_STATE_READY"
    by (simp_all add: ks_pair_def ks_ex_def thread_zero_def)
  have ne: "(1 :: u32) \<noteq> 2" by simp
  have "(0 :: nat) < 256" by simp
  from atomic_switch_hands_over [OF sw ne this t(1)] t(2,3) show ?thesis by blast
qed

end
