(* ===== verification/Hic_Thread_Props.thy ===== *)
theory Hic_Thread_Props
  imports Hic_Thread Hic_Domain_Props
begin

text \<open>
  Properties of threads and the boot scheduler: the shape of the thread table, at most one
  running thread, fairness of the round-robin scan, and the first dispatch of a new thread.
\<close>

unbundle bit_operations_syntax

section \<open>What a context switch leaves alone\<close>

lemma store_word_sel [simp]:
  "k_threads (store_word a v s) = k_threads s" "k_current (store_word a v s) = k_current s"
  "k_last_scheduled (store_word a v s) = k_last_scheduled s" "k_idle (store_word a v s) = k_idle s"
  by (simp_all add: store_word_def)

lemma push_words_sel [simp]:
  "k_threads (snd (fold push_word vs p)) = k_threads (snd p)"
  "k_current (snd (fold push_word vs p)) = k_current (snd p)"
  "k_last_scheduled (snd (fold push_word vs p)) = k_last_scheduled (snd p)"
  by (induction vs arbitrary: p) (auto simp: push_word_def split: prod.splits)

lemma upd_ptr_sel [simp]:
  "k_current (upd_ptr p f s) = k_current s" "k_last_scheduled (upd_ptr p f s) = k_last_scheduled s"
  "k_pg (upd_ptr p f s) = k_pg s"
  by (cases p; simp add: upd_thread_def)+

lemma upd_ptr_threads:
  "k_threads (upd_ptr p f s) i = (if p = TSlot i then f (k_threads s i) else k_threads s i)"
  by (cases p) auto

lemma load_page_table_sel [simp]:
  "k_threads (load_page_table d s) = k_threads s" "k_current (load_page_table d s) = k_current s"
  "k_last_scheduled (load_page_table d s) = k_last_scheduled s"
  "pg_mem (k_pg (load_page_table d s)) = pg_mem (k_pg s)"
  by (simp_all add: load_page_table_def Let_def)

definition same_core :: "thread \<Rightarrow> thread \<Rightarrow> bool" where
  "same_core t t' \<longleftrightarrow> thr_id t' = thr_id t \<and> thr_state t' = thr_state t \<and> thr_domain t' = thr_domain t"

lemma context_switch_sel [simp]:
  "k_current (snd (context_switch p n c s)) = k_current s"
  "k_last_scheduled (snd (context_switch p n c s)) = k_last_scheduled s"
  by (auto simp: context_switch_def Let_def split: prod.splits)
     (metis push_words_sel snd_conv)+

lemma context_switch_threads:
  "same_core (k_threads s i) (k_threads (snd (context_switch p n c s)) i)"
proof (cases "p = TNull")
  case False
  obtain sp t where e: "fold push_word (cpu_saved c) (cpu_rsp c, s) = (sp, t)" by fastforce
  have "k_threads t = k_threads s" using push_words_sel(1) [of "cpu_saved c" "(cpu_rsp c, s)"] by (simp add: e)
  then show ?thesis using False by (simp add: context_switch_def Let_def e upd_ptr_threads same_core_def)
qed (simp add: context_switch_def Let_def same_core_def)

section \<open>The thread table\<close>

definition threads_wf :: "kernel_state \<Rightarrow> bool" where
  "threads_wf s \<longleftrightarrow> unat (k_last_scheduled s) < 256 \<and> (\<forall>i. k_current s = TSlot i \<longrightarrow> i < 256) \<and>
     (\<forall>i < 256. thr_id (k_threads s i) \<in> {0, of_nat i})"

definition running_ok :: "kernel_state \<Rightarrow> bool" where
  "running_ok s \<longleftrightarrow> (\<forall>i. thr_state (k_threads s i) = THREAD_STATE_RUNNING \<longrightarrow> k_current s = TSlot i)"

definition thr_ok :: "kernel_state \<Rightarrow> bool" where
  "thr_ok s \<longleftrightarrow> threads_wf s \<and> running_ok s"

text \<open>A change that keeps the scheduler's variables and sets no thread running keeps both.\<close>

definition quiet :: "kernel_state \<Rightarrow> kernel_state \<Rightarrow> bool" where
  "quiet s s' \<longleftrightarrow> k_last_scheduled s' = k_last_scheduled s \<and> k_current s' = k_current s \<and>
     (\<forall>i. thr_id (k_threads s' i) \<in> {thr_id (k_threads s i), of_nat i} \<and>
          (thr_state (k_threads s' i) = THREAD_STATE_RUNNING \<longrightarrow> thr_state (k_threads s i) = THREAD_STATE_RUNNING))"

lemma quiet_refl [simp]: "quiet s s"
  by (simp add: quiet_def)

lemma quiet_trans: "quiet s t \<Longrightarrow> quiet t u \<Longrightarrow> quiet s u"
  unfolding quiet_def by (metis insertE insertI1 insertI2 singletonD)

lemma quiet_ok:
  assumes "quiet s s'" and "thr_ok s"
  shows "thr_ok s'"
proof -
  have "threads_wf s'" using assms unfolding quiet_def thr_ok_def threads_wf_def by (metis insertE insertI1 insertI2 singletonD)
  moreover have "running_ok s'" using assms by (auto simp: quiet_def thr_ok_def running_ok_def)
  ultimately show ?thesis by (simp add: thr_ok_def)
qed

lemma quiet_ptr:
  assumes "\<And>t. thr_id (f t) = thr_id t" and "\<And>t. thr_state (f t) = THREAD_STATE_RUNNING \<Longrightarrow> thr_state t = THREAD_STATE_RUNNING"
  shows "quiet s (upd_ptr p f s)"
  using assms by (auto simp: quiet_def upd_ptr_threads)

lemma quiet_upd:
  assumes "\<And>t. thr_id (f t) \<in> {thr_id t, of_nat i}" and "\<And>t. thr_state (f t) = THREAD_STATE_RUNNING \<Longrightarrow> thr_state t = THREAD_STATE_RUNNING"
  shows "quiet s (upd_thread i f s)"
  using assms by (auto simp: quiet_def upd_thread_def)

lemma quiet_rest:
  assumes "k_threads s' = k_threads s" "k_current s' = k_current s" "k_last_scheduled s' = k_last_scheduled s"
  shows "quiet s s'"
  using assms by (simp add: quiet_def)

lemma slot_eq: "unat ((l + of_nat k) mod MAX_THREADS) = (unat l + k) mod 256"
proof -
  have "unat (l + of_nat k) = (unat l + k) mod 2 ^ 32"
    by (simp add: unat_word_ariths unat_of_nat mod_simps)
  then show ?thesis by (simp add: unat_mod hic_consts mod_mod_cancel)
qed

text \<open>The distance of slot \<open>i\<close> from \<open>l\<close> in the order of the scan.\<close>

definition dist :: "nat \<Rightarrow> nat \<Rightarrow> nat" where
  "dist l i = (if l mod 256 < i then i - l mod 256 else i + 256 - l mod 256)"

lemma mod_256E:
  obtains q m where "l = 256 * q + m" and "m < (256 :: nat)" and "l mod 256 = m"
  by (rule that [of "l div 256" "l mod 256"]) simp_all

lemma mod_256_shift: "(256 * q + m) mod 256 = m" if "m < (256 :: nat)" for q m
  using that by simp

lemma dist_bounds:
  assumes "i < 256"
  shows "1 \<le> dist l i" and "dist l i \<le> 256"
proof -
  have "l mod 256 < 256" by simp
  then show "1 \<le> dist l i" "dist l i \<le> 256" using assms unfolding dist_def by (auto split: if_splits)
qed

lemma dist_slot:
  assumes "i < 256"
  shows "(l + dist l i) mod 256 = i"
proof -
  obtain q m where l: "l = 256 * q + m" "m < 256" "l mod 256 = m" by (rule mod_256E)
  have "l + dist l i = 256 * q + i \<or> l + dist l i = 256 * Suc q + i"
    using l assms unfolding dist_def by auto
  then show ?thesis using assms by (metis mod_256_shift)
qed

lemma dist_step:
  assumes "i < 256" and "1 \<le> k" and "k < dist l i"
  shows "dist ((l + k) mod 256) i + k = dist l i"
proof -
  obtain q m where l: "l = 256 * q + m" "m < 256" "l mod 256 = m" by (rule mod_256E)
  have k: "k < 256" using assms dist_bounds(2) [OF assms(1), of l] by simp
  show ?thesis
  proof (cases "m + k < 256")
    case True
    then have e: "(l + k) mod 256 = m + k" using l mod_256_shift [of "m + k" q] by (simp add: add.assoc)
    show ?thesis using True assms l(3) unfolding e dist_def by (auto split: if_splits)
  next
    case False
    have "l + k = 256 * Suc q + (m + k - 256)" using l False by simp
    moreover have lt: "m + k - 256 < 256" using k l(2) by simp
    ultimately have e: "(l + k) mod 256 = m + k - 256" by (metis mod_256_shift)
    show ?thesis using False lt assms l(2,3) unfolding e dist_def by (auto split: if_splits)
  qed
qed

lemma offset_to: "i < 256 \<Longrightarrow> \<exists>k. 1 \<le> k \<and> k < 1 + 256 \<and> (l + k) mod 256 = (i :: nat)"
  using dist_bounds [of i l] dist_slot [of i l] by (intro exI [of _ "dist l i"]) simp

lemma boot_pick_cases:
  obtains (idle) "boot_pick_next s = (TIdle, s)"
    and "\<And>i. i < 256 \<Longrightarrow> thr_id (k_threads s i) = of_nat i \<Longrightarrow> thr_state (k_threads s i) \<noteq> THREAD_STATE_READY"
  | (slot) k j where "boot_pick_next s = (TSlot j, s\<lparr> k_last_scheduled := of_nat j \<rparr>)"
      "1 \<le> k" "k \<le> 256" "j = (unat (k_last_scheduled s) + k) mod 256" "thr_id (k_threads s j) = of_nat j"
      "thr_state (k_threads s j) = THREAD_STATE_READY"
      "\<And>k' i. 1 \<le> k' \<Longrightarrow> k' < k \<Longrightarrow> i = (unat (k_last_scheduled s) + k') mod 256 \<Longrightarrow> thr_id (k_threads s i) = of_nat i \<Longrightarrow>
         thr_state (k_threads s i) \<noteq> THREAD_STATE_READY"
proof -
  let ?P = "\<lambda>k. thr_id (k_threads s ((unat (k_last_scheduled s) + k) mod 256)) = of_nat ((unat (k_last_scheduled s) + k) mod 256) \<and>
      thr_state (k_threads s ((unat (k_last_scheduled s) + k) mod 256)) = THREAD_STATE_READY"
  have e: "boot_pick_next s = (case find_first ?P 1 256 of None \<Rightarrow> (TIdle, s)
      | Some k \<Rightarrow> (TSlot ((unat (k_last_scheduled s) + k) mod 256), s\<lparr> k_last_scheduled := of_nat ((unat (k_last_scheduled s) + k) mod 256) \<rparr>))"
    unfolding boot_pick_next_def Let_def slot_eq by (simp add: hic_consts)
  show ?thesis
  proof (cases "find_first ?P 1 256")
    case None
    have "thr_state (k_threads s i) \<noteq> THREAD_STATE_READY" if "i < 256" "thr_id (k_threads s i) = of_nat i" for i
    proof -
      have "\<exists>k. 1 \<le> k \<and> k < 1 + 256 \<and> (unat (k_last_scheduled s) + k) mod 256 = i" by (rule offset_to [OF that(1)])
      then obtain k where k: "1 \<le> k" "k < 1 + 256" "(unat (k_last_scheduled s) + k) mod 256 = i" by blast
      then have "\<not> ?P k" using None unfolding find_first_None_iff by blast
      then show ?thesis using k(3) that(2) by simp
    qed
    then show ?thesis using e None idle by simp
  next
    case (Some k)
    note F = Some [unfolded find_first_Some_iff]
    show ?thesis
      by (rule slot [of "(unat (k_last_scheduled s) + k) mod 256" k]) (use e Some F in auto)
  qed
qed

section \<open>Steps\<close>

inductive thread_step :: "kernel_state \<Rightarrow> kernel_state \<Rightarrow> bool" where
  sched: "schedule c s = (p, c', s') \<Longrightarrow> thread_step s s'"
| yield: "thread_yield c s = (c', s') \<Longrightarrow> thread_step s s'"
| block: "thread_block t c s = (r, c', s') \<Longrightarrow> thread_step s s'"
| wakeup: "thread_wakeup t s = (r, s') \<Longrightarrow> thread_step s s'"
| ready: "thread_ready t s = (r, s') \<Longrightarrow> thread_step s s'"
| pick: "scheduler_pick_next s = (t, s') \<Longrightarrow> thread_step s s'"
| switch_to: "context_switch_to t c s = (c', s') \<Longrightarrow> thread_step s s'"
| exit: "thread_exit_handler c s = (c', s') \<Longrightarrow> thread_step s s'"
| terminate: "thread_terminate t s = (r, s') \<Longrightarrow> thread_step s s'"
| create: "thread_create_bound h d l e prio out_ok s = (r, s') \<Longrightarrow> thread_step s s'"
| bind: "thread_bind_to_core t l s = (r, s') \<Longrightarrow> thread_step s s'"
| migrate: "thread_migrate t l s = (r, s') \<Longrightarrow> thread_step s s'"
| switch_domain: "domain_atomic_switch a b s = (r, s') \<Longrightarrow> thread_step s s'"

inductive thread_reachable :: "kernel_state \<Rightarrow> bool" where
  start: "k_last_scheduled s = 0 \<Longrightarrow> (\<And>i. 256 \<le> i \<Longrightarrow> k_threads s i = thread_zero) \<Longrightarrow>
     thread_reachable (thread_system_init idle_stack halt s)"
| step: "thread_reachable s \<Longrightarrow> thread_step s s' \<Longrightarrow> thread_reachable s'"

lemma set_thread_state_sel [simp]:
  "thr_id (set_thread_state st t) = thr_id t" "thr_state (set_thread_state st t) = st"
  by (simp_all add: set_thread_state_def)

lemma quiet_ptr_state: "st \<noteq> THREAD_STATE_RUNNING \<Longrightarrow> quiet s (upd_ptr p (set_thread_state st) s)"
  by (rule quiet_ptr) simp_all

lemma quiet_thread_state: "st \<noteq> THREAD_STATE_RUNNING \<Longrightarrow> quiet s (upd_thread i (set_thread_state st) s)"
  using quiet_ptr_state [of st s "TSlot i"] by simp

lemma thr_ok_context_switch:
  assumes "thr_ok s"
  shows "thr_ok (snd (context_switch p n c s))"
  using context_switch_threads [of s _ p n c] assms
  by (intro quiet_ok [OF _ assms]) (simp add: quiet_def same_core_def)

text \<open>Making \<open>n\<close> the running thread once no other thread is marked running.\<close>

lemma thr_ok_run:
  assumes "thr_ok s" and "\<And>i. thr_state (k_threads s i) = THREAD_STATE_RUNNING \<Longrightarrow> n = TSlot i"
    and "\<And>i. n = TSlot i \<Longrightarrow> i < 256"
  shows "thr_ok ((upd_ptr n (set_thread_state THREAD_STATE_RUNNING) s)\<lparr> k_current := n \<rparr>)"
  using assms unfolding thr_ok_def threads_wf_def running_ok_def by (auto simp: upd_ptr_threads split: if_splits)

lemma stopped_prev:
  assumes "thr_ok s" and "k_current s' = k_current s"
    and "\<And>i. k_threads s' i = (if k_current s = TSlot i \<and> thr_state (k_threads s i) = THREAD_STATE_RUNNING
            then set_thread_state THREAD_STATE_READY (k_threads s i) else k_threads s i)"
  shows "thr_state (k_threads s' i) \<noteq> THREAD_STATE_RUNNING"
  using assms by (auto simp: thr_ok_def running_ok_def)

lemma boot_pick_ok:
  assumes "boot_pick_next s = (n, s1)" and "thr_ok s"
  shows "thr_ok s1" and "n = TSlot i \<Longrightarrow> i < 256" and "k_threads s1 = k_threads s" and "k_current s1 = k_current s"
    and "k_idle s1 = k_idle s"
proof -
  have "thr_ok s1 \<and> (\<forall>i. n = TSlot i \<longrightarrow> i < 256) \<and> k_threads s1 = k_threads s \<and> k_current s1 = k_current s \<and> k_idle s1 = k_idle s"
  proof (cases rule: boot_pick_cases [of s])
    case idle
    then show ?thesis using assms by auto
  next
    case (slot k j)
    have j: "j < 256" using slot(4) by simp
    then have "unat (of_nat j :: u32) = j" by (simp add: unat_of_nat)
    then have "thr_ok s1" using assms slot(1) j by (auto simp: thr_ok_def threads_wf_def running_ok_def)
    then show ?thesis using assms slot(1) j by auto
  qed
  then show "thr_ok s1" "n = TSlot i \<Longrightarrow> i < 256" "k_threads s1 = k_threads s" "k_current s1 = k_current s" "k_idle s1 = k_idle s"
    by blast+
qed

lemma thr_ok_schedule:
  assumes "thr_ok s"
  shows "thr_ok (snd (snd (schedule c s)))"
proof -
  obtain n s1 where b: "boot_pick_next s = (n, s1)" by fastforce
  note B = boot_pick_ok [OF b assms]
  define s2 where "s2 = (if k_current s \<noteq> TNull \<and> thr_state (thread_of (k_current s) s1) = THREAD_STATE_RUNNING \<and> k_current s \<noteq> TIdle
                     then upd_ptr (k_current s) (set_thread_state THREAD_STATE_READY) s1 else s1)"
  show ?thesis
  proof (cases "n = k_current s")
    case True
    then show ?thesis using B(1) by (simp add: schedule_def Let_def b)
  next
    case False
    have "thr_ok s2" unfolding s2_def using B(1) quiet_ok [OF quiet_ptr_state] by simp
    moreover have "thr_state (k_threads s2 i) \<noteq> THREAD_STATE_RUNNING" for i
    proof (rule stopped_prev [OF B(1)])
      show "k_current s2 = k_current s1" by (simp add: s2_def)
      show "k_threads s2 i = (if k_current s1 = TSlot i \<and> thr_state (k_threads s1 i) = THREAD_STATE_RUNNING
            then set_thread_state THREAD_STATE_READY (k_threads s1 i) else k_threads s1 i)" for i
        using B(4) by (cases "k_current s") (auto simp: s2_def)
    qed
    ultimately have "thr_ok ((upd_ptr n (set_thread_state THREAD_STATE_RUNNING) s2)\<lparr> k_current := n \<rparr>)"
      using B(2) by (intro thr_ok_run) auto
    then show ?thesis
      using False thr_ok_context_switch by (simp add: schedule_def Let_def b s2_def [symmetric] case_prod_beta)
  qed
qed

lemma thr_ok_switch_to:
  assumes "thr_ok s"
  shows "thr_ok (snd (context_switch_to t c s))"
proof (cases "t \<ge> MAX_THREADS")
  case True
  then show ?thesis using assms by (simp add: context_switch_to_def)
next
  case False
  then have t: "unat t < 256" by (simp add: word_le_nat_alt hic_consts)
  define s1 where "s1 = (if k_current s \<noteq> TNull \<and> thr_state (thread_of (k_current s) s) = THREAD_STATE_RUNNING
                     then upd_ptr (k_current s) (set_thread_state THREAD_STATE_READY) s else s)"
  have "thr_ok s1" unfolding s1_def using assms quiet_ok [OF quiet_ptr_state] by simp
  moreover have "thr_state (k_threads s1 i) \<noteq> THREAD_STATE_RUNNING" for i
  proof (rule stopped_prev [OF assms])
    show "k_current s1 = k_current s" by (simp add: s1_def)
    show "k_threads s1 i = (if k_current s = TSlot i \<and> thr_state (k_threads s i) = THREAD_STATE_RUNNING
            then set_thread_state THREAD_STATE_READY (k_threads s i) else k_threads s i)" for i
      by (cases "k_current s") (auto simp: s1_def)
  qed
  ultimately have "thr_ok ((upd_ptr (TSlot (unat t)) (set_thread_state THREAD_STATE_RUNNING) s1)\<lparr> k_current := TSlot (unat t) \<rparr>)"
    using t by (intro thr_ok_run) auto
  then show ?thesis
    using False thr_ok_context_switch by (simp add: context_switch_to_def Let_def s1_def [symmetric])
qed


lemma quiet_links:
  "quiet s (upd_ptr p (thr_next_update f) s)" "quiet s (upd_ptr p (thr_prev_update f) s)"
  by (rule quiet_ptr; simp)+

lemma quiet_terminate: "thr_ok s \<Longrightarrow> thr_ok (snd (thread_terminate t s))"
proof -
  assume ok: "thr_ok s"
  show ?thesis
  proof (cases "t \<ge> MAX_THREADS")
    case True
    then show ?thesis using ok by (simp add: thread_terminate_def)
  next
    case False
    define i where "i = unat t"
    define s1 where "s1 = upd_thread i (set_thread_state THREAD_STATE_TERMINATED) s"
    define s2 where "s2 = (let t = k_threads s1 i in if thr_prev t \<noteq> TNull
                     then upd_ptr (thr_prev t) (\<lambda>x. x\<lparr> thr_next := thr_next t \<rparr>) s1 else s1)"
    define s3 where "s3 = (let t = k_threads s2 i in if thr_next t \<noteq> TNull
                     then upd_ptr (thr_next t) (\<lambda>x. x\<lparr> thr_prev := thr_prev t \<rparr>) s2 else s2)"
    define s4 where "s4 = (if k_current s3 = TSlot i then s3\<lparr> k_current := TNull \<rparr> else s3)"
    define s5 where "s5 = (if thr_stack_base (k_threads s4 i) \<noteq> 0
                  then upd_thread i (\<lambda>x. x\<lparr> thr_stack_base := 0, thr_stack_size := 0 \<rparr>)
                         (set_kpmm (snd (pmm_free_frames (thr_stack_base (k_threads s4 i))
                            (size_to_frames (thr_stack_size (k_threads s4 i))) (kpmm s4))) s4)
                  else s4)"
    have e: "snd (thread_terminate t s) = s5"
      using False unfolding thread_terminate_def Let_def s5_def s4_def s3_def s2_def s1_def i_def by simp
    have "quiet s1 s2" by (simp add: s2_def Let_def quiet_links)
    moreover have "quiet s2 s3" unfolding s3_def by (simp add: Let_def quiet_links)
    ultimately have q: "quiet s1 s3" by (rule quiet_trans)
    have "quiet s s1" unfolding s1_def by (rule quiet_thread_state) simp
    then have ok3: "thr_ok s3" using quiet_ok [OF quiet_trans [OF _ q] ok] by simp
    have "thr_state (k_threads s1 i) = THREAD_STATE_TERMINATED" by (simp add: s1_def)
    then have "thr_state (k_threads s3 i) \<noteq> THREAD_STATE_RUNNING" using q unfolding quiet_def by (metis thread_state.distinct(13))
    then have ok4: "thr_ok s4"
      using ok3 unfolding s4_def thr_ok_def threads_wf_def running_ok_def by auto
    have "quiet s4 s5" unfolding s5_def
      by (auto simp: quiet_def set_kpmm_def upd_thread_def)
    then show ?thesis unfolding e using ok4 by (rule quiet_ok)
  qed
qed

lemma quiet_take_slot: "take_thread_slot s = (r, s1) \<Longrightarrow> quiet s s1 \<and> (\<forall>i. r = Some i \<longrightarrow> i < 256)"
  by (auto simp: take_thread_slot_def find_first_Some_iff intro!: quiet_rest split: option.splits)

lemma quiet_init_stack: "quiet s (snd (init_stack h e a s))"
  by (auto simp: init_stack_def push_word_def intro!: quiet_rest)

lemma quiet_create: "quiet s (snd (thread_create_bound h d l e prio out_ok s))"
proof -
  obtain r s1 where ts: "take_thread_slot s = (r, s1)" by fastforce
  obtain a p where al: "pmm_alloc_frames 2 True (kpmm s1) = (a, p)" by fastforce
  have q1: "quiet s s1" using quiet_take_slot [OF ts] by simp
  have q2: "quiet s (set_kpmm p s1)" by (rule quiet_trans [OF q1]) (simp add: quiet_rest set_kpmm_def)
  have main: "quiet s (snd (thread_ready (of_nat i) (upd_lcore j f (upd_lcore j g
      (upd_thread i (\<lambda>_. new_thread i d prio l stack sp) (snd (init_stack h e stack (map_stack d stack (set_kpmm p s1)))))))))"
    for i j f g stack sp
  proof -
    have q3: "quiet s (map_stack d stack (set_kpmm p s1))"
      by (rule quiet_trans [OF q2]) (simp add: map_stack_def Let_def quiet_rest set_kpmm_def put_paging_def)
    have q4: "quiet s (snd (init_stack h e stack (map_stack d stack (set_kpmm p s1))))"
      by (rule quiet_trans [OF q3 quiet_init_stack])
    have q5: "quiet s (upd_thread i (\<lambda>_. new_thread i d prio l stack sp) (snd (init_stack h e stack (map_stack d stack (set_kpmm p s1)))))"
      by (rule quiet_trans [OF q4 quiet_upd]) (simp_all add: new_thread_def)
    have q6: "quiet s (upd_lcore j f (upd_lcore j g (upd_thread i (\<lambda>_. new_thread i d prio l stack sp)
        (snd (init_stack h e stack (map_stack d stack (set_kpmm p s1)))))))"
      by (rule quiet_trans [OF q5]) (simp add: quiet_rest upd_lcore_def)
    show ?thesis
      by (rule quiet_trans [OF q6]) (simp add: thread_ready_def quiet_thread_state)
  qed
  show ?thesis
    using q1 q2 main by (auto simp: thread_create_bound_def Let_def ts al case_prod_beta split: option.splits sum.splits)
qed

lemma for_range_upd_sched:
  "k_current (for_range (\<lambda>i. upd_thread i (f i)) i n s) = k_current s"
  "k_last_scheduled (for_range (\<lambda>i. upd_thread i (f i)) i n s) = k_last_scheduled s"
  by (induction n arbitrary: i s) (simp_all add: upd_thread_def)

lemma thr_ok_step:
  assumes "thread_step s s'" and "thr_ok s"
  shows "thr_ok s'"
  using assms
proof cases
  case (sched c p c')
  then show ?thesis using thr_ok_schedule [OF assms(2), of c] by simp
next
  case (yield c c')
  have "thr_ok (snd (thread_yield c s))"
    unfolding thread_yield_def using thr_ok_schedule quiet_ok [OF quiet_ptr_state] assms(2) by simp
  then show ?thesis using yield by simp
next
  case (block t c r c')
  then show ?thesis
    using thr_ok_schedule [OF quiet_ok [OF quiet_thread_state assms(2)]] quiet_ok [OF quiet_thread_state assms(2)] assms(2)
    by (auto simp: thread_block_def Let_def split: if_splits) (metis snd_conv thread_state.distinct)
next
  case (wakeup t r)
  then show ?thesis using quiet_ok [OF quiet_thread_state assms(2)] assms(2)
    by (auto simp: thread_wakeup_def split: if_splits)
next
  case (ready t r)
  then show ?thesis using quiet_ok [OF quiet_thread_state assms(2)] assms(2)
    by (auto simp: thread_ready_def split: if_splits)
next
  case (pick t)
  then show ?thesis using boot_pick_ok(1) [OF _ assms(2)]
    by (auto simp: scheduler_pick_next_def split: prod.splits)
next
  case (switch_to t c c')
  then show ?thesis using thr_ok_switch_to [OF assms(2), of t c] by simp
next
  case (exit c c')
  have "thr_ok (snd (thread_exit_handler c s))"
    unfolding thread_exit_handler_def using thr_ok_schedule quiet_ok [OF quiet_ptr_state] assms(2) by simp
  then show ?thesis using exit by simp
next
  case (terminate t r)
  then show ?thesis using quiet_terminate [OF assms(2), of t] by simp
next
  case (create h d l e prio out_ok r)
  then show ?thesis using quiet_ok [OF quiet_create assms(2), of h d l e prio out_ok] by simp
next
  case (bind t l r)
  then have "quiet s s'" by (auto simp: thread_bind_to_core_def intro: quiet_upd split: if_splits)
  then show ?thesis using assms(2) by (rule quiet_ok)
next
  case (migrate t l r)
  let ?s1 = "upd_thread (unat t) (\<lambda>t. t\<lparr> thr_lcore := l, thr_flags := thr_flags t OR THREAD_FLAG_BOUND \<rparr>) s"
  let ?s2 = "upd_lcore (unat l) (\<lambda>x. if lc_state x = LOGICAL_CORE_STATE_ALLOCATED
      then x\<lparr> lc_state := LOGICAL_CORE_STATE_ACTIVE \<rparr> else x) ?s1"
  have "quiet s ?s1" by (rule quiet_upd) simp_all
  moreover have "quiet ?s1 ?s2" by (rule quiet_rest) (simp_all add: upd_lcore_def)
  ultimately have q: "quiet s ?s2" by (rule quiet_trans)
  have "quiet ?s2 (snd (thread_ready t ?s2))" by (simp add: thread_ready_def quiet_thread_state)
  then have "quiet s s'" using migrate q quiet_trans [OF q] by (auto simp: thread_migrate_def Let_def split: if_splits)
  then show ?thesis using assms(2) by (rule quiet_ok)
next
  case (switch_domain a b r)
  have "quiet s s'"
  proof (cases r)
    case (Inl e)
    then show ?thesis using switch_domain by (auto simp: domain_atomic_switch_def Let_def split: if_splits)
  next
    case (Inr u)
    then have t: "k_threads s' i = (if i < 256 then switch_thread a b i (k_threads s i) else k_threads s i)" for i
      using atomic_switch_state(1) [of a b s s'] switch_domain by simp
    have "k_current s' = k_current s" "k_last_scheduled s' = k_last_scheduled s"
      using switch_domain by (auto simp: domain_atomic_switch_def Let_def for_range_upd_sched upd_dom_def split: if_splits)
    moreover have "thr_id (switch_thread a b i x) = thr_id x"
      "thr_state (switch_thread a b i x) = THREAD_STATE_RUNNING \<Longrightarrow> thr_state x = THREAD_STATE_RUNNING" for i x
      by (auto simp: switch_thread_def Let_def split: if_splits)
    ultimately show ?thesis unfolding quiet_def t by auto
  qed
  then show ?thesis using assms(2) by (rule quiet_ok)
qed

lemma thr_ok_reachable: "thread_reachable s \<Longrightarrow> thr_ok s"
proof (induction rule: thread_reachable.induct)
  case (start s idle_stack halt)
  then show ?case
    by (auto simp: thread_system_init_def scheduler_init_def Let_def store_word_def thr_ok_def threads_wf_def
        running_ok_def thread_zero_def hic_consts split: if_splits)
next
  case (step s s')
  then show ?case using thr_ok_step by blast
qed

section \<open>Fairness\<close>

definition is_ready :: "nat \<Rightarrow> kernel_state \<Rightarrow> bool" where
  "is_ready i s \<longleftrightarrow> thr_id (k_threads s i) = of_nat i \<and> thr_state (k_threads s i) = THREAD_STATE_READY"

lemma schedule_picks:
  "fst (schedule c s) = fst (boot_pick_next s)"
  "k_last_scheduled (snd (snd (schedule c s))) = k_last_scheduled (snd (boot_pick_next s))"
  by (simp_all add: schedule_def Let_def case_prod_beta)

lemma pick_progress:
  assumes "i < 256" and "is_ready i s"
  shows "fst (boot_pick_next s) = TSlot i \<or>
     dist (unat (k_last_scheduled (snd (boot_pick_next s)))) i < dist (unat (k_last_scheduled s)) i"
proof (cases rule: boot_pick_cases [of s])
  case idle
  then show ?thesis using assms by (auto simp: is_ready_def)
next
  case (slot k j)
  let ?d = "dist (unat (k_last_scheduled s)) i"
  have "\<not> ?d < k"
    using slot(7) [of ?d i] dist_bounds(1) [OF assms(1)] dist_slot [OF assms(1)] assms(2) by (auto simp: is_ready_def)
  moreover have "k = ?d \<Longrightarrow> j = i" using slot(4) dist_slot [OF assms(1)] by simp
  moreover have "k < ?d \<Longrightarrow> dist j i < ?d" using dist_step [OF assms(1) slot(2)] slot(2,4) by fastforce
  moreover have "unat (of_nat j :: u32) = j" using slot(4) by (simp add: unat_of_nat)
  ultimately show ?thesis using slot(1) by force
qed

lemma fair:
  assumes "i < 256" and "\<And>n. n < D \<Longrightarrow> is_ready i (run (m + n))"
    and "\<And>n. k_last_scheduled (run (Suc n)) = k_last_scheduled (snd (snd (schedule (c n) (run n))))"
    and "dist (unat (k_last_scheduled (run m))) i \<le> D"
  shows "\<exists>n < D. fst (schedule (c (m + n)) (run (m + n))) = TSlot i"
  using assms(2,4)
proof (induction D arbitrary: m)
  case 0
  then show ?case using dist_bounds(1) [OF assms(1)] by (metis not_one_le_zero le_trans)
next
  case (Suc D)
  have r: "is_ready i (run m)" using Suc.prems(1) [of 0] by simp
  show ?case
  proof (cases "fst (boot_pick_next (run m)) = TSlot i")
    case True
    then show ?thesis using schedule_picks(1) by (intro exI [of _ 0]) simp
  next
    case False
    then have "dist (unat (k_last_scheduled (run (Suc m)))) i \<le> D"
      using pick_progress [OF assms(1) r] Suc.prems(2) schedule_picks(2) assms(3) by simp
    moreover have "is_ready i (run (Suc m + n))" if "n < D" for n using Suc.prems(1) [of "Suc n"] that by simp
    ultimately obtain n where "n < D" "fst (schedule (c (Suc m + n)) (run (Suc m + n))) = TSlot i"
      using Suc.IH by blast
    then show ?thesis by (intro exI [of _ "Suc n"]) simp
  qed
qed

section \<open>The first dispatch\<close>

lemma load_store:
  "load_word a (store_word b v s) =
     (if page_of a = page_of b \<and> word_index a = word_index b then v else load_word a s)"
  by (simp add: load_word_def store_word_def)

lemma load_word_cong: "pg_mem (k_pg s') = pg_mem (k_pg s) \<Longrightarrow> load_word a s' = load_word a s"
  by (simp add: load_word_def)

lemma aligned_word:
  assumes "page_aligned b" and "k < 512"
  shows "page_of (b + of_nat (8 * k)) = b" and "word_index (b + of_nat (8 * k)) = k"
proof -
  have lt: "8 * k < 4096" using assms(2) by simp
  have x: "(b + of_nat (8 * k)) AND 0xFFF = of_nat (8 * k)" by (rule aligned_offset(2) [OF assms(1) lt])
  have u: "unat (b + of_nat (8 * k)) = unat b + 8 * k" by (rule unat_aligned_offset [OF assms(1) lt])
  obtain q where q: "unat b = 4096 * q" using assms(1) by (rule page_alignedE)
  have "unat (page_of (b + of_nat (8 * k))) = unat b"
    unfolding page_of_def mask_12 unat_and_not_mask u q using lt by simp
  then show "page_of (b + of_nat (8 * k)) = b" by (simp add: word_unat_eq_iff)
  show "word_index (b + of_nat (8 * k)) = k"
  proof -
    have "unat (of_nat (8 * k) :: u64) = 8 * k" using lt by (simp add: unat_of_nat del: of_nat_mult)
    then have "word_index (b + of_nat (8 * k)) = drop_bit 3 (8 * k)" by (simp only: word_index_def x unat_drop_bit_eq)
    then show ?thesis by (simp add: drop_bit_eq_div)
  qed
qed

lemma push_word_simp: "push_word v (sp, s) = (sp - 8, store_word (sp - 8) v s)"
  by (simp add: push_word_def)

lemma fold_push_load:
  assumes "\<And>k. 1 \<le> k \<Longrightarrow> k \<le> length vs \<Longrightarrow> page_of (sp - 8 * of_nat k) \<noteq> page_of a"
  shows "load_word a (snd (fold push_word vs (sp, s))) = load_word a s"
  using assms
proof (induction vs arbitrary: sp s)
  case Nil
  then show ?case by simp
next
  case (Cons v vs)
  have "page_of (sp - 8 - 8 * of_nat k) \<noteq> page_of a" if "1 \<le> k" "k \<le> length vs" for k
    using Cons.prems [of "Suc k"] that by (simp add: algebra_simps)
  then have "load_word a (snd (fold push_word vs (sp - 8, store_word (sp - 8) v s))) = load_word a (store_word (sp - 8) v s)"
    by (rule Cons.IH)
  moreover have "page_of (sp - 8) \<noteq> page_of a" using Cons.prems [of 1] by simp
  ultimately show ?case by (simp add: push_word_simp load_store)
qed

lemma alloc_aligned:
  assumes "pmm_alloc_frames n True p = (Inr a, p')"
  shows "page_aligned a"
proof -
  from assms obtain start where "a = of_nat start * PAGE_SIZE" by (cases rule: pmm_alloc_frames_cases) auto
  then show ?thesis
    by (auto simp: page_aligned_bits hic_consts bit_simps push_bit_eq_mult [of 12, simplified, symmetric]
        mult.commute [of _ 4096])
qed

lemma create_okD:
  assumes "thread_create_bound h d l e prio True s = (Inr t, s1)"
  obtains a s2 where "page_aligned a"
    and "k_threads s1 (unat t) = new_thread (unat t) d prio l a (a + 8128)"
    and "pg_mem (k_pg s1) = pg_mem (k_pg (store_word (a + 8176) e (store_word (a + 8184) h s2)))"
proof -
  obtain r u1 where ts: "take_thread_slot s = (r, u1)" by fastforce
  obtain x p where al: "pmm_alloc_frames 2 True (kpmm u1) = (x, p)" by fastforce
  have g: "\<not> HIC_DOMAIN_MAX \<le> d" "\<not> MAX_LOGICAL_CORES \<le> l" "lc_owner_domain (k_lcores s (unat l)) = d"
    "\<not> (lc_state (k_lcores s (unat l)) \<noteq> LOGICAL_CORE_STATE_ALLOCATED \<and> lc_state (k_lcores s (unat l)) \<noteq> LOGICAL_CORE_STATE_ACTIVE)"
    using assms by (auto simp: thread_create_bound_def split: if_splits)
  obtain i a where i: "r = Some i" "x = Inr a" "t = of_nat i"
    using assms g by (auto simp: thread_create_bound_def Let_def ts al case_prod_beta split: option.splits sum.splits)
  have lt: "i < 256" using quiet_take_slot [OF ts] i(1) by simp
  then have u: "unat t = i" and nlt: "\<not> MAX_THREADS \<le> t" using i(3) by (simp_all add: unat_of_nat word_le_nat_alt hic_consts)
  let ?s2 = "map_stack d a (set_kpmm p u1)"
  have st: "init_stack h e a ?s2 = (a + 8128, store_word (a + 8176) e (store_word (a + 8184) h ?s2))"
    by (simp add: init_stack_def push_word_def hic_consts add.commute)
  have s1: "s1 = upd_thread i (set_thread_state THREAD_STATE_READY)
     (upd_lcore (unat l) (\<lambda>x. if lc_state x = LOGICAL_CORE_STATE_ALLOCATED
                          then x\<lparr> lc_state := LOGICAL_CORE_STATE_ACTIVE \<rparr> else x)
     (upd_lcore (unat l) (\<lambda>x. if lc_running_thread x = INVALID_THREAD
                          then x\<lparr> lc_running_thread := of_nat i \<rparr> else x)
      (upd_thread i (\<lambda>_. new_thread i d prio l a (a + 8128)) (store_word (a + 8176) e (store_word (a + 8184) h ?s2)))))"
    using assms g nlt u i by (simp add: thread_create_bound_def Let_def ts al st thread_ready_def)
  show thesis
  proof
    show "page_aligned a" using alloc_aligned al i(2) by simp
    show "k_threads s1 (unat t) = new_thread (unat t) d prio l a (a + 8128)"
      by (simp add: s1 u upd_lcore_def new_thread_def set_thread_state_def)
    show "pg_mem (k_pg s1) = pg_mem (k_pg (store_word (a + 8176) e (store_word (a + 8184) h ?s2)))"
      by (simp add: s1 upd_lcore_def)
  qed
qed

lemma first_dispatch:
  assumes cr: "thread_create_bound h d l e prio True s = (Inr t, s1)"
    and sw: "context_switch prev (TSlot (unat t)) c s1 = (c', s2)" and ne: "prev \<noteq> TSlot (unat t)"
    and apart: "\<And>k. prev \<noteq> TNull \<Longrightarrow> 1 \<le> k \<Longrightarrow> k \<le> length (cpu_saved c) \<Longrightarrow>
        page_of (cpu_rsp c - 8 * of_nat k) \<noteq> thr_stack_base (k_threads s1 (unat t)) + 4096"
  shows "cpu_rip c' = e \<and> load_word (cpu_rsp c') s2 = h \<and> page_of (cpu_rsp c') = thr_stack_base (k_threads s1 (unat t)) + 4096"
proof -
  obtain a u where a: "page_aligned a" and th: "k_threads s1 (unat t) = new_thread (unat t) d prio l a (a + 8128)"
    and mem: "pg_mem (k_pg s1) = pg_mem (k_pg (store_word (a + 8176) e (store_word (a + 8184) h u)))"
    by (rule create_okD [OF cr])
  have b: "page_aligned (a + 4096)"
    using aligned_page_step [OF a, of 1] by (simp add: pt_consts hic_consts)
  have w: "page_of (a + 8176) = a + 4096" "word_index (a + 8176) = 510"
    "page_of (a + 8184) = a + 4096" "word_index (a + 8184) = 511"
    using aligned_word [OF b, of 510] aligned_word [OF b, of 511] by (simp_all add: algebra_simps)
  have l1: "load_word (a + 8176) s1 = e" "load_word (a + 8184) s1 = h"
    using load_word_cong [OF mem] w by (simp_all add: load_store)
  have base: "thr_stack_base (k_threads s1 (unat t)) = a" by (simp add: th new_thread_def)
  define s0 where "s0 = (if prev = TNull then s1
                else let (sp, t) = fold push_word (cpu_saved c) (cpu_rsp c, s1)
                     in upd_ptr prev (\<lambda>x. x\<lparr> thr_stack_ptr := sp \<rparr>) t)"
  have l0: "load_word x s0 = load_word x s1" if "page_of x = a + 4096" for x
  proof (cases "prev = TNull")
    case True
    then show ?thesis by (simp add: s0_def)
  next
    case False
    have "load_word x (snd (fold push_word (cpu_saved c) (cpu_rsp c, s1))) = load_word x s1"
      using apart [OF False] that base by (intro fold_push_load) simp
    then show ?thesis using False by (simp add: s0_def case_prod_beta load_word_def)
  qed
  have t0: "thr_stack_ptr (k_threads s0 (unat t)) = a + 8128"
    using ne th by (auto simp: s0_def case_prod_beta upd_ptr_threads new_thread_def)
  let ?s2 = "load_page_table (thr_domain (k_threads s0 (unat t))) s0"
  have "c' = \<lparr> cpu_rsp = a + 8128 + 56, cpu_rip = load_word (a + 8128 + 48) ?s2,
            cpu_saved = map (\<lambda>k. load_word (a + 8128 + k) ?s2) [40, 32, 24, 16, 8, 0] \<rparr>" and s2: "s2 = ?s2"
    using sw t0 by (auto simp: context_switch_def Let_def s0_def [symmetric])
  moreover have "load_word x ?s2 = load_word x s0" for x by (rule load_word_cong) simp
  ultimately show ?thesis using l0 l1 w base by (simp add: add.assoc)
qed

section \<open>Properties\<close>

definition cpu_ex :: cpu where
  "cpu_ex = \<lparr> cpu_rsp = 0, cpu_rip = 0, cpu_saved = [] \<rparr>"

definition ks_boot :: kernel_state where
  "ks_boot = thread_system_init 0x300000 0x9000 ks_ex"

lemma ks_boot_reachable: "thread_reachable ks_boot"
  unfolding ks_boot_def by (rule thread_reachable.start) (simp_all add: ks_ex_def)

lemma ks_boot_sel: "k_threads ks_boot i = thread_zero" "k_last_scheduled ks_boot = 0" "k_current ks_boot = TNull"
  by (simp_all add: ks_boot_def thread_system_init_def scheduler_init_def Let_def store_word_def ks_ex_def)

text \<open>
  C19. The thread table is well formed in every history of the thread, scheduler and domain-switch
  operations: the scheduler's position and the current thread are indices of the table, and each
  entry either carries its own index as identifier or was never filled in.
\<close>

theorem thread_table_typed:
  assumes "thread_reachable s"
  shows "unat (k_last_scheduled s) < 256 \<and> (\<forall>i. k_current s = TSlot i \<longrightarrow> i < 256) \<and>
     (\<forall>i < 256. thr_id (k_threads s i) \<in> {0, of_nat i})"
  using thr_ok_reachable [OF assms] by (simp add: thr_ok_def threads_wf_def)

theorem thread_table_typed_witness: "unat (k_last_scheduled ks_boot) < 256 \<and> thr_id (k_threads ks_boot 5) \<in> {0, of_nat 5}"
proof -
  have "(5 :: nat) < 256" by simp
  then show ?thesis using thread_table_typed [OF ks_boot_reachable] by blast
qed



text \<open>
  C16. The boot scheduler is fair. Along any run in which \<open>schedule\<close> is called again and again,
  with anything happening in between that leaves the scheduler's position alone, a thread that is
  ready at each of 256 successive calls is chosen by one of them.
\<close>

theorem scheduler_fair:
  assumes "i < 256" and "\<And>n. n < 256 \<Longrightarrow> is_ready i (run (m + n))"
    and "\<And>n. k_last_scheduled (run (Suc n)) = k_last_scheduled (snd (snd (schedule (c n) (run n))))"
  shows "\<exists>n < 256. fst (schedule (c (m + n)) (run (m + n))) = TSlot i"
  using fair [of i 256 run m c] assms dist_bounds(2) [OF assms(1)] by blast

theorem scheduler_fair_witness: "fst (schedule cpu_ex ks_boot) = TSlot 0"
proof -
  have last: "k_last_scheduled (snd (boot_pick_next ks_boot)) = 0"
  proof (cases rule: boot_pick_cases [of ks_boot])
    case idle
    then show ?thesis by (simp add: ks_boot_sel)
  next
    case (slot k j)
    have "j < 256" using slot(4) by simp
    then have "j = 0" using slot(5) by (simp add: ks_boot_sel thread_zero_def of_nat_u32_eq_0)
    then show ?thesis using slot(1) by simp
  qed
  have "is_ready 0 ks_boot" by (simp add: is_ready_def ks_boot_sel thread_zero_def)
  then show ?thesis
    using scheduler_fair [of 0 "\<lambda>_. ks_boot" 0 "\<lambda>_. cpu_ex"] last by (simp add: schedule_picks ks_boot_sel)
qed

text \<open>
  C18. A new thread starts at its entry point. When the scheduler switches for the first time to a
  thread made by \<open>thread_create_bound\<close>, the processor continues at the entry point given at
  creation, on the stack allocated for the thread, with the exit handler as return address. The
  registers of the thread that is left are assumed to be saved outside that stack.
\<close>

theorem new_thread_starts_at_entry:
  assumes "thread_create_bound h d l e prio True s = (Inr t, s1)"
    and "context_switch prev (TSlot (unat t)) c s1 = (c', s2)" and "prev \<noteq> TSlot (unat t)"
    and "\<And>k. prev \<noteq> TNull \<Longrightarrow> 1 \<le> k \<Longrightarrow> k \<le> length (cpu_saved c) \<Longrightarrow>
        page_of (cpu_rsp c - 8 * of_nat k) \<noteq> thr_stack_base (k_threads s1 (unat t)) + 4096"
  shows "cpu_rip c' = e \<and> load_word (cpu_rsp c') s2 = h \<and> page_of (cpu_rsp c') = thr_stack_base (k_threads s1 (unat t)) + 4096"
  by (rule first_dispatch [OF assms])

definition ks_core :: kernel_state where
  "ks_core = upd_lcore 0 (\<lambda>x. x\<lparr> lc_state := LOGICAL_CORE_STATE_ALLOCATED \<rparr>) ks_ex"

lemma ks_core_create: "fst (thread_create_bound 0x111 0 0 0x222 1 True ks_core) = Inr 0"
proof -
  have g: "\<not> HIC_DOMAIN_MAX \<le> (0 :: u32)" "\<not> MAX_LOGICAL_CORES \<le> (0 :: u32)" by (simp_all add: word_le_nat_alt hic_consts)
  have ts: "take_thread_slot ks_core = (Some 0, ks_core\<lparr> k_thread_bitmap := (k_thread_bitmap ks_core)(0 := 1) \<rparr>)"
    by (simp add: take_thread_slot_def find_first_numeral ks_core_def upd_lcore_def ks_ex_def)
  have p: "kpmm (ks_core\<lparr> k_thread_bitmap := f \<rparr>) = pmm_small" for f
    using ks_ex_pmm by (simp add: kpmm_def ks_core_def upd_lcore_def)
  have "fst (pmm_alloc_frames 2 True pmm_small) = Inr 0x1000" by code_simp
  then obtain q where "pmm_alloc_frames 2 True pmm_small = (Inr 0x1000, q)" by (cases "pmm_alloc_frames 2 True pmm_small") auto
  moreover have "lc_owner_domain (k_lcores ks_core 0) = 0" "lc_state (k_lcores ks_core 0) = LOGICAL_CORE_STATE_ALLOCATED"
    by (simp_all add: ks_core_def upd_lcore_def ks_ex_def logical_core_zero_def)
  ultimately show ?thesis using g by (simp add: thread_create_bound_def ts p Let_def case_prod_beta)
qed

theorem new_thread_starts_at_entry_witness:
  "cpu_rip (fst (context_switch TNull (TSlot 0) cpu_ex (snd (thread_create_bound 0x111 0 0 0x222 1 True ks_core)))) = 0x222"
proof -
  have cr: "thread_create_bound 0x111 0 0 0x222 1 True ks_core = (Inr 0, snd (thread_create_bound 0x111 0 0 0x222 1 True ks_core))"
    using ks_core_create by (simp add: prod_eq_iff)
  have sw: "context_switch TNull (TSlot (unat 0)) cpu_ex s = (fst (context_switch TNull (TSlot 0) cpu_ex s), snd (context_switch TNull (TSlot 0) cpu_ex s))" for s
    by simp
  show ?thesis using new_thread_starts_at_entry [OF cr sw] by simp
qed

end
