(* ===== verification/Hic_Ipc3_Props.thy ===== *)
theory Hic_Ipc3_Props
  imports Hic_Ipc3 Hic_Thread_Props
begin

text \<open>
  Properties of the cross-domain call: the machine code of an entry page, executed against the
  authorization bitmap in the same page, decides calls exactly as the history of authorizations
  says; an accepted call returns to its caller; and what the fault path does not do.
\<close>

unbundle bit_operations_syntax


section \<open>Bytes of the common store\<close>

lemma unat_page_of: "unat (page_of a) = unat a div 4096 * 4096"
  unfolding page_of_def mask_12 unat_and_not_mask by simp

lemma word_index_nat: "word_index a = unat a mod 4096 div 8"
proof -
  have "word_index a = drop_bit 3 (unat a mod 4096)" by (simp only: word_index_def unat_drop_bit_eq unat_and_fff)
  then show ?thesis by (simp add: drop_bit_eq_div)
qed

lemma byte_index_nat: "byte_index a = unat a mod 8"
proof -
  have "(7 :: u64) = mask 3" by (simp add: mask_eq_exp_minus_1)
  then have "a AND 7 = take_bit 3 a" by (simp add: take_bit_eq_mask)
  then have "unat (a AND 7) = take_bit 3 (unat a)" by (simp add: unsigned_take_bit_eq)
  then show ?thesis by (simp add: byte_index_def take_bit_eq_mod)
qed

lemma byte_index_lt: "byte_index a < 8"
  by (simp add: byte_index_nat)

lemma addr_eqI:
  assumes "page_of a = page_of b" and "word_index a = word_index b" and "byte_index a = byte_index b"
  shows "a = b"
proof -
  have split: "n = n div 4096 * 4096 + n mod 4096 div 8 * 8 + n mod 8" for n :: nat
  proof -
    have "n mod 4096 mod 8 = n mod 8" by (rule mod_mod_cancel) simp
    then have "n mod 4096 = n mod 4096 div 8 * 8 + n mod 8" by (metis div_mult_mod_eq)
    then show ?thesis by (metis div_mult_mod_eq add.assoc)
  qed
  have "unat a div 4096 * 4096 = unat b div 4096 * 4096" using assms(1) by (metis unat_page_of)
  moreover have "unat a mod 4096 div 8 = unat b mod 4096 div 8" using assms(2) by (simp add: word_index_nat)
  moreover have "unat a mod 8 = unat b mod 8" using assms(3) by (simp add: byte_index_nat)
  ultimately have "unat a = unat b" using split by metis
  then show ?thesis by (simp add: word_unat_eq_iff)
qed

lemma load_store_byte: "load_byte a (store_byte b v s) = (if a = b then v else load_byte a s)"
proof (cases "page_of a = page_of b \<and> word_index a = word_index b")
  case True
  then have "load_word a s = load_word b s" by (simp add: load_word_def)
  moreover have "a \<noteq> b \<Longrightarrow> byte_index a \<noteq> byte_index b" using True addr_eqI by blast
  ultimately show ?thesis
    using True byte_index_lt [of a] byte_index_lt [of b]
    by (auto simp: load_byte_def store_byte_def load_store get_set_byte_other)
next
  case False
  then show ?thesis by (auto simp: load_byte_def store_byte_def load_store)
qed

abbreviation pbyte :: "u64 \<Rightarrow> kernel_state \<Rightarrow> nat \<Rightarrow> u8" where
  "pbyte p s i \<equiv> load_byte (p + of_nat i) s"

lemma pbyte_store:
  assumes "i < 8192" and "j < 8192"
  shows "pbyte p (store_byte (p + of_nat j) v s) i = (if i = j then v else pbyte p s i)"
proof -
  have "(of_nat i :: u64) = of_nat j \<longleftrightarrow> i = j"
    using assms by (simp add: word_unat_eq_iff unat_of_nat)
  then show ?thesis by (simp add: load_store_byte)
qed

lemma pbyte_store_bytes:
  assumes "i < 8192" and "j + length vs \<le> 8192"
  shows "pbyte p (store_bytes (p + of_nat j) vs s) i =
     (if j \<le> i \<and> i < j + length vs then vs ! (i - j) else pbyte p s i)"
  using assms(2)
proof (induction vs arbitrary: j s)
  case Nil
  then show ?case by auto
next
  case (Cons v vs)
  have e: "p + of_nat j + 1 = p + of_nat (Suc j)" by simp
  have "pbyte p (store_bytes (p + of_nat (Suc j)) vs (store_byte (p + of_nat j) v s)) i =
      (if Suc j \<le> i \<and> i < Suc j + length vs then vs ! (i - Suc j) else pbyte p (store_byte (p + of_nat j) v s) i)"
    by (rule Cons.IH) (use Cons.prems in simp)
  then show ?case
    using Cons.prems assms(1) by (auto simp: e pbyte_store nth_Cons' Suc_le_eq simp del: of_nat_Suc)
qed

lemma pbyte_fill:
  assumes "i < 8192" and "n \<le> 2013"
  shows "pbyte p (for_range (fill_ud2 p) 0 n s) i =
     (if 71 \<le> i \<and> i < 71 + 2 * n then if odd i then 0x0F else 0x0B else pbyte p s i)"
  using assms(2)
proof (induction n)
  case 0
  then show ?case by auto
next
  case (Suc n)
  have n: "71 + 2 * n + 1 < 8192" "71 + 2 * n < 8192" using Suc.prems by simp_all
  have "pbyte p (for_range (fill_ud2 p) 0 (Suc n) s) i =
      (if i = 71 + 2 * n + 1 then 0x0B else if i = 71 + 2 * n then 0x0F else pbyte p (for_range (fill_ud2 p) 0 n s) i)"
    unfolding for_range_snoc fill_ud2_def add_0 pbyte_store [OF assms(1) n(1)] pbyte_store [OF assms(1) n(2)] ..
  then show ?case using Suc by (auto simp: less_Suc_eq)
qed

lemma pbyte_store_word:
  assumes p: "page_aligned p" and i: "i < 8192" and k: "k < 512"
  shows "pbyte p (store_word (p + of_nat (8 * k)) v s) i =
     (if 8 * k \<le> i \<and> i < 8 * k + 8 then get_byte (i - 8 * k) v else pbyte p s i)"
proof -
  note w = aligned_word [OF p k]
  have idx: "page_of (p + of_nat (8 * k + j)) = p \<and> word_index (p + of_nat (8 * k + j)) = k \<and> byte_index (p + of_nat (8 * k + j)) = j"
    if "j < 8" for j
  proof -
    obtain q where q: "unat p = 4096 * q" using p by (rule page_alignedE)
    have lt: "8 * k + j < 4096" using k that by simp
    have u: "unat (p + of_nat (8 * k + j)) = 4096 * q + (8 * k + j)" using unat_aligned_offset [OF p lt] q by simp
    have "unat (page_of (p + of_nat (8 * k + j))) = unat p" unfolding unat_page_of u q using lt by simp
    moreover have "(4096 * q + (8 * k + j)) mod 8 = j"
    proof -
      have "4096 * q + (8 * k + j) = 8 * (512 * q + k) + j" by simp
      then show ?thesis using that by (metis mod_mult_self4 mod_less)
    qed
    moreover have "(4096 * q + (8 * k + j)) mod 4096 div 8 = k" using lt that by simp
    ultimately show ?thesis by (simp add: word_unat_eq_iff word_index_nat byte_index_nat u del: of_nat_add of_nat_mult)
  qed
  show ?thesis
  proof (cases "8 * k \<le> i \<and> i < 8 * k + 8")
    case True
    then have "i = 8 * k + (i - 8 * k)" "i - 8 * k < 8" by auto
    then show ?thesis using True idx [of "i - 8 * k"] w by (simp add: load_byte_def load_store del: of_nat_mult)
  next
    case False
    have "\<not> (page_of (p + of_nat i) = p \<and> word_index (p + of_nat i) = k)"
    proof
      assume a: "page_of (p + of_nat i) = p \<and> word_index (p + of_nat i) = k"
      obtain j where j: "byte_index (p + of_nat i) = j" "j < 8" using byte_index_lt by blast
      note x = idx [OF j(2)]
      have "p + of_nat i = p + of_nat (8 * k + j)"
        by (rule addr_eqI) (simp_all only: a x j(1))
      then have "(of_nat i :: u64) = of_nat (8 * k + j)" by (rule add_left_imp_eq)
      moreover have "8 * k + j < 8192" using k j(2) by simp
      ultimately have "i = 8 * k + j" using i by (simp add: word_unat_eq_iff unat_of_nat del: of_nat_add of_nat_mult)
      then show False using False j(2) by simp
    qed
    then show ?thesis using False w by (auto simp: load_byte_def load_store simp del: of_nat_mult)
  qed
qed

section \<open>What the code generator leaves in a page\<close>

lemma length_entry_code: "length entry_code = 31"
  by (simp add: entry_code_def)

lemma build_entry_page_bytes:
  assumes p: "page_aligned p" and bd: "build_entry_page p business s = (Inr (), s')" and i: "i < 8192"
  shows "pbyte p s' i =
     (if i < 32 then 0 else if i < 40 then get_byte (i - 32) business else if i < 71 then entry_code ! (i - 40)
      else if i < 4097 then if odd i then 0x0F else 0x0B else pbyte p s i)"
proof -
  let ?s1 = "store_bytes (p + of_nat 40) entry_code s"
  let ?s2 = "for_range (fill_ud2 p) 0 2013 ?s1"
  let ?s3 = "store_bytes (p + of_nat 0) (replicate 32 0) ?s2"
  have s': "s' = store_word (p + of_nat (8 * 4)) business ?s3"
    using bd by (auto simp: build_entry_page_def Let_def ENTRY_CODE_OFFSET_def ENTRY_BITMAP_OFFSET_def
        ENTRY_BUSADDR_OFFSET_def IPC3_BITMAP_SIZE_def split: if_splits)
  have a: "pbyte p s' i = (if 8 * 4 \<le> i \<and> i < 8 * 4 + 8 then get_byte (i - 8 * 4) business else pbyte p ?s3 i)"
    unfolding s' by (rule pbyte_store_word [OF p i]) simp
  have b: "pbyte p ?s3 i = (if 0 \<le> i \<and> i < 0 + length (replicate 32 (0 :: u8)) then replicate 32 0 ! (i - 0) else pbyte p ?s2 i)"
    by (rule pbyte_store_bytes [OF i]) simp
  have c: "pbyte p ?s2 i = (if 71 \<le> i \<and> i < 71 + 2 * 2013 then if odd i then 0x0F else 0x0B else pbyte p ?s1 i)"
    by (rule pbyte_fill [OF i]) simp
  have d: "pbyte p ?s1 i = (if 40 \<le> i \<and> i < 40 + length entry_code then entry_code ! (i - 40) else pbyte p s i)"
    by (rule pbyte_store_bytes [OF i]) (simp add: length_entry_code)
  show ?thesis unfolding a b c d length_entry_code by auto
qed

section \<open>The machine code\<close>

lemma bit_fold_bytes:
  assumes "n \<le> 8"
  shows "bit (fold (\<lambda>k w. set_byte k (get_byte k v) w) [0..<n] 0) m \<longleftrightarrow> m < 8 * n \<and> bit v m"
  using assms
proof (induction n)
  case 0
  then show ?case by simp
next
  case (Suc n)
  show ?case
  proof (cases "m < 64")
    case True
    with Suc show ?thesis by (auto simp: bit_set_byte bit_get_byte not_less)
  next
    case False
    then have "\<not> bit w m" for w :: u64 using bit_imp_le_length [of w m] by auto
    then show ?thesis by blast
  qed
qed

lemma page_le_word:
  assumes "\<And>k. k < 8 \<Longrightarrow> pb (i + int k) = get_byte k v"
  shows "page_le pb i 8 = v"
proof -
  have "page_le pb i 8 = fold (\<lambda>k w. set_byte k (get_byte k v) w) [0..<8] 0"
    unfolding page_le_def using assms by (intro fold_cong) simp_all
  also have "\<dots> = v" by (rule bit_word_eqI) (auto simp: bit_fold_bytes)
  finally show ?thesis .
qed

lemma exec_run_numeral:
  "exec_run (numeral k) data pb x = (case exec_step data pb x of Inl r \<Rightarrow> Some r | Inr y \<Rightarrow> exec_run (pred_numeral k) data pb y)"
  by (simp add: numeral_eq_Suc)

lemma exec_entry_code:
  assumes code: "\<And>k. k < 31 \<Longrightarrow> pb (40 + int k) = entry_code ! k" and bus: "page_le pb 32 8 = business"
    and data: "data 0xFFFFF000 = d"
  shows "exec_run 5 data pb \<lparr> ex_ip = 40, ex_rax = 0, ex_ecx = 0, ex_cf = False \<rparr> =
     Some (if bit (pb (int (unat d div 8))) (unat d mod 8) then Jump business else Undefined 66)"
proof -
  have c: "pb 40 = 0x48" "pb 41 = 0xB8" "pb 42 = 0" "pb 43 = 0xF0" "pb 44 = 0xFF" "pb 45 = 0xFF" "pb 46 = 0" "pb 47 = 0"
    "pb 48 = 0" "pb 49 = 0" "pb 50 = 0x8B" "pb 51 = 0x08" "pb 52 = 0x0F" "pb 53 = 0xA3" "pb 54 = 0x0D" "pb 55 = 0xC5"
    "pb 56 = 0xFF" "pb 57 = 0xFF" "pb 58 = 0xFF" "pb 59 = 0x73" "pb 60 = 0x05" "pb 61 = 0xFF" "pb 62 = 0x25"
    "pb 63 = 0xDD" "pb 64 = 0xFF" "pb 65 = 0xFF" "pb 66 = 0xFF" "pb 67 = 0xFA"
    using code [of 0] code [of 1] code [of 2] code [of 3] code [of 4] code [of 5] code [of 6] code [of 7] code [of 8]
      code [of 9] code [of 10] code [of 11] code [of 12] code [of 13] code [of 14] code [of 15] code [of 16] code [of 17]
      code [of 18] code [of 19] code [of 20] code [of 21] code [of 22] code [of 23] code [of 24] code [of 25] code [of 26]
      code [of 27]
    by (simp_all add: entry_code_def)
  have rax: "page_le pb 42 8 = 0xFFFFF000"
    by (simp add: page_le_def upt_rec c set_byte_def)
  have d1: "sint (ucast (page_le pb 55 4) :: u32) = - 59"
    by (simp add: page_le_def upt_rec c set_byte_def)
  have d2: "sint (ucast (page_le pb 63 4) :: u32) = - 35"
    by (simp add: page_le_def upt_rec c set_byte_def)
  have s1: "exec_step data pb \<lparr> ex_ip = 40, ex_rax = 0, ex_ecx = 0, ex_cf = False \<rparr> =
      Inr \<lparr> ex_ip = 50, ex_rax = 0xFFFFF000, ex_ecx = 0, ex_cf = False \<rparr>"
    by (simp add: exec_step_def Let_def c rax)
  have s2: "exec_step data pb \<lparr> ex_ip = 50, ex_rax = 0xFFFFF000, ex_ecx = 0, ex_cf = False \<rparr> =
      Inr \<lparr> ex_ip = 52, ex_rax = 0xFFFFF000, ex_ecx = d, ex_cf = False \<rparr>"
    by (simp add: exec_step_def Let_def c data)
  have s3: "exec_step data pb \<lparr> ex_ip = 52, ex_rax = 0xFFFFF000, ex_ecx = d, ex_cf = False \<rparr> =
      Inr \<lparr> ex_ip = 59, ex_rax = 0xFFFFF000, ex_ecx = d, ex_cf = bit (pb (int (unat d div 8))) (unat d mod 8) \<rparr>"
    by (simp add: exec_step_def Let_def c d1)
  have s4: "exec_step data pb \<lparr> ex_ip = 59, ex_rax = 0xFFFFF000, ex_ecx = d, ex_cf = cf \<rparr> =
      Inr \<lparr> ex_ip = (if cf then 61 else 66), ex_rax = 0xFFFFF000, ex_ecx = d, ex_cf = cf \<rparr>" for cf
    by (simp add: exec_step_def Let_def c)
  have s5: "exec_step data pb \<lparr> ex_ip = (if cf then 61 else 66), ex_rax = 0xFFFFF000, ex_ecx = d, ex_cf = cf \<rparr> =
      Inl (if cf then Jump business else Undefined 66)" for cf
    by (simp add: exec_step_def Let_def c d2 bus)
  show ?thesis by (simp add: exec_run_numeral s1 s2 s3 s4 s5)
qed

section \<open>Authorization\<close>

datatype auth_op = Grant u32 | Revoke u32

fun run_auth :: "u32 \<Rightarrow> auth_op \<Rightarrow> ipc3_state \<Rightarrow> ipc3_state" where
  "run_auth sid (Grant d) s = snd (ipc3_authorize sid d s)"
| "run_auth sid (Revoke d) s = snd (ipc3_deauthorize sid d s)"

text \<open>The specification: the set of domains that may call.\<close>

fun abs_auth :: "auth_op \<Rightarrow> nat set \<Rightarrow> nat set" where
  "abs_auth (Grant d) A = (if d < HIC_DOMAIN_MAX then insert (unat d) A else A)"
| "abs_auth (Revoke d) A = (if d < HIC_DOMAIN_MAX then A - {unat d} else A)"

text \<open>
  Service \<open>sid\<close> has the entry page \<open>p\<close>: its code and target are in place, and the bitmap in the
  page and the one in the descriptor both describe the set \<open>A\<close>.
\<close>

definition entry_ok :: "u32 \<Rightarrow> u64 \<Rightarrow> u64 \<Rightarrow> nat set \<Rightarrow> ipc3_state \<Rightarrow> bool" where
  "entry_ok sid p business A s \<longleftrightarrow> i3_initialized s \<and> sid < IPC3_MAX_SERVICES \<and> page_aligned p \<and>
     sv_active (i3_services s (unat sid)) \<and> sv_entry_page_virt (i3_services s (unat sid)) = p \<and>
     sv_business_addr (i3_services s (unat sid)) = business \<and>
     (\<forall>k < 31. pbyte p (i3_k s) (40 + k) = entry_code ! k) \<and>
     (\<forall>k < 8. pbyte p (i3_k s) (32 + k) = get_byte k business) \<and>
     (\<forall>d < 256. pmm_test_bit (pbyte p (i3_k s)) d \<longleftrightarrow> d \<in> A) \<and>
     (\<forall>d < 256. pmm_test_bit (sv_bitmap (i3_services s (unat sid))) d \<longleftrightarrow> d \<in> A)"



lemma test_bit_cong: "(\<And>i. i < 32 \<Longrightarrow> f i = g i) \<Longrightarrow> d < 256 \<Longrightarrow> pmm_test_bit f d = pmm_test_bit g d"
  by (simp add: pmm_test_bit_def)

lemma entry_ok_update:
  assumes ok: "entry_ok sid p business A s" and d: "d < (256 :: nat)"
    and a: "a = p + ENTRY_BITMAP_OFFSET + of_nat (d div 8)"
    and bit: "\<And>f j. j < 256 \<Longrightarrow> pmm_test_bit (f(d div 8 := F (f (d div 8)))) j = (if j = d then b else pmm_test_bit f j)"
    and A': "A' = (if b then insert d A else A - {d})"
    and s': "s' = upd_service (unat sid) (\<lambda>v. v\<lparr> sv_bitmap := (sv_bitmap v)(d div 8 := F (sv_bitmap v (d div 8))) \<rparr>)
               (upd_k (\<lambda>k. store_byte a (F (load_byte a k)) k) s)"
  shows "entry_ok sid p business A' s'"
proof -
  have a': "a = p + of_nat (d div 8)" using a by (simp add: ENTRY_BITMAP_OFFSET_def)
  have k: "i3_k s' = store_byte a (F (load_byte a (i3_k s))) (i3_k s)" by (simp add: s' upd_service_def upd_k_def)
  have pb: "pbyte p (i3_k s') i = (if i = d div 8 then F (pbyte p (i3_k s) (d div 8)) else pbyte p (i3_k s) i)" if "i < 8192" for i
    unfolding k a' using pbyte_store [OF that, of "d div 8" p] d by simp
  have v: "i3_services s' (unat sid) = (i3_services s (unat sid))\<lparr> sv_bitmap := (sv_bitmap (i3_services s (unat sid)))
      (d div 8 := F (sv_bitmap (i3_services s (unat sid)) (d div 8))) \<rparr>" "i3_initialized s' = i3_initialized s"
    by (simp_all add: s' upd_service_def upd_k_def)
  have t: "pmm_test_bit (pbyte p (i3_k s')) j \<longleftrightarrow> j \<in> A'" if "j < 256" for j
  proof -
    have "pmm_test_bit (pbyte p (i3_k s')) j = pmm_test_bit ((pbyte p (i3_k s))(d div 8 := F (pbyte p (i3_k s) (d div 8)))) j"
      by (rule test_bit_cong [OF _ that]) (simp add: pb)
    then show ?thesis using bit [OF that, of "pbyte p (i3_k s)"] ok that A' by (auto simp: entry_ok_def)
  qed
  have t2: "pmm_test_bit (sv_bitmap (i3_services s' (unat sid))) j \<longleftrightarrow> j \<in> A'" if "j < 256" for j
    using bit [OF that, of "sv_bitmap (i3_services s (unat sid))"] ok that A' by (auto simp: entry_ok_def v)
  have d32: "d div 8 < 32" using d by simp
  have c1: "pbyte p (i3_k s') (40 + k) = pbyte p (i3_k s) (40 + k)" if "k < 31" for k
    using pb [of "40 + k"] d32 that by (simp del: of_nat_add)
  have c2: "pbyte p (i3_k s') (32 + k) = pbyte p (i3_k s) (32 + k)" if "k < 8" for k
    using pb [of "32 + k"] d32 that by (simp del: of_nat_add)
  show ?thesis using ok t t2 c1 c2 unfolding entry_ok_def v by (simp del: of_nat_add)
qed

lemma run_auth_ok:
  assumes ok: "entry_ok sid p business A s"
  shows "entry_ok sid p business (abs_auth op A) (run_auth sid op s)"
proof -
  have g: "i3_initialized s" "\<not> IPC3_MAX_SERVICES \<le> sid" "sv_active (i3_services s (unat sid))" "sv_entry_page_virt (i3_services s (unat sid)) = p"
    using ok by (auto simp: entry_ok_def)
  show ?thesis
  proof (cases op)
    case (Grant d)
    show ?thesis
    proof (cases "HIC_DOMAIN_MAX \<le> d")
      case True
      then show ?thesis using ok g Grant by (auto simp: ipc3_authorize_def not_le [symmetric])
    next
      case False
      then have "unat d < 256" by (simp add: word_le_nat_alt hic_consts)
      then have "entry_ok sid p business (insert (unat d) A) (snd (ipc3_authorize sid d s))"
        using False g
        by (intro entry_ok_update [OF ok, where F = "\<lambda>x. x OR push_bit (unat d mod 8) 1" and b = True, OF _ refl])
           (use fb.tst_st [of "unat d"] in \<open>auto simp: pmm_set_bit_def ipc3_authorize_def Let_def\<close>)
      then show ?thesis using False Grant by (simp add: not_le)
    qed
  next
    case (Revoke d)
    show ?thesis
    proof (cases "HIC_DOMAIN_MAX \<le> d")
      case True
      then show ?thesis using ok g Revoke by (auto simp: ipc3_deauthorize_def not_le [symmetric])
    next
      case False
      then have "unat d < 256" by (simp add: word_le_nat_alt hic_consts)
      then have "entry_ok sid p business (A - {unat d}) (snd (ipc3_deauthorize sid d s))"
        using False g
        by (intro entry_ok_update [OF ok, where F = "\<lambda>x. x AND NOT (push_bit (unat d mod 8) 1)" and b = False, OF _ refl])
           (use fb.tst_cl [of "unat d"] in \<open>auto simp: pmm_clear_bit_def ipc3_deauthorize_def Let_def\<close>)
      then show ?thesis using False Revoke by (simp add: not_le)
    qed
  qed
qed

lemma run_auths_ok: "entry_ok sid p business A s \<Longrightarrow> entry_ok sid p business (fold abs_auth ops A) (fold (run_auth sid) ops s)"
  by (induction ops arbitrary: A s) (simp_all add: run_auth_ok)

lemma entry_ok_exec:
  assumes ok: "entry_ok sid p business A s" and d: "d < HIC_DOMAIN_MAX"
  shows "run_entry_page p d (i3_k s) = Some (if unat d \<in> A then Jump business else Undefined 0x42)"
proof -
  have pb: "page_bytes p (i3_k s) (int k) = pbyte p (i3_k s) k" for k by (simp add: page_bytes_def)
  have d': "unat d < 256" using d by (simp add: word_less_nat_alt hic_consts)
  have code: "page_bytes p (i3_k s) (40 + int k) = entry_code ! k" if "k < 31" for k
    using pb [of "40 + k"] ok that by (simp add: entry_ok_def)
  have bus: "page_le (page_bytes p (i3_k s)) 32 8 = business"
  proof (rule page_le_word)
    fix k :: nat assume "k < 8"
    then show "page_bytes p (i3_k s) (32 + int k) = get_byte k business" using pb [of "32 + k"] ok by (simp add: entry_ok_def)
  qed
  have "bit (page_bytes p (i3_k s) (int (unat d div 8))) (unat d mod 8) \<longleftrightarrow> pmm_test_bit (pbyte p (i3_k s)) (unat d)"
    unfolding pb pmm_test_bit_def using and_mask_nonzero_iff_bit [of "unat d mod 8", where 'w = 8] by simp
  also have "\<dots> \<longleftrightarrow> unat d \<in> A" using ok d' by (simp add: entry_ok_def)
  finally show ?thesis
    using exec_entry_code [OF code bus, of "\<lambda>a. if a = IPC3_DOMAIN_DATA_VA then d else 0" d]
    by (simp add: run_entry_page_def IPC3_DOMAIN_DATA_VA_def)
qed

lemma register_ok:
  assumes "ipc3_register_service owner business stack s = (Inr sid, s')"
  shows "entry_ok sid (ipc3_get_entry_va sid s') business {} s'" and "ipc3_get_entry_va sid s' \<noteq> 0"
    and "load_byte (ipc3_get_entry_va sid s' + 4096) (i3_k s') = 0x0B"
proof -
  have g: "i3_initialized s" "\<not> IPC3_MAX_SERVICES \<le> i3_service_count s"
    using assms by (auto simp: ipc3_register_service_def split: if_splits)
  obtain x p where al: "pmm_alloc_frames 1 True (kpmm (i3_k s)) = (x, p)" by fastforce
  obtain e where x: "x = Inr e" using assms g al by (cases x) (auto simp: ipc3_register_service_def Let_def)
  let ?s1 = "upd_k (set_kpmm p) s"
  let ?pt = "domain_switch_get_pagetable HIC_DOMAIN_CORE (k_pg (i3_k ?s1))"
  have pt: "?pt \<noteq> 0" using assms g al x by (auto simp: ipc3_register_service_def Let_def split: if_splits)
  obtain y m where mp: "pagetable_map ?pt e e IPC3_PAGE_SIZE PERM_RX MAP_TYPE_IDENTITY (kpaging (i3_k ?s1)) = (y, m)" by fastforce
  have y: "y = Inr ()" using assms g al x pt mp by (cases y) (auto simp: ipc3_register_service_def Let_def)
  let ?i = "unat (i3_service_count s)"
  define s2 where "s2 = upd_service ?i (\<lambda>v. v\<lparr> sv_entry_page_phys := e,
                            sv_entry_page_virt := e, sv_business_addr := business,
                            sv_service_stack := stack, sv_owner := owner, sv_active := True,
                            sv_bitmap := (\<lambda>i. if i < IPC3_BITMAP_SIZE then 0 else sv_bitmap v i) \<rparr>)
                            (upd_k (put_paging m) ?s1)"
  obtain z k where bd: "build_entry_page e business (i3_k s2) = (z, k)" by fastforce
  have r: "ipc3_register_service owner business stack s =
      (case z of Inl er \<Rightarrow> (Inl er, upd_service ?i (\<lambda>v. v\<lparr> sv_active := False \<rparr>)
                           (upd_k (\<lambda>k. set_kpmm (snd (pmm_free_frames e 1 (kpmm k))) k)
                             (upd_k (\<lambda>k. put_paging (snd (pagetable_unmap ?pt e IPC3_PAGE_SIZE (kpaging k))) k) (s2\<lparr> i3_k := k \<rparr>))))
       | Inr _ \<Rightarrow> (Inr (i3_service_count s), s2\<lparr> i3_k := k, i3_service_count := i3_service_count s2 + 1 \<rparr>))"
    using g pt by (simp add: ipc3_register_service_def Let_def al x mp y s2_def [symmetric] bd split: sum.splits)
  have z: "z = Inr ()" and sid: "sid = i3_service_count s" and s': "s' = s2\<lparr> i3_k := k, i3_service_count := i3_service_count s2 + 1 \<rparr>"
    using assms unfolding r by (auto split: sum.splits)
  have e: "page_aligned e" using alloc_aligned al x by simp
  have e0: "e \<noteq> 0" using bd z by (auto simp: build_entry_page_def split: if_splits)
  note B = build_entry_page_bytes [OF e bd [unfolded z]]
  have sv: "i3_services s' (unat sid) = (i3_services s (unat sid))\<lparr> sv_entry_page_phys := e,
                            sv_entry_page_virt := e, sv_business_addr := business,
                            sv_service_stack := stack, sv_owner := owner, sv_active := True,
                            sv_bitmap := (\<lambda>i. if i < IPC3_BITMAP_SIZE then 0 else sv_bitmap (i3_services s (unat sid)) i) \<rparr>"
    by (simp add: s' s2_def upd_service_def upd_k_def sid cong: if_cong)
  have va: "ipc3_get_entry_va sid s' = e" unfolding ipc3_get_entry_va_def Let_def sv using g(2) sid by simp
  have k': "i3_k s' = k" by (simp add: s')
  have "pmm_test_bit (pbyte e k) d = pmm_test_bit (\<lambda>_. 0) d" if "d < 256" for d
    by (rule test_bit_cong [OF _ that]) (simp add: B)
  moreover have "pmm_test_bit (sv_bitmap (i3_services s' (unat sid))) d = pmm_test_bit (\<lambda>_. 0) d" if "d < 256" for d
    by (rule test_bit_cong [OF _ that]) (simp add: sv IPC3_BITMAP_SIZE_def)
  moreover have "\<not> pmm_test_bit (\<lambda>_. 0) d" for d by (simp add: pmm_test_bit_def)
  ultimately have bits: "\<not> pmm_test_bit (pbyte e k) d" "\<not> pmm_test_bit (sv_bitmap (i3_services s' (unat sid))) d" if "d < 256" for d
    using that by blast+
  have code: "pbyte e k (40 + j) = entry_code ! j" if "j < 31" for j using B [of "40 + j"] that by simp
  have bus: "pbyte e k (32 + j) = get_byte j business" if "j < 8" for j using B [of "32 + j"] that by simp
  have lt: "sid < IPC3_MAX_SERVICES" using g(2) sid by simp
  have ini: "i3_initialized s'" using g(1) by (simp add: s' s2_def upd_service_def upd_k_def)
  have act: "sv_active (i3_services s' (unat sid))" "sv_entry_page_virt (i3_services s' (unat sid)) = e"
    "sv_business_addr (i3_services s' (unat sid)) = business" by (simp_all add: sv)
  show "entry_ok sid (ipc3_get_entry_va sid s') business {} s'"
    unfolding entry_ok_def va k' using e lt ini act bits code bus by blast
  show "ipc3_get_entry_va sid s' \<noteq> 0" using e0 va by simp
  show "load_byte (ipc3_get_entry_va sid s' + 4096) (i3_k s') = 0x0B" using B [of 4096] by (simp add: va k')
qed

section \<open>Call and return\<close>

lemma handle_pf_accepted:
  assumes "ipc3_handle_pf cr2 err regs s = (True, regs', s')"
  obtains i d where "sv_active (i3_services s i)" "sv_business_addr (i3_services s i) = cr2"
    "d = current_domain_id (i3_k s)" "d < HIC_DOMAIN_MAX" "i3_top s < IPC3_CALL_STACK_DEPTH"
    "sv_entry_page_virt (i3_services s i) \<le> regs 17" "regs 17 < sv_entry_page_virt (i3_services s i) + IPC3_PAGE_SIZE"
    "pmm_test_bit (pbyte (sv_entry_page_virt (i3_services s i)) (i3_k s)) (unat d)"
    "regs' = service_regs cr2 (sv_service_stack (i3_services s i)) d regs"
    "s' = s\<lparr> i3_slots := (i3_slots s)(unat (i3_top s) := save_context regs (domain_switch_get_pagetable d (k_pg (i3_k s))) d),
            i3_top := i3_top s + 1,
            i3_pending_cr3 := domain_switch_get_pagetable (sv_owner (i3_services s i)) (k_pg (i3_k s)) \<rparr>"
proof -
  let ?d = "current_domain_id (i3_k s)"
  have ini: "i3_initialized s" using assms by (auto simp: ipc3_handle_pf_def split: if_splits)
  obtain i where i: "find_first (\<lambda>i. sv_active (i3_services s i) \<and> sv_business_addr (i3_services s i) = cr2)
                  0 (unat (i3_service_count s)) = Some i"
    using assms ini by (auto simp: ipc3_handle_pf_def split: option.splits)
  note F = find_first_SomeD(3) [OF i]
  have g: "\<not> (regs 17 < sv_entry_page_virt (i3_services s i) \<or> sv_entry_page_virt (i3_services s i) + IPC3_PAGE_SIZE \<le> regs 17)"
    "\<not> HIC_DOMAIN_MAX \<le> ?d"
    "load_byte (sv_entry_page_virt (i3_services s i) + ENTRY_BITMAP_OFFSET + of_nat (unat ?d div 8)) (i3_k s) AND push_bit (unat ?d mod 8) 1 \<noteq> 0"
    "\<not> IPC3_CALL_STACK_DEPTH \<le> i3_top s"
    using assms ini i by (auto simp: ipc3_handle_pf_def Let_def split: if_splits)
  have "regs' = service_regs cr2 (sv_service_stack (i3_services s i)) ?d regs \<and>
    s' = s\<lparr> i3_slots := (i3_slots s)(unat (i3_top s) := save_context regs (domain_switch_get_pagetable ?d (k_pg (i3_k s))) ?d),
            i3_top := i3_top s + 1,
            i3_pending_cr3 := domain_switch_get_pagetable (sv_owner (i3_services s i)) (k_pg (i3_k s)) \<rparr>"
    using assms ini i g F by (auto simp: ipc3_handle_pf_def Let_def)
  then show thesis
    by (intro that [of i ?d]) (use F g in \<open>auto simp: pmm_test_bit_def ENTRY_BITMAP_OFFSET_def\<close>)
qed

lemma handle_pf_refused: "ipc3_handle_pf cr2 err regs s = (False, regs', s') \<Longrightarrow> regs' = regs \<and> s' = s"
  by (auto simp: ipc3_handle_pf_def Let_def split: if_splits option.splits)






lemma register_succeeds:
  assumes "i3_initialized s" and "i3_service_count s < IPC3_MAX_SERVICES"
    and "pmm_alloc_frames 1 True (kpmm (i3_k s)) = (Inr e, p)" and "e \<noteq> 0"
    and "pt = domain_switch_get_pagetable HIC_DOMAIN_CORE (k_pg (i3_k s))" and "pt \<noteq> 0"
    and "pagetable_map pt e e IPC3_PAGE_SIZE PERM_RX MAP_TYPE_IDENTITY (kpaging (set_kpmm p (i3_k s))) = (Inr (), g)"
  shows "fst (ipc3_register_service owner business stack s) = Inr (i3_service_count s)"
proof -
  let ?s2 = "upd_service (unat (i3_service_count s)) (\<lambda>v. v\<lparr> sv_entry_page_phys := e,
                            sv_entry_page_virt := e, sv_business_addr := business,
                            sv_service_stack := stack, sv_owner := owner, sv_active := True,
                            sv_bitmap := (\<lambda>i. if i < IPC3_BITMAP_SIZE then 0 else sv_bitmap v i) \<rparr>)
                            (upd_k (put_paging g) (upd_k (set_kpmm p) s))"
  obtain k where b: "build_entry_page e business (i3_k ?s2) = (Inr (), k)"
    using assms(4) by (simp add: build_entry_page_def Let_def)
  have k: "i3_k (upd_k (set_kpmm p) s) = set_kpmm p (i3_k s)" "k_pg (set_kpmm p (i3_k s)) = k_pg (i3_k s)"
    by (simp_all add: upd_k_def)
  have "\<not> IPC3_MAX_SERVICES \<le> i3_service_count s" using assms(2) by simp
  then show ?thesis using assms(1,6)
    by (simp add: ipc3_register_service_def Let_def assms(3) k assms(5) [symmetric] assms(7) b)
qed

section \<open>Properties\<close>

definition ks_ipc :: kernel_state where
  "ks_ipc = put_paging (pg_ex1\<lparr> g_domain_pagetables := (\<lambda>i. if i = 0 then 0x1000 else 0) \<rparr>) ks_ex"

definition i3_ex :: ipc3_state where
  "i3_ex = \<lparr> i3_k = ks_ipc, i3_services = (\<lambda>_. ipc3_service_zero), i3_service_count = 0, i3_slots = (\<lambda>_. saved_context_zero),
     i3_top = 0, i3_pending_cr3 = 0, i3_return_ctx = None, i3_initialized = True \<rparr>"

lemma i3_ex_register: "ipc3_register_service 1 0x5000 0x6000 i3_ex = (Inr 0, snd (ipc3_register_service 1 0x5000 0x6000 i3_ex))"
proof -
  have k: "kpmm (i3_k i3_ex) = pg_pmm pg_ex1" by (simp add: i3_ex_def ks_ipc_def)
  have a: "fst (pmm_alloc_frames 1 True (pg_pmm pg_ex1)) = Inr 0x2000" by code_simp
  let ?p = "snd (pmm_alloc_frames 1 True (pg_pmm pg_ex1))"
  have al: "pmm_alloc_frames 1 True (kpmm (i3_k i3_ex)) = (Inr 0x2000, ?p)" using a by (simp add: k prod_eq_iff)
  let ?g = "pg_ex1\<lparr> g_domain_pagetables := (\<lambda>i. if i = 0 then 0x1000 else 0), pg_pmm := ?p \<rparr>"
  have pt: "0x1000 = domain_switch_get_pagetable HIC_DOMAIN_CORE (k_pg (i3_k i3_ex))"
    by (simp add: i3_ex_def ks_ipc_def domain_switch_get_pagetable_def hic_consts)
  have g: "kpaging (set_kpmm ?p (i3_k i3_ex)) = ?g"
    by (simp add: i3_ex_def ks_ipc_def kpaging_def)
  have "fst (pagetable_map 0x1000 0x2000 0x2000 IPC3_PAGE_SIZE PERM_RX MAP_TYPE_IDENTITY ?g) = Inr ()" by code_simp
  then have mp: "pagetable_map 0x1000 0x2000 0x2000 IPC3_PAGE_SIZE PERM_RX MAP_TYPE_IDENTITY (kpaging (set_kpmm ?p (i3_k i3_ex))) =
      (Inr (), snd (pagetable_map 0x1000 0x2000 0x2000 IPC3_PAGE_SIZE PERM_RX MAP_TYPE_IDENTITY ?g))"
    by (simp add: g prod_eq_iff)
  have c: "i3_initialized i3_ex" "i3_service_count i3_ex = 0" "(0 :: u32) < IPC3_MAX_SERVICES" by (simp_all add: i3_ex_def hic_consts)
  then have "fst (ipc3_register_service 1 0x5000 0x6000 i3_ex) = Inr (i3_service_count i3_ex)"
    by (intro register_succeeds [OF _ _ al _ pt _ mp]) simp_all
  then show ?thesis using c by (simp add: prod_eq_iff)
qed

text \<open>
  C10. The entry page enforces exactly the authorizations made. After a service is registered and
  any sequence of \<open>ipc3_authorize\<close> and \<open>ipc3_deauthorize\<close> on it, executing the machine code at
  \<open>ENTRY_CODE_OFFSET\<close> of its entry page jumps to the business address for a domain in the set of
  authorized domains, and for any other domain ends at the undefined encoding \<open>FF FA\<close> at offset
  \<open>0x42\<close>, one byte before the \<open>cli\<close> the code generator aims at.
\<close>

theorem entry_page_enforces_authorisation:
  assumes "ipc3_register_service owner business stack s = (Inr sid, s1)" and "d < HIC_DOMAIN_MAX"
  shows "run_entry_page (ipc3_get_entry_va sid s1) d (i3_k (fold (run_auth sid) ops s1)) =
     Some (if unat d \<in> fold abs_auth ops {} then Jump business else Undefined 0x42)"
  by (rule entry_ok_exec [OF run_auths_ok [OF register_ok(1) [OF assms(1)]] assms(2)])

theorem entry_page_enforces_authorisation_witness:
  "run_entry_page (ipc3_get_entry_va 0 (snd (ipc3_register_service 1 0x5000 0x6000 i3_ex))) 7
     (i3_k (fold (run_auth 0) [Grant 3, Grant 7, Revoke 3] (snd (ipc3_register_service 1 0x5000 0x6000 i3_ex)))) = Some (Jump 0x5000) \<and>
   run_entry_page (ipc3_get_entry_va 0 (snd (ipc3_register_service 1 0x5000 0x6000 i3_ex))) 3
     (i3_k (fold (run_auth 0) [Grant 3, Grant 7, Revoke 3] (snd (ipc3_register_service 1 0x5000 0x6000 i3_ex)))) = Some (Undefined 0x42)"
proof -
  have d: "(7 :: u32) < HIC_DOMAIN_MAX" "(3 :: u32) < HIC_DOMAIN_MAX" by (simp_all add: word_less_nat_alt hic_consts)
  have A: "fold abs_auth [Grant 3, Grant 7, Revoke 3] {} = {7}" using d by auto
  show ?thesis
    using entry_page_enforces_authorisation [OF i3_ex_register d(1), of "[Grant 3, Grant 7, Revoke 3]"]
      entry_page_enforces_authorisation [OF i3_ex_register d(2), of "[Grant 3, Grant 7, Revoke 3]"]
    unfolding A by simp
qed


definition i3_call :: ipc3_state where
  "i3_call = i3_ex\<lparr> i3_k := ks_ex\<lparr> k_pg := (k_pg ks_ex)\<lparr> pg_mem := (\<lambda>p i. if p = 0x2000 \<and> i = 0 then 1 else 0) \<rparr> \<rparr>,
     i3_service_count := 1,
     i3_services := (\<lambda>_. ipc3_service_zero\<lparr> sv_active := True, sv_business_addr := 0x5000, sv_entry_page_virt := 0x2000 \<rparr>) \<rparr>"

definition regs_ex :: frame_regs where
  "regs_ex = (\<lambda>i. if i = 17 then 0x203D else if i = 20 then 0x8000 else of_nat i)"



text \<open>
  C36. No call is ever completed by a real instruction fetch. A jump to an address that is not
  mapped faults with the instruction pointer already at the target, so the saved instruction
  pointer equals the fault address. For such a fault \<open>ipc3_handle_pf\<close> refuses the call, unless the
  business address lies in the entry page itself, because it demands an instruction pointer
  inside the entry page.
\<close>

theorem fetch_fault_never_handled:
  assumes "regs 17 = cr2"
    and "\<And>i. sv_active (i3_services s i) \<Longrightarrow> sv_business_addr (i3_services s i) = cr2 \<Longrightarrow>
       cr2 < sv_entry_page_virt (i3_services s i) \<or> sv_entry_page_virt (i3_services s i) + IPC3_PAGE_SIZE \<le> cr2"
  shows "ipc3_handle_pf cr2 err regs s = (False, regs, s)"
proof (cases "ipc3_handle_pf cr2 err regs s")
  case (fields b r t)
  show ?thesis
  proof (cases b)
    case True
    then have "ipc3_handle_pf cr2 err regs s = (True, r, t)" using fields by simp
    then show ?thesis
    proof (rule handle_pf_accepted)
      fix i assume "sv_active (i3_services s i)" "sv_business_addr (i3_services s i) = cr2"
        and r: "sv_entry_page_virt (i3_services s i) \<le> regs 17" "regs 17 < sv_entry_page_virt (i3_services s i) + IPC3_PAGE_SIZE"
      then have "cr2 < sv_entry_page_virt (i3_services s i) \<or> sv_entry_page_virt (i3_services s i) + IPC3_PAGE_SIZE \<le> cr2"
        by (intro assms(2))
      then show ?thesis using r unfolding assms(1) by (auto dest: leD)
    qed
  next
    case False
    then show ?thesis using handle_pf_refused [of cr2 err regs s r t] fields by simp
  qed
qed

theorem fetch_fault_never_handled_witness:
  "ipc3_handle_pf 0x5000 0 (regs_ex(17 := 0x5000)) i3_call = (False, regs_ex(17 := 0x5000), i3_call)"
proof (rule fetch_fault_never_handled)
  show "(regs_ex(17 := 0x5000)) 17 = 0x5000" by simp
  show "0x5000 < sv_entry_page_virt (i3_services i3_call i) \<or> sv_entry_page_virt (i3_services i3_call i) + IPC3_PAGE_SIZE \<le> 0x5000" for i
    by (simp add: i3_call_def IPC3_PAGE_SIZE_def)
qed

text \<open>
  Building an entry page writes one byte past its end. The page is filled two bytes at a time
  from an odd offset, so every successful registration overwrites the first byte of the next frame
  with \<open>0x0B\<close>, whoever owns it.
\<close>

lemma entry_page_overruns:
  assumes "ipc3_register_service owner business stack s = (Inr sid, s1)"
  shows "load_byte (ipc3_get_entry_va sid s1 + 4096) (i3_k s1) = 0x0B"
  by (rule register_ok(3) [OF assms])

lemma entry_page_overruns_witness:
  "load_byte (ipc3_get_entry_va 0 (snd (ipc3_register_service 1 0x5000 0x6000 i3_ex)) + 4096)
     (i3_k (snd (ipc3_register_service 1 0x5000 0x6000 i3_ex))) = 0x0B"
  by (rule entry_page_overruns [OF i3_ex_register])

end
