(* ===== verification/Hic_Lcore.thy ===== *)
theory Hic_Lcore
  imports Hic_Thread
begin

text \<open>
  Logical cores, \<^verbatim>\<open>Core-0/logical_core.c\<close>: the pool of control blocks with its linked free list,
  allocation to domains as capabilities, the lists of logical cores per physical core, migration,
  borrowing, quota accounting and the decision which cores to migrate; and \<open>thread_create\<close> of
  \<^verbatim>\<open>Core-0/thread.c\<close>, which allocates a core on demand. Pointers into \<open>g_logical_cores\<close> are indices.
  The time stamps that \<open>hal_get_timestamp\<close> returns are an arbitrary sequence in the state. Console
  output, critical sections and the events sent to the monitor are left out.
\<close>

unbundle bit_operations_syntax

section \<open>State\<close>

definition INVALID_PHYSICAL_CORE :: u32 where [hic_consts]: "INVALID_PHYSICAL_CORE = 0xFFFFFFFF"
definition MAX_PHYSICAL_CORES :: u32 where [hic_consts]: "MAX_PHYSICAL_CORES = 256"
definition LOGICAL_CORE_QUOTA_MIN :: u8 where [hic_consts]: "LOGICAL_CORE_QUOTA_MIN = 1"
definition LOGICAL_CORE_QUOTA_MAX :: u8 where [hic_consts]: "LOGICAL_CORE_QUOTA_MAX = 100"
definition LOGICAL_CORE_DEFAULT_QUOTA :: u8 where [hic_consts]: "LOGICAL_CORE_DEFAULT_QUOTA = 10"
definition LOGICAL_CORE_FLAG_EXCLUSIVE :: u32 where [hic_consts]: "LOGICAL_CORE_FLAG_EXCLUSIVE = 0x1"
definition LOGICAL_CORE_FLAG_MIGRATABLE :: u32 where [hic_consts]: "LOGICAL_CORE_FLAG_MIGRATABLE = 0x8"
definition LOGICAL_CORE_FLAG_PINNED :: u32 where [hic_consts]: "LOGICAL_CORE_FLAG_PINNED = 0x10"
definition LOGICAL_CORE_FLAG_QUOTA_WARNING :: u32 where [hic_consts]: "LOGICAL_CORE_FLAG_QUOTA_WARNING = 0x80"
definition LOGICAL_CORE_FLAG_QUOTA_THROTTLED :: u32 where [hic_consts]: "LOGICAL_CORE_FLAG_QUOTA_THROTTLED = 0x100"
definition LOGICAL_CORE_FLAG_QUOTA_EXCEEDED :: u32 where [hic_consts]: "LOGICAL_CORE_FLAG_QUOTA_EXCEEDED = 0x200"
definition CAP_LCORE_SET_AFFINITY :: u32 where [hic_consts]: "CAP_LCORE_SET_AFFINITY = 0x800"
definition CAP_LCORE_MONITOR :: u32 where [hic_consts]: "CAP_LCORE_MONITOR = 0x1000"

datatype borrow_state = BORROW_STATE_NONE | BORROW_STATE_BORROWED | BORROW_STATE_RETURNING

record logical_core_borrow_info =
  bi_state :: borrow_state
  bi_original_owner :: u32
  bi_borrower_domain :: u32
  bi_original_cap_handle :: u64
  bi_derived_cap_handle :: u64
  bi_start_time :: u64
  bi_duration :: u64
  bi_deadline :: u64
  bi_quota_used :: u32

definition borrow_info_zero :: logical_core_borrow_info where
  "borrow_info_zero = \<lparr> bi_state = BORROW_STATE_NONE, bi_original_owner = 0, bi_borrower_domain = 0,
     bi_original_cap_handle = 0, bi_derived_cap_handle = 0, bi_start_time = 0, bi_duration = 0,
     bi_deadline = 0, bi_quota_used = 0 \<rparr>"

text \<open>
  The control blocks themselves are \<open>k_lcores\<close> of the kernel state. \<open>ls_clock\<close> holds the time
  stamps still to come and \<open>ls_ticks\<close> the number of those already read.
\<close>

record lcore_state =
  ls_k :: kernel_state
  ls_l2p :: "nat \<Rightarrow> u32"
  ls_p2l :: "nat \<Rightarrow> nat \<Rightarrow> u32"
  ls_load :: "nat \<Rightarrow> u32"
  ls_free :: "nat option"
  ls_free_bitmap :: "nat \<Rightarrow> u64"
  ls_free_count :: u32
  ls_next_id :: u32
  ls_borrow :: "nat \<Rightarrow> logical_core_borrow_info"
  ls_cached_min :: u32
  ls_index :: "nat \<Rightarrow> u8"
  ls_check_counter :: u32
  ls_clock :: "nat \<Rightarrow> u64"
  ls_ticks :: nat

definition core_at :: "lcore_state \<Rightarrow> nat \<Rightarrow> logical_core" where
  "core_at s i = k_lcores (ls_k s) i"

definition upd_core :: "nat \<Rightarrow> (logical_core \<Rightarrow> logical_core) \<Rightarrow> lcore_state \<Rightarrow> lcore_state" where
  "upd_core i f s = s\<lparr> ls_k := upd_lcore i f (ls_k s) \<rparr>"

definition lcaps :: "lcore_state \<Rightarrow> cap_state" where
  "lcaps s = xs_caps (k_xs (ls_k s))"

definition put_lcaps :: "cap_state \<Rightarrow> lcore_state \<Rightarrow> lcore_state" where
  "put_lcaps c s = s\<lparr> ls_k := (ls_k s)\<lparr> k_xs := (k_xs (ls_k s))\<lparr> xs_caps := c \<rparr> \<rparr> \<rparr>"

definition hal_get_timestamp :: "lcore_state \<Rightarrow> u64 \<times> lcore_state" where
  "hal_get_timestamp s = (ls_clock s (ls_ticks s), s\<lparr> ls_ticks := Suc (ls_ticks s) \<rparr>)"

type_synonym affinity = "nat \<Rightarrow> u64"

definition affinity_allows :: "affinity \<Rightarrow> u32 \<Rightarrow> bool" where
  "affinity_allows m p \<longleftrightarrow> m (unat (p div 64)) AND push_bit (unat (p mod 64)) 1 \<noteq> 0"

definition affinity_meet :: "affinity \<Rightarrow> affinity \<Rightarrow> bool" where
  "affinity_meet a b \<longleftrightarrow> find_first (\<lambda>i. a i AND b i \<noteq> 0) 0 4 \<noteq> None"

section \<open>The pool\<close>

definition logical_core_init_block :: "u32 \<Rightarrow> lcore_state \<Rightarrow> lcore_state" where
  "logical_core_init_block i s =
     (let s1 = upd_core (unat i) (\<lambda>_. logical_core_zero\<lparr> lc_id := i, lc_state := LOGICAL_CORE_STATE_FREE,
                 lc_flags := 0, lc_owner_domain := HIC_INVALID_DOMAIN, lc_capability_handle := CAP_HANDLE_INVALID,
                 lc_running_thread := INVALID_THREAD, lc_physical_core := INVALID_PHYSICAL_CORE,
                 lc_affinity := (\<lambda>j. if j < 4 then 0xFFFFFFFFFFFFFFFF else 0),
                 lc_guaranteed_quota := LOGICAL_CORE_DEFAULT_QUOTA, lc_max_quota := 100,
                 lc_next := ls_free s, lc_prev := None \<rparr>) s;
          s2 = (case ls_free s1 of None \<Rightarrow> s1 | Some h \<Rightarrow> upd_core h (\<lambda>x. x\<lparr> lc_prev := Some (unat i) \<rparr>) s1);
          w = unat (i div 64)
      in s2\<lparr> ls_free := Some (unat i),
             ls_free_bitmap := (ls_free_bitmap s2)(w := ls_free_bitmap s2 w OR push_bit (unat (i mod 64)) 1),
             ls_free_count := ls_free_count s2 + 1 \<rparr>)"

definition logical_core_remove_from_free_list :: "nat \<Rightarrow> lcore_state \<Rightarrow> lcore_state" where
  "logical_core_remove_from_free_list i s =
     (let s1 = (case lc_prev (core_at s i) of
                  Some p \<Rightarrow> upd_core p (\<lambda>x. x\<lparr> lc_next := lc_next (core_at s i) \<rparr>) s
                | None \<Rightarrow> s\<lparr> ls_free := lc_next (core_at s i) \<rparr>);
          s2 = (case lc_next (core_at s1 i) of
                  Some n \<Rightarrow> upd_core n (\<lambda>x. x\<lparr> lc_prev := lc_prev (core_at s1 i) \<rparr>) s1
                | None \<Rightarrow> s1)
      in upd_core i (\<lambda>x. x\<lparr> lc_next := None, lc_prev := None \<rparr>) s2)"

definition logical_core_validate_handle :: "u32 \<Rightarrow> u64 \<Rightarrow> lcore_state \<Rightarrow> u32" where
  "logical_core_validate_handle d handle s =
     (if handle = CAP_HANDLE_INVALID then INVALID_LOGICAL_CORE
      else case cap_check_access d handle CAP_LCORE_USE (lcaps s) of
        Inl _ \<Rightarrow> INVALID_LOGICAL_CORE
      | Inr _ \<Rightarrow>
          (case cap_get_logical_core_info (cap_get_cap_id handle) (lcaps s) of
             Inl _ \<Rightarrow> INVALID_LOGICAL_CORE
           | Inr (lid, _) \<Rightarrow>
               if lid \<ge> MAX_LOGICAL_CORES then INVALID_LOGICAL_CORE
               else if lc_state (core_at s (unat lid)) \<noteq> LOGICAL_CORE_STATE_ALLOCATED \<and>
                       lc_state (core_at s (unat lid)) \<noteq> LOGICAL_CORE_STATE_ACTIVE then INVALID_LOGICAL_CORE
               else if lc_owner_domain (core_at s (unat lid)) \<noteq> d then INVALID_LOGICAL_CORE
               else lid))"

text \<open>
  The walk along the free list; \<open>None\<close> is a walk that does not end. \<open>affinity\<close> is \<open>None\<close> for
  \<open>NULL\<close>.
\<close>

definition free_core_suits :: "u32 \<Rightarrow> u8 \<Rightarrow> affinity option \<Rightarrow> logical_core \<Rightarrow> bool" where
  "free_core_suits flgs qta aff c \<longleftrightarrow>
     \<not> qta > lc_guaranteed_quota c \<and>
     (case aff of None \<Rightarrow> True | Some m \<Rightarrow> affinity_meet m (lc_affinity c)) \<and>
     \<not> (flgs AND LOGICAL_CORE_FLAG_EXCLUSIVE \<noteq> 0 \<and> lc_state c \<noteq> LOGICAL_CORE_STATE_FREE)"

partial_function (option) free_walk ::
    "u32 \<Rightarrow> u8 \<Rightarrow> affinity option \<Rightarrow> lcore_state \<Rightarrow> nat option \<Rightarrow> u32 option" where
  [code]: "free_walk flgs qta aff s cur =
     (case cur of
        None \<Rightarrow> Some INVALID_LOGICAL_CORE
      | Some i \<Rightarrow> if free_core_suits flgs qta aff (core_at s i) then Some (lc_id (core_at s i))
                  else free_walk flgs qta aff s (lc_next (core_at s i)))"

definition logical_core_find_free :: "u32 \<Rightarrow> u8 \<Rightarrow> affinity option \<Rightarrow> lcore_state \<Rightarrow> u32 option" where
  "logical_core_find_free flgs qta aff s = free_walk flgs qta aff s (ls_free s)"

section \<open>Physical cores\<close>

text \<open>The refresh of the cached least loaded core, every sixteenth time it is used.\<close>

definition refresh_step :: "nat \<Rightarrow> u32 \<times> lcore_state \<Rightarrow> u32 \<times> lcore_state" where
  "refresh_step i = (\<lambda>(min_load, s). if ls_load s i < min_load
     then (ls_load s i, s\<lparr> ls_cached_min := of_nat i \<rparr>) else (min_load, s))"

definition cached_min_core :: "lcore_state \<Rightarrow> u32 \<times> lcore_state" where
  "cached_min_core s =
     (let p = ls_cached_min s; s1 = s\<lparr> ls_check_counter := ls_check_counter s + 1 \<rparr>
      in if ls_check_counter s1 \<ge> 16
         then let s2 = snd (for_range refresh_step 0 (unat MAX_PHYSICAL_CORES)
                              (ls_load s1 (unat p), s1\<lparr> ls_check_counter := 0 \<rparr>))
              in (ls_cached_min s2, s2)
         else (p, s1))"

definition select_physical :: "affinity option \<Rightarrow> lcore_state \<Rightarrow> u32 \<times> lcore_state" where
  "select_physical aff s =
     (case (case aff of None \<Rightarrow> None
            | Some m \<Rightarrow> find_first (\<lambda>i. affinity_allows m (of_nat i) \<and> ls_load s i < 16) 0 (unat MAX_PHYSICAL_CORES)) of
        Some i \<Rightarrow> (of_nat i, s)
      | None \<Rightarrow> cached_min_core s)"

definition append_to_physical :: "u32 \<Rightarrow> u32 \<Rightarrow> lcore_state \<Rightarrow> lcore_state" where
  "append_to_physical p lid s =
     (let load = ls_load s (unat p)
      in s\<lparr> ls_p2l := (ls_p2l s)(unat p := (ls_p2l s (unat p))(unat load := lid)),
            ls_index := (ls_index s)(unat lid := ucast load),
            ls_load := (ls_load s)(unat p := load + 1) \<rparr>)"

definition remove_from_physical :: "u32 \<Rightarrow> u32 \<Rightarrow> lcore_state \<Rightarrow> lcore_state" where
  "remove_from_physical p lid s =
     (let idx = ls_index s (unat lid); load = ls_load s (unat p)
      in if ucast idx < load
         then let last_lcore = ls_p2l s (unat p) (unat (load - 1))
              in s\<lparr> ls_p2l := (ls_p2l s)(unat p := (ls_p2l s (unat p))(unat idx := last_lcore)),
                    ls_index := (ls_index s)(unat last_lcore := idx),
                    ls_load := (ls_load s)(unat p := load - 1) \<rparr>
         else s)"

section \<open>Allocation and release\<close>

definition free_core_again :: "u32 \<Rightarrow> lcore_state \<Rightarrow> lcore_state" where
  "free_core_again lid s =
     logical_core_init_block lid (upd_core (unat lid)
       (\<lambda>x. x\<lparr> lc_state := LOGICAL_CORE_STATE_FREE, lc_owner_domain := HIC_INVALID_DOMAIN \<rparr>) s)"

definition logical_core_allocate_to_domain ::
    "u32 \<Rightarrow> u32 \<Rightarrow> u32 \<Rightarrow> u8 \<Rightarrow> affinity option \<Rightarrow> lcore_state \<Rightarrow> u64 \<times> lcore_state" where
  "logical_core_allocate_to_domain lid d flgs qta aff s =
     (if lid \<ge> MAX_LOGICAL_CORES \<or> d \<ge> HIC_DOMAIN_MAX then (CAP_HANDLE_INVALID, s)
      else let i = unat lid;
               s1 = logical_core_remove_from_free_list i s;
               s2 = upd_core i (\<lambda>x. x\<lparr> lc_state := LOGICAL_CORE_STATE_ALLOCATED, lc_flags := flgs,
                      lc_owner_domain := d, lc_guaranteed_quota := qta,
                      lc_affinity := (case aff of None \<Rightarrow> lc_affinity x | Some m \<Rightarrow> m) \<rparr>) s1;
               (p, s3) = select_physical aff s2;
               s4 = (upd_core i (\<lambda>x. x\<lparr> lc_physical_core := p \<rparr>) s3)\<lparr> ls_l2p := (ls_l2p s3)(i := p) \<rparr>;
               s5 = (if p \<noteq> INVALID_PHYSICAL_CORE \<and> ls_load s4 (unat p) < 16
                     then append_to_physical p lid s4 else s4)
      in case cap_create_logical_core d lid flgs qta (CAP_LCORE_USE OR CAP_LCORE_QUERY OR CAP_LCORE_BORROW)
                True (lcaps s5) of
           (Inl _, c) \<Rightarrow> (CAP_HANDLE_INVALID, free_core_again lid (put_lcaps c s5))
         | (Inr cap, c) \<Rightarrow>
             let s6 = put_lcaps c s5
             in case cap_grant d cap True (lcaps s6) of
                  Inl _ \<Rightarrow> (CAP_HANDLE_INVALID,
                    free_core_again lid (put_lcaps (snd (cap_revoke cap (lcaps s6))) s6))
                | Inr handle \<Rightarrow> (handle, upd_core i (\<lambda>x. x\<lparr> lc_capability_handle := handle \<rparr>) s6))"

definition logical_core_perform_migration :: "u32 \<Rightarrow> u32 \<Rightarrow> lcore_state \<Rightarrow> bool \<times> lcore_state" where
  "logical_core_perform_migration lid target s =
     (if lid \<ge> MAX_LOGICAL_CORES \<or> target \<ge> MAX_PHYSICAL_CORES then (False, s)
      else let i = unat lid; core = core_at s i; old = lc_physical_core core
      in if ls_load s (unat target) \<ge> 16 then (False, s)
      else if \<not> affinity_allows (lc_affinity core) target then (False, s)
      else if lc_flags core AND LOGICAL_CORE_FLAG_MIGRATABLE = 0 \<and> lc_flags core AND LOGICAL_CORE_FLAG_PINNED \<noteq> 0
      then (False, s)
      else let s1 = upd_core i (\<lambda>x. x\<lparr> lc_state := LOGICAL_CORE_STATE_MIGRATING \<rparr>) s;
               s2 = (if old \<noteq> INVALID_PHYSICAL_CORE then remove_from_physical old lid s1 else s1);
               s3 = append_to_physical target lid s2;
               s4 = (upd_core i (\<lambda>x. x\<lparr> lc_physical_core := target, lc_migration_count := lc_migration_count x + 1 \<rparr>) s3)
                      \<lparr> ls_l2p := (ls_l2p s3)(i := target) \<rparr>;
               (now, s5) = hal_get_timestamp s4
      in (True, upd_core i (\<lambda>x. x\<lparr> lc_last_migration_time := now,
                  lc_state := (if lc_running_thread x \<noteq> INVALID_THREAD then LOGICAL_CORE_STATE_ACTIVE
                               else LOGICAL_CORE_STATE_ALLOCATED) \<rparr>) s5))"

definition logical_core_system_init :: "lcore_state \<Rightarrow> lcore_state" where
  "logical_core_system_init s =
     (let s1 = s\<lparr> ls_k := (ls_k s)\<lparr> k_lcores := (\<lambda>i. if i < unat MAX_LOGICAL_CORES then logical_core_zero
                             else k_lcores (ls_k s) i) \<rparr>,
                 ls_l2p := (\<lambda>i. if i < unat MAX_LOGICAL_CORES then 0 else ls_l2p s i),
                 ls_p2l := (\<lambda>i. if i < unat MAX_PHYSICAL_CORES then (\<lambda>j. if j < 16 then 0 else ls_p2l s i j) else ls_p2l s i),
                 ls_load := (\<lambda>i. if i < unat MAX_PHYSICAL_CORES then 0 else ls_load s i) \<rparr>;
          s2 = for_range (\<lambda>i. logical_core_init_block (of_nat i)) 0 (unat MAX_LOGICAL_CORES) s1
      in s2\<lparr> ls_next_id := MAX_LOGICAL_CORES \<rparr>)"

text \<open>
  Undoing a partial allocation. The identifier of the core is read from the capability after the
  capability has been revoked; \<open>uninit\<close> is the content of the local variable when that fails.
\<close>

definition rollback_one :: "u32 \<Rightarrow> u64 \<Rightarrow> lcore_state \<Rightarrow> lcore_state" where
  "rollback_one uninit handle s =
     (let cap = cap_get_cap_id handle;
          s1 = put_lcaps (snd (cap_revoke cap (lcaps s))) s;
          lid = (case cap_get_logical_core_info cap (lcaps s1) of Inl _ \<Rightarrow> uninit | Inr (l, _) \<Rightarrow> l)
      in free_core_again lid s1)"

text \<open>
  The allocation loop: \<open>n\<close> cores are still to come and \<open>hs\<close> are the handles so far, the latest
  first. \<open>None\<close> is a walk of the free list that does not end.
\<close>

primrec alloc_loop ::
    "nat \<Rightarrow> u32 \<Rightarrow> u32 \<Rightarrow> u32 \<Rightarrow> u8 \<Rightarrow> affinity option \<Rightarrow> u64 list \<Rightarrow> lcore_state \<Rightarrow>
      (u64 list hic_result \<times> lcore_state) option" where
  "alloc_loop 0 uninit d flgs qta aff hs s = Some (Inr (rev hs), s)"
| "alloc_loop (Suc n) uninit d flgs qta aff hs s =
     (case logical_core_find_free flgs qta aff s of
        None \<Rightarrow> None
      | Some lid \<Rightarrow>
          if lid = INVALID_LOGICAL_CORE
          then Some (Inl HIC_ERROR_NO_RESOURCE, fold (rollback_one uninit) (rev hs) s)
          else let (handle, s1) = logical_core_allocate_to_domain lid d flgs qta aff s
          in if handle = CAP_HANDLE_INVALID
             then Some (Inl HIC_ERROR_NO_RESOURCE, fold (rollback_one uninit) (rev hs) s1)
             else alloc_loop n uninit d flgs qta aff (handle # hs) s1)"

definition hic_logical_core_allocate ::
    "u32 \<Rightarrow> u32 \<Rightarrow> u32 \<Rightarrow> u32 \<Rightarrow> u8 \<Rightarrow> affinity option \<Rightarrow> bool \<Rightarrow> lcore_state \<Rightarrow>
      (u64 list hic_result \<times> lcore_state) option" where
  "hic_logical_core_allocate uninit d count flgs qta aff out_ok s =
     (if d \<ge> HIC_DOMAIN_MAX \<or> count = 0 \<or> count > 16 \<or> \<not> out_ok then Some (Inl HIC_ERROR_INVALID_PARAM, s)
      else if qta < LOGICAL_CORE_QUOTA_MIN \<or> qta > LOGICAL_CORE_QUOTA_MAX then Some (Inl HIC_ERROR_INVALID_PARAM, s)
      else if d \<noteq> HIC_DOMAIN_CORE \<and> domain_state (k_doms (ls_k s) (unat d)) \<noteq> DOMAIN_STATE_READY \<and>
              domain_state (k_doms (ls_k s) (unat d)) \<noteq> DOMAIN_STATE_RUNNING then Some (Inl HIC_ERROR_INVALID_DOMAIN, s)
      else alloc_loop (unat count) uninit d flgs qta aff [] s)"

fun release_loop :: "u32 \<Rightarrow> u64 list \<Rightarrow> lcore_state \<Rightarrow> unit hic_result \<times> lcore_state" where
  "release_loop d [] s = (Inr (), s)"
| "release_loop d (handle # hs) s =
     (let lid = logical_core_validate_handle d handle s; i = unat lid
      in if lid = INVALID_LOGICAL_CORE then (Inl HIC_ERROR_CAP_INVALID, s)
      else if lc_running_thread (core_at s i) \<noteq> INVALID_THREAD then (Inl HIC_ERROR_BUSY, s)
      else let p = lc_physical_core (core_at s i);
               s1 = (if p \<noteq> INVALID_PHYSICAL_CORE then remove_from_physical p lid s else s);
               s2 = put_lcaps (snd (cap_revoke (cap_get_cap_id handle) (lcaps s1))) s1;
               s3 = upd_core i (\<lambda>x. x\<lparr> lc_state := LOGICAL_CORE_STATE_FREE, lc_owner_domain := HIC_INVALID_DOMAIN,
                      lc_capability_handle := CAP_HANDLE_INVALID, lc_running_thread := INVALID_THREAD \<rparr>) s2
      in release_loop d hs (logical_core_init_block lid s3))"

text \<open>\<open>handles_ok\<close> is false for \<open>NULL\<close>; \<open>count\<close> is the length of the array.\<close>

definition hic_logical_core_release ::
    "u32 \<Rightarrow> u64 list \<Rightarrow> bool \<Rightarrow> lcore_state \<Rightarrow> unit hic_result \<times> lcore_state" where
  "hic_logical_core_release d handles handles_ok s =
     (if d \<ge> HIC_DOMAIN_MAX \<or> \<not> handles_ok \<or> length handles = 0 \<or> length handles > 16
      then (Inl HIC_ERROR_INVALID_PARAM, s)
      else release_loop d handles s)"

section \<open>Operations on a core\<close>

text \<open>The domain of the caller, from the current thread.\<close>

definition caller_domain :: "lcore_state \<Rightarrow> u32" where
  "caller_domain s =
     (if k_current (ls_k s) \<noteq> TNull then thr_domain (thread_of (k_current (ls_k s)) (ls_k s)) else HIC_DOMAIN_CORE)"

definition hic_thread_create_on_core ::
    "u64 \<Rightarrow> u64 \<Rightarrow> u64 \<Rightarrow> u8 \<Rightarrow> bool \<Rightarrow> lcore_state \<Rightarrow> u32 hic_result \<times> lcore_state" where
  "hic_thread_create_on_core exit_handler handle entry prio out_ok s =
     (if handle = CAP_HANDLE_INVALID \<or> \<not> out_ok then (Inl HIC_ERROR_INVALID_PARAM, s)
      else let k = ls_k s; cd = domain_switch_get_current (k_pg k);
               d = (if k_current k \<noteq> TNull then thr_domain (thread_of (k_current k) k)
                    else if cd \<noteq> HIC_INVALID_DOMAIN then cd else HIC_DOMAIN_CORE);
               lid = logical_core_validate_handle d handle s
      in if lid = INVALID_LOGICAL_CORE then (Inl HIC_ERROR_CAP_INVALID, s)
      else if lc_running_thread (core_at s (unat lid)) \<noteq> INVALID_THREAD then (Inl HIC_ERROR_BUSY, s)
      else case thread_create_bound exit_handler d lid entry prio True k of
             (Inl e, k') \<Rightarrow> (Inl e, s\<lparr> ls_k := k' \<rparr>)
           | (Inr t, k') \<Rightarrow> (Inr t, upd_core (unat lid)
               (\<lambda>x. x\<lparr> lc_running_thread := t, lc_state := LOGICAL_CORE_STATE_ACTIVE \<rparr>) (s\<lparr> ls_k := k' \<rparr>)))"

text \<open>The checks that the operations on a handle share: the handle, then one more right.\<close>

definition checked_core :: "u64 \<Rightarrow> u32 \<Rightarrow> lcore_state \<Rightarrow> u32 hic_result" where
  "checked_core handle right s =
     (let d = caller_domain s; lid = logical_core_validate_handle d handle s
      in if lid = INVALID_LOGICAL_CORE then Inl HIC_ERROR_CAP_INVALID
      else case cap_check_access d handle right (lcaps s) of Inl e \<Rightarrow> Inl e | Inr _ \<Rightarrow> Inr lid)"

definition hic_logical_core_get_info :: "u64 \<Rightarrow> bool \<Rightarrow> lcore_state \<Rightarrow> logical_core hic_result" where
  "hic_logical_core_get_info handle out_ok s =
     (if handle = CAP_HANDLE_INVALID \<or> \<not> out_ok then Inl HIC_ERROR_INVALID_PARAM
      else case checked_core handle CAP_LCORE_QUERY s of
             Inl e \<Rightarrow> Inl e | Inr lid \<Rightarrow> Inr (core_at s (unat lid)))"

definition hic_logical_core_set_affinity ::
    "u64 \<Rightarrow> affinity option \<Rightarrow> lcore_state \<Rightarrow> unit hic_result \<times> lcore_state" where
  "hic_logical_core_set_affinity handle aff s =
     (case aff of
        None \<Rightarrow> (Inl HIC_ERROR_INVALID_PARAM, s)
      | Some m \<Rightarrow>
          if handle = CAP_HANDLE_INVALID then (Inl HIC_ERROR_INVALID_PARAM, s)
          else case checked_core handle CAP_LCORE_SET_AFFINITY s of
                 Inl e \<Rightarrow> (Inl e, s)
               | Inr lid \<Rightarrow>
                   if lc_running_thread (core_at s (unat lid)) \<noteq> INVALID_THREAD then (Inl HIC_ERROR_BUSY, s)
                   else (Inr (), upd_core (unat lid) (\<lambda>x. x\<lparr> lc_affinity := m \<rparr>) s))"

definition hic_logical_core_migrate :: "u64 \<Rightarrow> u32 \<Rightarrow> lcore_state \<Rightarrow> unit hic_result \<times> lcore_state" where
  "hic_logical_core_migrate handle target s =
     (if handle = CAP_HANDLE_INVALID \<or> target \<ge> MAX_PHYSICAL_CORES then (Inl HIC_ERROR_INVALID_PARAM, s)
      else case checked_core handle CAP_LCORE_MIGRATE s of
             Inl e \<Rightarrow> (Inl e, s)
           | Inr lid \<Rightarrow>
               let (ok, s1) = logical_core_perform_migration lid target s
               in if \<not> ok then (Inl HIC_ERROR_INVALID_STATE, s1) else (Inr (), s1))"

definition hic_logical_core_get_perf :: "u64 \<Rightarrow> bool \<Rightarrow> lcore_state \<Rightarrow> logical_core_perf hic_result" where
  "hic_logical_core_get_perf handle out_ok s =
     (if handle = CAP_HANDLE_INVALID \<or> \<not> out_ok then Inl HIC_ERROR_INVALID_PARAM
      else case checked_core handle CAP_LCORE_MONITOR s of
             Inl e \<Rightarrow> Inl e | Inr lid \<Rightarrow> Inr (lc_perf (core_at s (unat lid))))"

definition hic_logical_core_reset_perf :: "u64 \<Rightarrow> lcore_state \<Rightarrow> unit hic_result \<times> lcore_state" where
  "hic_logical_core_reset_perf handle s =
     (if handle = CAP_HANDLE_INVALID then (Inl HIC_ERROR_INVALID_PARAM, s)
      else case checked_core handle CAP_LCORE_MONITOR s of
             Inl e \<Rightarrow> (Inl e, s)
           | Inr lid \<Rightarrow> (Inr (), upd_core (unat lid) (\<lambda>x. x\<lparr> lc_perf := perf_zero \<rparr>) s))"

section \<open>Load\<close>

record physical_core_load_info =
  li_logical_core_count :: u32
  li_active_thread_count :: u32
  li_total_cpu_time :: u64
  li_idle_time :: u64
  li_load_percentage :: u32
  li_cache_pressure :: u32
  li_memory_bandwidth_usage :: u32

definition load_info_zero :: physical_core_load_info where
  "load_info_zero = \<lparr> li_logical_core_count = 0, li_active_thread_count = 0, li_total_cpu_time = 0,
     li_idle_time = 0, li_load_percentage = 0, li_cache_pressure = 0, li_memory_bandwidth_usage = 0 \<rparr>"

definition listed_core :: "lcore_state \<Rightarrow> u32 \<Rightarrow> nat \<Rightarrow> logical_core" where
  "listed_core s p i = core_at s (unat (ls_p2l s (unat p) i))"

text \<open>The first loop: number of cores, time used and active threads.\<close>

definition load_step :: "u64 \<Rightarrow> logical_core \<Rightarrow> u32 \<times> u64 \<times> u32 \<Rightarrow> u32 \<times> u64 \<times> u32" where
  "load_step now c = (\<lambda>(n, total, active).
     (n + 1,
      total + lc_used_time c + (if lc_state c = LOGICAL_CORE_STATE_ACTIVE \<and> lc_last_schedule_time c > 0
                                then now - lc_last_schedule_time c else 0),
      if lc_state c = LOGICAL_CORE_STATE_ACTIVE then active + 1 else active))"

definition time_window :: u64 where [hic_consts]: "time_window = 1000000000"

definition logical_core_calculate_load ::
    "u32 \<Rightarrow> bool \<Rightarrow> lcore_state \<Rightarrow> physical_core_load_info hic_result \<times> lcore_state" where
  "logical_core_calculate_load p out_ok s =
     (if p \<ge> MAX_PHYSICAL_CORES \<or> \<not> out_ok then (Inl HIC_ERROR_INVALID_PARAM, s)
      else let (now, s1) = hal_get_timestamp s;
               len = unat (ls_load s1 (unat p));
               (n, total, active) = fold (\<lambda>i. load_step now (listed_core s1 p i)) [0..<len] (0, 0, 0);
               info = load_info_zero\<lparr> li_logical_core_count := n, li_active_thread_count := active,
                        li_total_cpu_time := total \<rparr>
      in if \<not> n > 0 then (Inr info, s1)
      else let available = time_window * ucast n;
               ratio = total * 100 div available;
               pct = (if available > 0 \<and> total > 0 then (if ratio > 100 then 100 else ucast ratio) else 0);
               factor = fold (\<lambda>i f. if now - lc_last_migration_time (listed_core s1 p i) < time_window then f + 10 else f)
                          [0..<len] 0;
               pressure = n * 50 div 16 + factor
      in (Inr (info\<lparr> li_load_percentage := pct,
                li_cache_pressure := (if pressure > 100 then 100 else pressure),
                li_memory_bandwidth_usage := pct \<rparr>), s1))"

definition logical_core_get_system_utilization :: "lcore_state \<Rightarrow> u32" where
  "logical_core_get_system_utilization s =
     (let used = filter (\<lambda>i. lc_state (core_at s i) \<noteq> LOGICAL_CORE_STATE_FREE) [0..<unat MAX_LOGICAL_CORES];
          total = of_nat (length used);
          active = of_nat (length (filter (\<lambda>i. lc_state (core_at s i) = LOGICAL_CORE_STATE_ACTIVE) used))
      in if total = 0 then 0 else active * 100 div total)"

definition logical_core_get_domain_utilization :: "u32 \<Rightarrow> lcore_state \<Rightarrow> u32" where
  "logical_core_get_domain_utilization d s =
     (let used = filter (\<lambda>i. lc_owner_domain (core_at s i) = d \<and> lc_state (core_at s i) \<noteq> LOGICAL_CORE_STATE_FREE)
                   [0..<unat MAX_LOGICAL_CORES];
          total = of_nat (length used);
          active = of_nat (length (filter (\<lambda>i. lc_state (core_at s i) = LOGICAL_CORE_STATE_ACTIVE) used))
      in if total = 0 then 0 else active * 100 div total)"

section \<open>Scheduling\<close>

text \<open>
  The choice of a core for a thread of domain \<open>d\<close>: the score of one listed core, the best core of
  one physical core, and the best of all. \<open>load_info\<close> is always set, since the physical core is in
  range when \<open>ncpu\<close>, the number of physical cores, is at most \<open>MAX_PHYSICAL_CORES\<close>; \<open>uninit\<close> is its
  content otherwise.
\<close>

definition select_step ::
    "physical_core_load_info \<Rightarrow> u32 \<Rightarrow> u32 \<Rightarrow> nat \<Rightarrow> u32 \<times> u32 \<times> lcore_state \<Rightarrow> u32 \<times> u32 \<times> lcore_state" where
  "select_step uninit d p i = (\<lambda>(best, best_score, s).
     let lid = ls_p2l s (unat p) i; core = core_at s (unat lid); b = ls_borrow s (unat lid);
         own = lc_owner_domain core = d;
         borrowed = bi_state b = BORROW_STATE_BORROWED \<and> bi_borrower_domain b = d
     in if lc_state core \<noteq> LOGICAL_CORE_STATE_ALLOCATED \<or> lc_running_thread core \<noteq> INVALID_THREAD
        then (best, best_score, s)
     else if \<not> own \<and> \<not> borrowed then (best, best_score, s)
     else let (r, s1) = logical_core_calculate_load p True s;
              info = (case r of Inl _ \<Rightarrow> uninit | Inr x \<Rightarrow> x);
              score = (if own then 100 else 80) + (100 - li_load_percentage info) div 2
                        + (if lc_allocated_time core > lc_used_time core then 10 else 0)
                        + (if pf_cache_hits (lc_perf core) > pf_cache_misses (lc_perf core) then 15 else 0)
          in if score > best_score then (lid, score, s1) else (best, best_score, s1))"

definition select_on ::
    "physical_core_load_info \<Rightarrow> u32 \<Rightarrow> nat \<Rightarrow> u32 \<times> u32 \<times> lcore_state \<Rightarrow> u32 \<times> u32 \<times> lcore_state" where
  "select_on uninit d p = (\<lambda>(best, best_score, s).
     let (c, score, s1) = for_range (select_step uninit d (of_nat p)) 0 (unat (ls_load s p)) (INVALID_LOGICAL_CORE, 0, s)
     in if score > best_score then (c, score, s1) else (best, best_score, s1))"

definition logical_core_schedule_select ::
    "physical_core_load_info \<Rightarrow> u32 \<Rightarrow> thread_ptr \<Rightarrow> lcore_state \<Rightarrow> u32 \<times> lcore_state" where
  "logical_core_schedule_select uninit ncpu thread s =
     (if thread = TNull then (INVALID_LOGICAL_CORE, s)
      else let d = thr_domain (thread_of thread (ls_k s));
               (best, _, s1) = for_range (select_on uninit d) 0 (unat (if ncpu = 0 then 1 else ncpu)) (INVALID_LOGICAL_CORE, 0, s)
      in (best, s1))"

definition logical_core_schedule_notify :: "u32 \<Rightarrow> u32 \<Rightarrow> bool \<Rightarrow> lcore_state \<Rightarrow> lcore_state" where
  "logical_core_schedule_notify lid thread_id starting s =
     (if lid \<ge> MAX_LOGICAL_CORES then s
      else let i = unat lid; (now, s1) = hal_get_timestamp s
      in if starting
         then upd_core i (\<lambda>x. x\<lparr> lc_running_thread := thread_id, lc_state := LOGICAL_CORE_STATE_ACTIVE,
                lc_last_schedule_time := now \<rparr>) s1
         else upd_core i (\<lambda>x. x\<lparr> lc_running_thread := INVALID_THREAD,
                lc_state := (if lc_state x = LOGICAL_CORE_STATE_ACTIVE then LOGICAL_CORE_STATE_ALLOCATED else lc_state x),
                lc_used_time := lc_used_time x + (now - lc_last_schedule_time x) \<rparr>) s1)"

text \<open>
  One round of the quota update; \<open>None\<close> is the division by zero of a core without allotted time.
\<close>

definition quota_overrun :: "u32 \<Rightarrow> logical_core \<Rightarrow> logical_core" where
  "quota_overrun percent x =
     (if percent < 10 then x\<lparr> lc_flags := lc_flags x OR LOGICAL_CORE_FLAG_QUOTA_WARNING \<rparr>
      else if percent < 25
      then x\<lparr> lc_flags := lc_flags x OR LOGICAL_CORE_FLAG_QUOTA_THROTTLED, lc_running_thread := INVALID_THREAD,
              lc_state := LOGICAL_CORE_STATE_ALLOCATED \<rparr>
      else x\<lparr> lc_state := LOGICAL_CORE_STATE_SUSPENDED, lc_flags := lc_flags x OR LOGICAL_CORE_FLAG_QUOTA_EXCEEDED,
              lc_running_thread := INVALID_THREAD \<rparr>)"

definition upd_borrow ::
    "nat \<Rightarrow> (logical_core_borrow_info \<Rightarrow> logical_core_borrow_info) \<Rightarrow> lcore_state \<Rightarrow> lcore_state" where
  "upd_borrow i f s = s\<lparr> ls_borrow := (ls_borrow s)(i := f (ls_borrow s i)) \<rparr>"

definition quota_step :: "u64 \<Rightarrow> nat \<Rightarrow> lcore_state \<Rightarrow> lcore_state option" where
  "quota_step now i s =
     (if lc_state (core_at s i) \<noteq> LOGICAL_CORE_STATE_ACTIVE then Some s
      else let used = now - lc_last_schedule_time (core_at s i);
               s1 = upd_core i (\<lambda>x. x\<lparr> lc_used_time := lc_used_time x + used, lc_last_schedule_time := now \<rparr>) s;
               s2 = (if bi_state (ls_borrow s1 i) = BORROW_STATE_BORROWED
                     then upd_borrow i (\<lambda>b. b\<lparr> bi_quota_used := bi_quota_used b + ucast used \<rparr>) s1 else s1);
               c = core_at s2 i;
               over = lc_used_time c > lc_allocated_time c
      in if over \<and> lc_allocated_time c = 0 then None
      else let overage = lc_used_time c - lc_allocated_time c;
               percent = ucast (overage * 100 div lc_allocated_time c);
               s3 = (if over then upd_core i (quota_overrun percent) s2 else s2)
      in Some (if bi_state (ls_borrow s3 i) = BORROW_STATE_BORROWED \<and> now \<ge> bi_deadline (ls_borrow s3 i)
               then upd_borrow i (\<lambda>b. b\<lparr> bi_state := BORROW_STATE_RETURNING \<rparr>) s3 else s3))"

primrec quota_loop :: "u64 \<Rightarrow> nat \<Rightarrow> nat \<Rightarrow> lcore_state \<Rightarrow> lcore_state option" where
  "quota_loop now i 0 s = Some s"
| "quota_loop now i (Suc n) s = (case quota_step now i s of None \<Rightarrow> None | Some t \<Rightarrow> quota_loop now (Suc i) n t)"

definition logical_core_update_quotas :: "lcore_state \<Rightarrow> lcore_state option" where
  "logical_core_update_quotas s =
     (let (now, s1) = hal_get_timestamp s in quota_loop now 0 (unat MAX_LOGICAL_CORES) s1)"

section \<open>Borrowing\<close>

definition borrowable :: "u32 \<Rightarrow> lcore_state \<Rightarrow> nat \<Rightarrow> bool" where
  "borrowable d s i \<longleftrightarrow> lc_owner_domain (core_at s i) = d \<and> lc_state (core_at s i) = LOGICAL_CORE_STATE_ALLOCATED \<and>
     lc_running_thread (core_at s i) = INVALID_THREAD \<and> bi_state (ls_borrow s i) = BORROW_STATE_NONE \<and>
     lc_flags (core_at s i) AND LOGICAL_CORE_FLAG_MIGRATABLE \<noteq> 0"

definition hic_logical_core_get_borrowable :: "u32 \<Rightarrow> u32 \<Rightarrow> bool \<Rightarrow> lcore_state \<Rightarrow> u32 list hic_result" where
  "hic_logical_core_get_borrowable d max_count out_ok s =
     (if \<not> out_ok then Inl HIC_ERROR_INVALID_PARAM
      else Inr (map of_nat (take (unat max_count) (filter (borrowable d s) [0..<unat MAX_LOGICAL_CORES]))))"

definition hic_logical_core_borrow ::
    "u32 \<Rightarrow> u32 \<Rightarrow> u64 \<Rightarrow> u32 \<Rightarrow> affinity option \<Rightarrow> bool \<Rightarrow> lcore_state \<Rightarrow> u64 hic_result \<times> lcore_state" where
  "hic_logical_core_borrow borrower source duration qta aff out_ok s =
     (if \<not> out_ok then (Inl HIC_ERROR_INVALID_PARAM, s)
      else if borrower = source then (Inl HIC_ERROR_INVALID_PARAM, s)
      else if \<not> domain_is_active borrower (ls_k s) \<or> \<not> domain_is_active source (ls_k s)
      then (Inl HIC_ERROR_INVALID_DOMAIN, s)
      else case hic_logical_core_get_borrowable source 16 True s of
        Inl _ \<Rightarrow> (Inl HIC_ERROR_NO_RESOURCE, s)
      | Inr ids \<Rightarrow>
          (case find (\<lambda>l. case aff of None \<Rightarrow> True | Some m \<Rightarrow> affinity_meet (lc_affinity (core_at s (unat l))) m) ids of
             None \<Rightarrow> (Inl HIC_ERROR_NO_RESOURCE, s)
           | Some lid \<Rightarrow>
               let i = unat lid; core = core_at s i
               in case cap_derive borrower (ucast (lc_capability_handle core)) (CAP_LCORE_BORROW OR CAP_LCORE_USE)
                         True (lcaps s) of
                    (Inl e, c) \<Rightarrow> (Inl e, put_lcaps c s)
                  | (Inr derived, c) \<Rightarrow>
                      let handle = ucast derived; (now, s1) = hal_get_timestamp (put_lcaps c s);
                          s2 = upd_borrow i (\<lambda>_. \<lparr> bi_state = BORROW_STATE_BORROWED,
                                 bi_original_owner = lc_owner_domain core, bi_borrower_domain = borrower,
                                 bi_original_cap_handle = lc_capability_handle core, bi_derived_cap_handle = handle,
                                 bi_start_time = now, bi_duration = duration, bi_deadline = now + duration,
                                 bi_quota_used = 0 \<rparr>) s1
                      in (Inr handle, upd_core i (\<lambda>x. x\<lparr> lc_allocated_time := ucast qta * 10000000,
                            lc_owner_domain := borrower, lc_capability_handle := handle \<rparr>) s2)))"

definition hic_logical_core_return :: "u32 \<Rightarrow> u64 \<Rightarrow> lcore_state \<Rightarrow> unit hic_result \<times> lcore_state" where
  "hic_logical_core_return borrower handle s =
     (case find_first (\<lambda>i. bi_state (ls_borrow s i) = BORROW_STATE_BORROWED \<and>
             bi_borrower_domain (ls_borrow s i) = borrower \<and> bi_derived_cap_handle (ls_borrow s i) = handle)
             0 (unat MAX_LOGICAL_CORES) of
        None \<Rightarrow> (Inl HIC_ERROR_NOT_FOUND, s)
      | Some i \<Rightarrow>
          let s1 = upd_borrow i (\<lambda>b. b\<lparr> bi_state := BORROW_STATE_RETURNING \<rparr>) s;
              s2 = put_lcaps (snd (cap_revoke (ucast handle) (lcaps s1))) s1;
              b = ls_borrow s2 i;
              s3 = upd_core i (\<lambda>x. x\<lparr> lc_owner_domain := bi_original_owner b,
                     lc_capability_handle := bi_original_cap_handle b \<rparr>) s2
          in (Inr (), upd_borrow i (\<lambda>_. borrow_info_zero) s3))"

definition hic_logical_core_get_borrow_info ::
    "u64 \<Rightarrow> bool \<Rightarrow> lcore_state \<Rightarrow> logical_core_borrow_info hic_result" where
  "hic_logical_core_get_borrow_info handle out_ok s =
     (if \<not> out_ok then Inl HIC_ERROR_INVALID_PARAM
      else case find_first (\<lambda>i. lc_capability_handle (core_at s i) = handle) 0 (unat MAX_LOGICAL_CORES) of
        None \<Rightarrow> Inl HIC_ERROR_NOT_FOUND
      | Some i \<Rightarrow> Inr (ls_borrow s i))"

definition expiry_step :: "u64 \<Rightarrow> nat \<Rightarrow> lcore_state \<Rightarrow> lcore_state" where
  "expiry_step now i s =
     (let b = ls_borrow s i
      in if bi_state b = BORROW_STATE_BORROWED \<and> now \<ge> bi_deadline b
         then snd (hic_logical_core_return (bi_borrower_domain b) (bi_derived_cap_handle b) s) else s)"

definition logical_core_check_borrow_expiry :: "lcore_state \<Rightarrow> lcore_state" where
  "logical_core_check_borrow_expiry s =
     (let (now, s1) = hal_get_timestamp s in for_range (expiry_step now) 0 (unat MAX_LOGICAL_CORES) s1)"

section \<open>The migration decision\<close>

record migration_config =
  mc_load_balance_threshold :: u32
  mc_migration_cooldown_ms :: u32
  mc_max_migrations_per_cycle :: u32
  mc_cache_affinity_weight :: u32
  mc_memory_locality_weight :: u32
  mc_enable_predictive :: bool

definition DEFAULT_MIGRATION_CONFIG :: migration_config where
  "DEFAULT_MIGRATION_CONFIG = \<lparr> mc_load_balance_threshold = 20, mc_migration_cooldown_ms = 100,
     mc_max_migrations_per_cycle = 2, mc_cache_affinity_weight = 30, mc_memory_locality_weight = 20,
     mc_enable_predictive = False \<rparr>"

record migration_candidate =
  cd_logical_core_id :: u32
  cd_source_core :: u32
  cd_target_core :: u32
  cd_migration_benefit :: u32
  cd_migration_cost :: u32
  cd_recommended :: bool

definition load_or :: "physical_core_load_info \<Rightarrow> physical_core_load_info hic_result \<Rightarrow> physical_core_load_info" where
  "load_or uninit r = (case r of Inl _ \<Rightarrow> uninit | Inr x \<Rightarrow> x)"

text \<open>\<open>uninit\<close> is the content of a load record that \<open>logical_core_calculate_load\<close> has not filled in.\<close>

definition logical_core_evaluate_migration ::
    "physical_core_load_info \<Rightarrow> u32 \<Rightarrow> u32 \<Rightarrow> migration_config \<Rightarrow> bool \<Rightarrow> lcore_state \<Rightarrow>
      migration_candidate hic_result \<times> lcore_state" where
  "logical_core_evaluate_migration uninit lid target cfg ptrs_ok s =
     (if \<not> ptrs_ok then (Inl HIC_ERROR_INVALID_PARAM, s)
      else let core = core_at s (unat lid);
               cand = \<lparr> cd_logical_core_id = lid, cd_source_core = lc_physical_core core, cd_target_core = target,
                        cd_migration_benefit = 0, cd_migration_cost = 0, cd_recommended = False \<rparr>
      in if lc_flags core AND LOGICAL_CORE_FLAG_MIGRATABLE = 0 \<or> lc_flags core AND LOGICAL_CORE_FLAG_PINNED \<noteq> 0
         then (Inr cand, s)
      else if \<not> affinity_allows (lc_affinity core) target then (Inr cand, s)
      else let (now, s1) = hal_get_timestamp s
      in if now - lc_last_migration_time core < ucast (mc_migration_cooldown_ms cfg) * 1000000 then (Inr cand, s1)
      else let (r1, s2) = logical_core_calculate_load (cd_source_core cand) True s1;
               (r2, s3) = logical_core_calculate_load target True s2;
               diff = sint (li_load_percentage (load_or uninit r1)) - sint (li_load_percentage (load_or uninit r2));
               benefit = (if diff > 0 then of_int diff else 0);
               cache_cost = (if pf_cache_misses (lc_perf core) > 0
                             then ucast (pf_cache_misses (lc_perf core) * ucast (mc_cache_affinity_weight cfg) div 100) else 0);
               cost = cache_cost + ucast (lc_migration_count core * 5)
                        + (if lc_state core = LOGICAL_CORE_STATE_ACTIVE then 20 else 0)
      in (Inr (cand\<lparr> cd_migration_benefit := benefit, cd_migration_cost := cost,
                cd_recommended := (benefit > cost \<and> benefit > mc_load_balance_threshold cfg) \<rparr>), s3))"

text \<open>
  The collection of candidates. The array has room for \<open>MAX_LOGICAL_CORES\<close> of them, and only the
  innermost loop stops when it is full; \<open>None\<close> is a write past its end.
\<close>

fun target_loop ::
    "physical_core_load_info \<Rightarrow> migration_config \<Rightarrow> u32 \<Rightarrow> u32 list \<Rightarrow> migration_candidate list \<times> lcore_state \<Rightarrow>
      (migration_candidate list \<times> lcore_state) option" where
  "target_loop uninit cfg lid [] (cs, s) = Some (cs, s)"
| "target_loop uninit cfg lid (t # ts) (cs, s) =
     (case logical_core_evaluate_migration uninit lid t cfg True s of
        (Inr c, s1) \<Rightarrow>
          if cd_recommended c
          then if length cs \<ge> unat MAX_LOGICAL_CORES then None
               else if length (cs @ [c]) \<ge> unat MAX_LOGICAL_CORES then Some (cs @ [c], s1)
               else target_loop uninit cfg lid ts (cs @ [c], s1)
          else target_loop uninit cfg lid ts (cs, s1)
      | (Inl _, s1) \<Rightarrow> target_loop uninit cfg lid ts (cs, s1))"

primrec source_loop ::
    "physical_core_load_info \<Rightarrow> migration_config \<Rightarrow> u32 list \<Rightarrow> u32 list \<Rightarrow> migration_candidate list \<times> lcore_state \<Rightarrow>
      (migration_candidate list \<times> lcore_state) option" where
  "source_loop uninit cfg targets [] x = Some x"
| "source_loop uninit cfg targets (lid # lids) x =
     (case target_loop uninit cfg lid targets x of
        None \<Rightarrow> None | Some y \<Rightarrow> source_loop uninit cfg targets lids y)"

text \<open>The selection sort: position \<open>i\<close> receives the first entry of greatest net benefit from \<open>i\<close> on.\<close>

definition net_benefit :: "migration_candidate \<Rightarrow> int" where
  "net_benefit c = sint (cd_migration_benefit c) - sint (cd_migration_cost c)"

definition sort_step :: "nat \<Rightarrow> migration_candidate list \<Rightarrow> migration_candidate list" where
  "sort_step i cs =
     (let m = fold (\<lambda>j m. if net_benefit (cs ! j) > net_benefit (cs ! m) then j else m) [Suc i..<length cs] i
      in if m \<noteq> i then cs[i := cs ! m, m := cs ! i] else cs)"

definition sort_candidates :: "migration_candidate list \<Rightarrow> migration_candidate list" where
  "sort_candidates cs = for_range sort_step 0 (unat (of_nat (length cs) - 1 :: u32)) cs"

definition execute_step :: "migration_candidate \<Rightarrow> u32 \<times> lcore_state \<Rightarrow> u32 \<times> lcore_state" where
  "execute_step c = (\<lambda>(n, s).
     if ls_load s (unat (cd_target_core c)) \<ge> 16 then (n, s)
     else let (ok, s1) = logical_core_perform_migration (cd_logical_core_id c) (cd_target_core c) s
          in (if ok then n + 1 else n, s1))"

definition load_of_step ::
    "physical_core_load_info \<Rightarrow> nat \<Rightarrow> (nat \<Rightarrow> physical_core_load_info) \<times> lcore_state \<Rightarrow>
      (nat \<Rightarrow> physical_core_load_info) \<times> lcore_state" where
  "load_of_step uninit i = (\<lambda>(infos, s).
     let (r, s1) = logical_core_calculate_load (of_nat i) True s in (infos(i := load_or uninit r), s1))"

definition logical_core_enhanced_migration_decision ::
    "physical_core_load_info \<Rightarrow> u32 \<Rightarrow> migration_config \<Rightarrow> bool \<Rightarrow> lcore_state \<Rightarrow> (u32 hic_result \<times> lcore_state) option" where
  "logical_core_enhanced_migration_decision uninit ncpu cfg ptrs_ok s =
     (if \<not> ptrs_ok then Some (Inl HIC_ERROR_INVALID_PARAM, s)
      else let s1 = logical_core_check_borrow_expiry s;
               count = (if ncpu = 0 then 1 else ncpu);
               (infos, s2) = for_range (load_of_step uninit) 0 (unat count) (\<lambda>_. uninit, s1);
               pct = (\<lambda>i. li_load_percentage (infos i));
               avg = fold (\<lambda>i t. t + pct i) [0..<unat count] 0 div count;
               thr = mc_load_balance_threshold cfg;
               over = filter (\<lambda>i. pct i > avg + thr) [0..<unat count];
               under = filter (\<lambda>i. \<not> pct i > avg + thr \<and> (pct i < avg - thr \<or> pct i < 20)) [0..<unat count]
      in if over = [] \<or> under = [] then Some (Inr 0, s2)
      else let lids = concat (map (\<lambda>p. map (ls_p2l s2 p) [0..<unat (ls_load s2 p)]) over)
      in case source_loop uninit cfg (map of_nat under) lids ([], s2) of
           None \<Rightarrow> None
         | Some (cs, s3) \<Rightarrow>
             let sorted = sort_candidates cs;
                 m = (if unat (mc_max_migrations_per_cycle cfg) < length cs then unat (mc_max_migrations_per_cycle cfg)
                      else length cs);
                 (n, s4) = fold execute_step (take m sorted) (0, s3)
             in Some (Inr n, s4))"

definition logical_core_migration_decision ::
    "physical_core_load_info \<Rightarrow> u32 \<Rightarrow> lcore_state \<Rightarrow> lcore_state option" where
  "logical_core_migration_decision uninit ncpu s =
     map_option snd (logical_core_enhanced_migration_decision uninit ncpu DEFAULT_MIGRATION_CONFIG True s)"

section \<open>Threads on demand\<close>

definition thread_create_core :: "u32 \<Rightarrow> lcore_state \<Rightarrow> nat option" where
  "thread_create_core d s =
     find_first (\<lambda>i. lc_owner_domain (core_at s i) = d \<and> (lc_state (core_at s i) = LOGICAL_CORE_STATE_ALLOCATED \<or>
       lc_state (core_at s i) = LOGICAL_CORE_STATE_ACTIVE)) 0 (unat MAX_LOGICAL_CORES)"

definition thread_create ::
    "u64 \<Rightarrow> u32 \<Rightarrow> u32 \<Rightarrow> u64 \<Rightarrow> u8 \<Rightarrow> bool \<Rightarrow> lcore_state \<Rightarrow> (u32 hic_result \<times> lcore_state) option" where
  "thread_create exit_handler uninit d entry prio out_ok s =
     (if \<not> out_ok \<or> d \<ge> HIC_DOMAIN_MAX then Some (Inl HIC_ERROR_INVALID_PARAM, s)
      else case (case thread_create_core d s of
                   Some i \<Rightarrow> Some (of_nat i, s)
                 | None \<Rightarrow>
                     (case hic_logical_core_allocate uninit d 1 0 10 None True s of
                        None \<Rightarrow> None
                      | Some (Inl _, s1) \<Rightarrow> Some (INVALID_LOGICAL_CORE, s1)
                      | Some (Inr hs, s1) \<Rightarrow> Some (logical_core_validate_handle d (hd hs) s1, s1))) of
        None \<Rightarrow> None
      | Some (lid, s1) \<Rightarrow> Some
          (case take_thread_slot (ls_k s1) of
             (None, k) \<Rightarrow> (Inl HIC_ERROR_NO_RESOURCE, s1\<lparr> ls_k := k \<rparr>)
           | (Some slot, k) \<Rightarrow>
               (case pmm_alloc_frames 2 True (kpmm k) of
                  (Inl _, p) \<Rightarrow> (Inl HIC_ERROR_NO_RESOURCE, s1\<lparr> ls_k := set_kpmm p k \<rparr>)
                | (Inr stack, p) \<Rightarrow>
                    let k2 = map_stack d stack (set_kpmm p k);
                        (sp, k3) = init_stack exit_handler entry stack k2;
                        k4 = upd_thread slot (\<lambda>_. (new_thread slot d prio lid stack sp)
                               \<lparr> thr_flags := (if lid \<noteq> INVALID_LOGICAL_CORE then THREAD_FLAG_BOUND else 0) \<rparr>) k3
                    in (Inr (of_nat slot), s1\<lparr> ls_k := snd (thread_ready (of_nat slot) k4) \<rparr>))))"

end
