(* ===== verification/Hic_Lcore_Props.thy ===== *)
theory Hic_Lcore_Props
  imports Hic_Lcore Hic_Thread_Props
begin

text \<open>
  Properties of logical cores: the free list is a well-formed doubly linked list of exactly the
  free cores in every history, so that allocation returns; the tables of physical cores stay within
  their bounds; a migration moves one core and nothing else; and what allocation, borrowing and
  quota accounting cannot do.
\<close>

unbundle bit_operations_syntax

section \<open>Access to the state\<close>

lemma core_at_upd_core [simp]: "core_at (upd_core i f s) j = (if j = i then f (core_at s i) else core_at s j)"
  by (simp add: core_at_def upd_core_def upd_lcore_def)

lemma core_at_update [simp]:
  "core_at (put_lcaps c s) = core_at s" "core_at (s\<lparr> ls_l2p := a \<rparr>) = core_at s" "core_at (s\<lparr> ls_p2l := b \<rparr>) = core_at s"
  "core_at (s\<lparr> ls_load := a \<rparr>) = core_at s" "core_at (s\<lparr> ls_free := f \<rparr>) = core_at s"
  "core_at (s\<lparr> ls_free_bitmap := g \<rparr>) = core_at s" "core_at (s\<lparr> ls_free_count := n \<rparr>) = core_at s"
  "core_at (s\<lparr> ls_next_id := n \<rparr>) = core_at s" "core_at (s\<lparr> ls_borrow := h \<rparr>) = core_at s"
  "core_at (s\<lparr> ls_cached_min := n \<rparr>) = core_at s" "core_at (s\<lparr> ls_index := x \<rparr>) = core_at s"
  "core_at (s\<lparr> ls_check_counter := n \<rparr>) = core_at s" "core_at (s\<lparr> ls_ticks := t \<rparr>) = core_at s"
  "core_at (upd_borrow i u s) = core_at s" "core_at (s\<lparr> ls_k := k \<rparr>) = k_lcores k"
  by (simp_all add: core_at_def put_lcaps_def upd_borrow_def fun_eq_iff)

lemma upd_core_fields [simp]:
  "ls_l2p (upd_core i f s) = ls_l2p s" "ls_p2l (upd_core i f s) = ls_p2l s" "ls_load (upd_core i f s) = ls_load s"
  "ls_free (upd_core i f s) = ls_free s" "ls_free_bitmap (upd_core i f s) = ls_free_bitmap s"
  "ls_free_count (upd_core i f s) = ls_free_count s" "ls_borrow (upd_core i f s) = ls_borrow s"
  "ls_cached_min (upd_core i f s) = ls_cached_min s" "ls_index (upd_core i f s) = ls_index s"
  "ls_check_counter (upd_core i f s) = ls_check_counter s" "ls_clock (upd_core i f s) = ls_clock s"
  "ls_ticks (upd_core i f s) = ls_ticks s" "lcaps (upd_core i f s) = lcaps s"
  by (simp_all add: upd_core_def lcaps_def upd_lcore_def)

lemma put_lcaps_fields [simp]:
  "ls_l2p (put_lcaps c s) = ls_l2p s" "ls_p2l (put_lcaps c s) = ls_p2l s" "ls_load (put_lcaps c s) = ls_load s"
  "ls_free (put_lcaps c s) = ls_free s" "ls_borrow (put_lcaps c s) = ls_borrow s"
  "ls_cached_min (put_lcaps c s) = ls_cached_min s" "ls_index (put_lcaps c s) = ls_index s"
  "ls_clock (put_lcaps c s) = ls_clock s" "ls_ticks (put_lcaps c s) = ls_ticks s" "lcaps (put_lcaps c s) = c"
  by (simp_all add: put_lcaps_def lcaps_def)

lemma upd_borrow_fields [simp]:
  "ls_p2l (upd_borrow i f s) = ls_p2l s" "ls_load (upd_borrow i f s) = ls_load s" "ls_free (upd_borrow i f s) = ls_free s"
  "ls_cached_min (upd_borrow i f s) = ls_cached_min s" "ls_index (upd_borrow i f s) = ls_index s"
  "lcaps (upd_borrow i f s) = lcaps s" "ls_k (upd_borrow i f s) = ls_k s"
  by (simp_all add: upd_borrow_def lcaps_def)

lemma lcaps_update [simp]:
  "lcaps (s\<lparr> ls_l2p := a \<rparr>) = lcaps s" "lcaps (s\<lparr> ls_p2l := b \<rparr>) = lcaps s" "lcaps (s\<lparr> ls_load := a \<rparr>) = lcaps s"
  "lcaps (s\<lparr> ls_free := f \<rparr>) = lcaps s" "lcaps (s\<lparr> ls_free_bitmap := g \<rparr>) = lcaps s"
  "lcaps (s\<lparr> ls_free_count := n \<rparr>) = lcaps s" "lcaps (s\<lparr> ls_borrow := h \<rparr>) = lcaps s"
  "lcaps (s\<lparr> ls_cached_min := n \<rparr>) = lcaps s" "lcaps (s\<lparr> ls_index := x \<rparr>) = lcaps s"
  "lcaps (s\<lparr> ls_check_counter := n \<rparr>) = lcaps s" "lcaps (s\<lparr> ls_ticks := t \<rparr>) = lcaps s"
  by (simp_all add: lcaps_def)

section \<open>The free list\<close>

definition hd_opt :: "nat list \<Rightarrow> nat option" where
  "hd_opt xs = (case xs of [] \<Rightarrow> None | x # _ \<Rightarrow> Some x)"

lemma hd_opt_simps [simp]: "hd_opt [] = None" "hd_opt (x # xs) = Some x"
  by (simp_all add: hd_opt_def)

lemma hd_opt_append: "hd_opt (xs @ ys) = (if xs = [] then hd_opt ys else hd_opt xs)"
  by (cases xs) simp_all

primrec dll :: "(nat \<Rightarrow> logical_core) \<Rightarrow> nat option \<Rightarrow> nat list \<Rightarrow> nat option \<Rightarrow> bool" where
  "dll c p [] e = True"
| "dll c p (x # xs) e = (lc_prev (c x) = p \<and> lc_next (c x) = (if xs = [] then e else hd_opt xs) \<and> dll c (Some x) xs e)"

lemma dll_cong:
  assumes "\<And>x. x \<in> set xs \<Longrightarrow> lc_next (c' x) = lc_next (c x) \<and> lc_prev (c' x) = lc_prev (c x)"
  shows "dll c' p xs e = dll c p xs e"
  using assms by (induction xs arbitrary: p) auto

lemma dll_append:
  "dll c p (xs @ ys) e = (dll c p xs (if ys = [] then e else hd_opt ys) \<and>
     dll c (if xs = [] then p else Some (last xs)) ys e)"
proof (induction xs arbitrary: p)
  case Nil
  then show ?case by simp
next
  case (Cons x xs)
  have "(if xs @ ys = [] then e else hd_opt (xs @ ys)) = (if xs = [] then (if ys = [] then e else hd_opt ys) else hd_opt xs)"
    by (auto simp: hd_opt_append)
  then show ?case using Cons by simp
qed

text \<open>The end of a list and the start of a list can be relinked.\<close>

lemma dll_relink_end:
  assumes "dll c p xs e" and "distinct xs" and "xs \<noteq> []"
    and "\<And>x. x \<in> set xs \<Longrightarrow> x \<noteq> last xs \<Longrightarrow> lc_next (c' x) = lc_next (c x)"
    and "\<And>x. x \<in> set xs \<Longrightarrow> lc_prev (c' x) = lc_prev (c x)" and "lc_next (c' (last xs)) = e'"
  shows "dll c' p xs e'"
  using assms
proof (induction xs arbitrary: p)
  case Nil
  then show ?case by simp
next
  case (Cons x xs)
  show ?case
  proof (cases "xs = []")
    case True
    then show ?thesis using Cons.prems by simp
  next
    case False
    then have "x \<noteq> last xs" using Cons.prems(2) last_in_set by fastforce
    moreover have "dll c' (Some x) xs e'" using Cons False by (intro Cons.IH) auto
    ultimately show ?thesis using Cons.prems False by simp
  qed
qed

lemma dll_relink_start:
  assumes "dll c p xs e" and "distinct xs"
    and "\<And>x. x \<in> set xs \<Longrightarrow> lc_next (c' x) = lc_next (c x)"
    and "\<And>x. x \<in> set xs \<Longrightarrow> x \<noteq> hd xs \<Longrightarrow> lc_prev (c' x) = lc_prev (c x)"
    and "xs \<noteq> [] \<Longrightarrow> lc_prev (c' (hd xs)) = p'"
  shows "dll c' p' xs e"
proof (cases xs)
  case Nil
  then show ?thesis by simp
next
  case (Cons x ys)
  have "dll c' (Some x) ys e = dll c (Some x) ys e"
    using assms Cons by (intro dll_cong) auto
  then show ?thesis using assms Cons by simp
qed

definition chain :: "lcore_state \<Rightarrow> nat list \<Rightarrow> bool" where
  "chain s xs \<longleftrightarrow> distinct xs \<and> dll (core_at s) None xs None \<and> ls_free s = hd_opt xs"

lemma chain_cong:
  assumes "chain s xs" and "ls_free s' = ls_free s"
    and "\<And>x. x \<in> set xs \<Longrightarrow> lc_next (core_at s' x) = lc_next (core_at s x) \<and> lc_prev (core_at s' x) = lc_prev (core_at s x)"
  shows "chain s' xs"
  using assms dll_cong [of xs "core_at s'" "core_at s"] by (simp add: chain_def)

lemma init_block_free [simp]: "ls_free (logical_core_init_block i s) = Some (unat i)"
  by (simp add: logical_core_init_block_def Let_def)

lemma init_block_core:
  "core_at (logical_core_init_block i s) j =
     (if j = unat i then logical_core_zero\<lparr> lc_id := i, lc_state := LOGICAL_CORE_STATE_FREE,
                 lc_flags := 0, lc_owner_domain := HIC_INVALID_DOMAIN, lc_capability_handle := CAP_HANDLE_INVALID,
                 lc_running_thread := INVALID_THREAD, lc_physical_core := INVALID_PHYSICAL_CORE,
                 lc_affinity := (\<lambda>j. if j < 4 then 0xFFFFFFFFFFFFFFFF else 0),
                 lc_guaranteed_quota := LOGICAL_CORE_DEFAULT_QUOTA, lc_max_quota := 100,
                 lc_next := ls_free s, lc_prev := (if ls_free s = Some j then Some j else None) \<rparr>
      else if ls_free s = Some j then (core_at s j)\<lparr> lc_prev := Some (unat i) \<rparr> else core_at s j)"
  by (auto simp: logical_core_init_block_def Let_def logical_core_zero_def split: option.splits)

lemma chain_init_block:
  assumes "chain s xs" and "unat i \<notin> set xs"
  shows "chain (logical_core_init_block i s) (unat i # xs)"
proof -
  have f: "ls_free s = hd_opt xs" and d: "distinct xs" and l: "dll (core_at s) None xs None" using assms by (auto simp: chain_def)
  have ne: "ls_free s \<noteq> Some (unat i)" using assms(2) f by (cases xs) auto
  have "dll (core_at (logical_core_init_block i s)) (Some (unat i)) xs None"
  proof (rule dll_relink_start [OF l d])
    show "lc_next (core_at (logical_core_init_block i s) x) = lc_next (core_at s x)" if "x \<in> set xs" for x
      using that assms(2) by (auto simp: init_block_core)
    show "lc_prev (core_at (logical_core_init_block i s) x) = lc_prev (core_at s x)" if "x \<in> set xs" "x \<noteq> hd xs" for x
    proof -
      have "ls_free s \<noteq> Some x" using that f by (cases xs) auto
      then show ?thesis using that assms(2) by (auto simp: init_block_core)
    qed
    show "lc_prev (core_at (logical_core_init_block i s) (hd xs)) = Some (unat i)" if "xs \<noteq> []"
    proof -
      have "hd xs \<noteq> unat i" "ls_free s = Some (hd xs)" using that assms(2) f by (cases xs; auto)+
      then show ?thesis by (simp add: init_block_core)
    qed
  qed
  moreover have "lc_next (core_at (logical_core_init_block i s) (unat i)) = (if xs = [] then None else hd_opt xs)"
    "lc_prev (core_at (logical_core_init_block i s) (unat i)) = None"
    using ne f by (auto simp: init_block_core)
  ultimately show ?thesis using d assms(2) by (simp add: chain_def)
qed

lemma remove_free_fields [simp]:
  "ls_l2p (logical_core_remove_from_free_list i s) = ls_l2p s" "ls_p2l (logical_core_remove_from_free_list i s) = ls_p2l s"
  "ls_load (logical_core_remove_from_free_list i s) = ls_load s" "ls_index (logical_core_remove_from_free_list i s) = ls_index s"
  "ls_cached_min (logical_core_remove_from_free_list i s) = ls_cached_min s"
  "lcaps (logical_core_remove_from_free_list i s) = lcaps s" "ls_borrow (logical_core_remove_from_free_list i s) = ls_borrow s"
  by (auto simp: logical_core_remove_from_free_list_def Let_def split: option.splits)

lemma remove_free_rest:
  "lc_state (core_at (logical_core_remove_from_free_list i s) j) = lc_state (core_at s j)"
  "lc_id (core_at (logical_core_remove_from_free_list i s) j) = lc_id (core_at s j)"
  "lc_flags (core_at (logical_core_remove_from_free_list i s) j) = lc_flags (core_at s j)"
  "lc_guaranteed_quota (core_at (logical_core_remove_from_free_list i s) j) = lc_guaranteed_quota (core_at s j)"
  "lc_physical_core (core_at (logical_core_remove_from_free_list i s) j) = lc_physical_core (core_at s j)"
  by (auto simp: logical_core_remove_from_free_list_def Let_def split: option.splits)

lemma chain_remove:
  assumes "chain s (as @ i # bs)"
  shows "chain (logical_core_remove_from_free_list i s) (as @ bs)"
proof -
  let ?s = "logical_core_remove_from_free_list i s"
  have d: "distinct (as @ i # bs)" and f: "ls_free s = hd_opt (as @ i # bs)" using assms by (auto simp: chain_def)
  have "dll (core_at s) None (as @ i # bs) None" using assms by (simp add: chain_def)
  then have A: "dll (core_at s) None as (Some i)" and B: "dll (core_at s) (Some i) bs None"
    and n: "lc_next (core_at s i) = hd_opt bs" and p: "lc_prev (core_at s i) = (if as = [] then None else Some (last as))"
    by (auto simp: dll_append split: if_splits)
  have la: "as \<noteq> [] \<Longrightarrow> last as \<in> set as" and hb: "bs \<noteq> [] \<Longrightarrow> hd bs \<in> set bs" "bs \<noteq> [] \<Longrightarrow> hd_opt bs = Some (hd bs)"
    by (auto simp: hd_opt_def split: list.splits)
  have disj: "as \<noteq> [] \<Longrightarrow> last as \<notin> set bs" "bs \<noteq> [] \<Longrightarrow> hd bs \<notin> set as"
    using d la hb(1) by (meson disjoint_iff distinct_append list.set_intros(2))+
  have c: "core_at ?s x = (if x = i then (core_at s i)\<lparr> lc_next := None, lc_prev := None \<rparr>
      else (core_at s x)\<lparr> lc_next := (if as \<noteq> [] \<and> x = last as then hd_opt bs else lc_next (core_at s x)),
         lc_prev := (if bs \<noteq> [] \<and> x = hd bs then lc_prev (core_at s i) else lc_prev (core_at s x)) \<rparr>)" for x
    using d la hb unfolding logical_core_remove_from_free_list_def Let_def
    by (cases "as = []"; cases bs) (auto simp: n p)
  have fr: "ls_free ?s = hd_opt (as @ bs)"
    using f d unfolding logical_core_remove_from_free_list_def Let_def
    by (cases "as = []"; cases bs) (auto simp: n p hd_opt_append)
  have "dll (core_at ?s) None as (if bs = [] then None else hd_opt bs)"
  proof (cases "as = []")
    case False
    show ?thesis
    proof (rule dll_relink_end [OF A _ False])
      show "distinct as" using d by simp
      show "lc_next (core_at ?s x) = lc_next (core_at s x)" if "x \<in> set as" "x \<noteq> last as" for x
        using that d by (auto simp: c)
      show "lc_prev (core_at ?s x) = lc_prev (core_at s x)" if "x \<in> set as" for x
        using that d hb by (auto simp: c)
      show "lc_next (core_at ?s (last as)) = (if bs = [] then None else hd_opt bs)"
        using False d la by (auto simp: c)
    qed
  qed simp
  moreover have "dll (core_at ?s) (if as = [] then None else Some (last as)) bs None"
  proof (rule dll_relink_start [OF B])
    show "distinct bs" using d by simp
    show "lc_next (core_at ?s x) = lc_next (core_at s x)" if "x \<in> set bs" for x
      using that d disj by (auto simp: c)
    show "lc_prev (core_at ?s x) = lc_prev (core_at s x)" if "x \<in> set bs" "x \<noteq> hd bs" for x
      using that d by (auto simp: c)
    show "lc_prev (core_at ?s (hd bs)) = (if as = [] then None else Some (last as))" if "bs \<noteq> []"
      using that d hb p by (auto simp: c)
  qed
  ultimately show ?thesis using d fr by (auto simp: chain_def dll_append)
qed

section \<open>The invariant\<close>

abbreviation is_free :: "lcore_state \<Rightarrow> nat \<Rightarrow> bool" where
  "is_free s i \<equiv> lc_state (core_at s i) = LOGICAL_CORE_STATE_FREE"

text \<open>
  The free list runs through exactly the free control blocks, and a free control block is as
  \<open>logical_core_init_block\<close> leaves it.
\<close>

definition pool_ok :: "lcore_state \<Rightarrow> bool" where
  "pool_ok s \<longleftrightarrow> (\<exists>xs. chain s xs \<and> set xs = {i. i < 1024 \<and> is_free s i}) \<and>
     (\<forall>i<1024. lc_id (core_at s i) = of_nat i) \<and>
     (\<forall>i<1024. is_free s i \<longrightarrow> lc_guaranteed_quota (core_at s i) = LOGICAL_CORE_DEFAULT_QUOTA \<and> lc_flags (core_at s i) = 0)"

text \<open>The tables of physical cores are used within their bounds.\<close>

definition lists_typed :: "lcore_state \<Rightarrow> bool" where
  "lists_typed s \<longleftrightarrow> (\<forall>p<256. ls_load s p \<le> 16 \<and> (\<forall>j<16. ls_p2l s p j < MAX_LOGICAL_CORES)) \<and>
     ls_cached_min s < MAX_PHYSICAL_CORES \<and>
     (\<forall>i<1024. lc_physical_core (core_at s i) = INVALID_PHYSICAL_CORE \<or> lc_physical_core (core_at s i) < MAX_PHYSICAL_CORES)"

text \<open>Changes that neither invariant notices.\<close>

definition core_same :: "logical_core \<Rightarrow> logical_core \<Rightarrow> bool" where
  "core_same c c' \<longleftrightarrow> lc_next c' = lc_next c \<and> lc_prev c' = lc_prev c \<and> lc_id c' = lc_id c \<and>
     (lc_state c' = LOGICAL_CORE_STATE_FREE \<longleftrightarrow> lc_state c = LOGICAL_CORE_STATE_FREE) \<and>
     (lc_state c = LOGICAL_CORE_STATE_FREE \<longrightarrow> lc_guaranteed_quota c' = lc_guaranteed_quota c \<and> lc_flags c' = lc_flags c)"

definition pool_same :: "lcore_state \<Rightarrow> lcore_state \<Rightarrow> bool" where
  "pool_same s s' \<longleftrightarrow> ls_free s' = ls_free s \<and> (\<forall>i. core_same (core_at s i) (core_at s' i))"

definition lists_same :: "lcore_state \<Rightarrow> lcore_state \<Rightarrow> bool" where
  "lists_same s s' \<longleftrightarrow> ls_p2l s' = ls_p2l s \<and> ls_load s' = ls_load s \<and> ls_cached_min s' = ls_cached_min s \<and>
     (\<forall>i. lc_physical_core (core_at s' i) = lc_physical_core (core_at s i))"

definition same :: "lcore_state \<Rightarrow> lcore_state \<Rightarrow> bool" where
  "same s s' \<longleftrightarrow> pool_same s s' \<and> lists_same s s'"

definition lcore_inv :: "lcore_state \<Rightarrow> bool" where
  "lcore_inv s \<longleftrightarrow> pool_ok s \<and> lists_typed s"

lemma core_same_refl [simp]: "core_same c c"
  by (simp add: core_same_def)

lemma core_same_trans: "core_same a b \<Longrightarrow> core_same b c \<Longrightarrow> core_same a c"
  by (auto simp: core_same_def)

lemma same_refl [simp]: "same s s" "pool_same s s" "lists_same s s"
  by (simp_all add: same_def pool_same_def lists_same_def)

lemma pool_same_trans: "pool_same a b \<Longrightarrow> pool_same b c \<Longrightarrow> pool_same a c"
  unfolding pool_same_def by (auto intro: core_same_trans)

lemma same_trans: "same a b \<Longrightarrow> same b c \<Longrightarrow> same a c"
  unfolding same_def by (auto intro: pool_same_trans simp: lists_same_def)

lemma same_upd_core:
  assumes "core_same (core_at s i) (f (core_at s i))" and "lc_physical_core (f (core_at s i)) = lc_physical_core (core_at s i)"
  shows "same s (upd_core i f s)"
  using assms by (simp add: same_def pool_same_def lists_same_def)

lemma same_free:
  "same s s' \<Longrightarrow> is_free s' i = is_free s i"
  by (auto simp: same_def pool_same_def core_same_def)

lemma pool_ok_same:
  assumes "pool_ok s" and "pool_same s s'"
  shows "pool_ok s'"
proof -
  obtain xs where xs: "chain s xs" "set xs = {i. i < 1024 \<and> is_free s i}" using assms(1) by (auto simp: pool_ok_def)
  have "chain s' xs" using assms(2) by (intro chain_cong [OF xs(1)]) (auto simp: pool_same_def core_same_def)
  then show ?thesis using assms xs(2) unfolding pool_ok_def pool_same_def core_same_def by auto
qed

lemma lists_typed_same: "lists_typed s \<Longrightarrow> lists_same s s' \<Longrightarrow> lists_typed s'"
  by (simp add: lists_typed_def lists_same_def)

lemma lcore_inv_same: "lcore_inv s \<Longrightarrow> same s s' \<Longrightarrow> lcore_inv s'"
  using pool_ok_same lists_typed_same by (auto simp: lcore_inv_def same_def)

lemma timestamp_same [simp]: "same s (snd (hal_get_timestamp s))" "core_at (snd (hal_get_timestamp s)) = core_at s"
  by (simp_all add: hal_get_timestamp_def same_def pool_same_def lists_same_def)

lemma put_lcaps_same [simp]: "same s (put_lcaps c s)"
  by (simp add: same_def pool_same_def lists_same_def)

lemma upd_borrow_same [simp]: "same s (upd_borrow i f s)"
  by (simp add: same_def pool_same_def lists_same_def)

lemma for_range_same:
  assumes "\<And>i s. same s (f i s)"
  shows "same s (for_range f i n s)"
proof (induction n arbitrary: i s)
  case 0
  then show ?case by simp
next
  case (Suc n)
  then show ?case using same_trans [OF assms Suc.IH] by simp
qed

section \<open>Operations the invariant does not notice\<close>

lemma validate_not_free:
  assumes "logical_core_validate_handle d h s \<noteq> INVALID_LOGICAL_CORE"
  shows "logical_core_validate_handle d h s < MAX_LOGICAL_CORES" "\<not> is_free s (unat (logical_core_validate_handle d h s))"
    "lc_owner_domain (core_at s (unat (logical_core_validate_handle d h s))) = d"
  using assms by (auto simp: logical_core_validate_handle_def Let_def not_le split: if_splits sum.splits)

lemma set_affinity_same: "same s (snd (hic_logical_core_set_affinity h aff s))"
  by (auto simp: hic_logical_core_set_affinity_def split: option.splits sum.splits intro!: same_upd_core simp: core_same_def)

lemma reset_perf_same: "same s (snd (hic_logical_core_reset_perf h s))"
  by (auto simp: hic_logical_core_reset_perf_def split: sum.splits intro!: same_upd_core simp: core_same_def)

lemma notify_same:
  assumes "\<not> is_free s (unat lid)"
  shows "same s (logical_core_schedule_notify lid t st s)"
proof -
  have "same s (upd_core (unat lid) f (snd (hal_get_timestamp s)))"
    if "core_same (core_at s (unat lid)) (f (core_at s (unat lid)))"
      "lc_physical_core (f (core_at s (unat lid))) = lc_physical_core (core_at s (unat lid))" for f
    by (rule same_trans [OF timestamp_same(1)]) (auto intro!: same_upd_core simp: that)
  then show ?thesis using assms
    by (auto simp: logical_core_schedule_notify_def Let_def core_same_def case_prod_beta)
qed

lemma calculate_load_same: "same s (snd (logical_core_calculate_load p ok s))"
  by (auto simp: logical_core_calculate_load_def Let_def hal_get_timestamp_def same_def pool_same_def lists_same_def split: prod.splits)

lemma quota_step_same:
  assumes "quota_step now i s = Some s'"
  shows "same s s'"
proof -
  let ?s1 = "upd_core i (\<lambda>x. x\<lparr> lc_used_time := lc_used_time x + (now - lc_last_schedule_time (core_at s i)), lc_last_schedule_time := now \<rparr>) s"
  let ?s2 = "if bi_state (ls_borrow ?s1 i) = BORROW_STATE_BORROWED
     then upd_borrow i (\<lambda>b. b\<lparr> bi_quota_used := bi_quota_used b + ucast (now - lc_last_schedule_time (core_at s i)) \<rparr>) ?s1 else ?s1"
  have q: "same t (upd_core i (quota_overrun pc) t)" if "lc_state (core_at t i) = LOGICAL_CORE_STATE_ACTIVE" for t pc
    using that by (intro same_upd_core) (auto simp: core_same_def quota_overrun_def)
  show ?thesis
  proof (cases "lc_state (core_at s i) = LOGICAL_CORE_STATE_ACTIVE")
    case True
    have 1: "same s ?s1" by (intro same_upd_core) (auto simp: core_same_def)
    have 2: "same ?s1 ?s2" by simp
    have a: "lc_state (core_at ?s2 i) = LOGICAL_CORE_STATE_ACTIVE" using True by simp
    have 3: "same s ?s2" by (rule same_trans [OF 1 2])
    have 4: "same s (if b then upd_core i (quota_overrun pc) ?s2 else ?s2)" for b pc
      using same_trans [OF 3 q [OF a]] 3 by simp
    have 5: "same s (if c then upd_borrow i f (if b then upd_core i (quota_overrun pc) ?s2 else ?s2)
        else (if b then upd_core i (quota_overrun pc) ?s2 else ?s2))" for b c f pc
      using same_trans [OF 4 upd_borrow_same] 4 by simp
    have outer: "s' = x" if "(if a then Some s else if b then None else Some x) = Some s'" "\<not> a" for a b x
      using that by (auto split: if_splits)
    show ?thesis
      unfolding outer [OF assms [unfolded quota_step_def Let_def], unfolded not_not, OF True] by (rule 5)
  next
    case False
    then show ?thesis using assms by (simp add: quota_step_def)
  qed
qed

lemma quota_loop_same: "quota_loop now i n s = Some s' \<Longrightarrow> same s s'"
  by (induction n arbitrary: i s) (auto split: option.splits dest: quota_step_same intro: same_trans)

lemma update_quotas_same: "logical_core_update_quotas s = Some s' \<Longrightarrow> same s s'"
  unfolding logical_core_update_quotas_def Let_def case_prod_beta
  by (rule same_trans [OF timestamp_same(1) quota_loop_same])

lemma borrow_same: "same s (snd (hic_logical_core_borrow b d t q aff ok s))"
proof -
  have "same s (upd_core i (\<lambda>x. x\<lparr> lc_allocated_time := w, lc_owner_domain := b, lc_capability_handle := h \<rparr>)
      (upd_borrow i f (snd (hal_get_timestamp (put_lcaps c s)))))" for i w h f c
    by (rule same_trans [OF same_trans [OF same_trans [OF put_lcaps_same timestamp_same(1)] upd_borrow_same] same_upd_core])
       (simp_all add: core_same_def)
  then show ?thesis
    by (auto simp: hic_logical_core_borrow_def Let_def case_prod_beta split: sum.splits option.splits)
qed

lemma return_same: "same s (snd (hic_logical_core_return b h s))"
proof -
  have "same s (upd_borrow i g (upd_core i (\<lambda>x. x\<lparr> lc_owner_domain := w, lc_capability_handle := h' \<rparr>)
      (put_lcaps c (upd_borrow i f s))))" for i g w h' c f
    by (rule same_trans [OF same_trans [OF same_trans [OF upd_borrow_same put_lcaps_same] same_upd_core] upd_borrow_same])
       (simp_all add: core_same_def)
  then show ?thesis by (auto simp: hic_logical_core_return_def Let_def split: option.splits)
qed

lemma expiry_same: "same s (logical_core_check_borrow_expiry s)"
proof -
  have "same t (expiry_step now i t)" for now i t
    using return_same by (simp add: expiry_step_def Let_def)
  then show ?thesis
    unfolding logical_core_check_borrow_expiry_def Let_def case_prod_beta
    by (intro same_trans [OF timestamp_same(1) for_range_same])
qed

section \<open>Taking a core out of the pool and putting it back\<close>

text \<open>The pool without core \<open>i\<close>, about which nothing is said but its identifier.\<close>

definition pool_minus :: "lcore_state \<Rightarrow> nat \<Rightarrow> bool" where
  "pool_minus s i \<longleftrightarrow> (\<exists>xs. chain s xs \<and> set xs = {j. j < 1024 \<and> j \<noteq> i \<and> is_free s j}) \<and>
     (\<forall>j<1024. lc_id (core_at s j) = of_nat j) \<and>
     (\<forall>j<1024. j \<noteq> i \<longrightarrow> is_free s j \<longrightarrow>
        lc_guaranteed_quota (core_at s j) = LOGICAL_CORE_DEFAULT_QUOTA \<and> lc_flags (core_at s j) = 0)"

lemma pool_minus_iff:
  assumes "\<not> is_free s i"
  shows "pool_minus s i = pool_ok s"
proof -
  have e: "{j. j < 1024 \<and> j \<noteq> i \<and> is_free s j} = {j. j < 1024 \<and> is_free s j}" using assms by auto
  show ?thesis unfolding pool_ok_def pool_minus_def e using assms by (intro conj_cong refl) auto
qed

lemma pool_minus_remove:
  assumes "pool_ok s" and "i < 1024" and "is_free s i"
  shows "pool_minus (logical_core_remove_from_free_list i s) i"
proof -
  obtain xs where xs: "chain s xs" "set xs = {i. i < 1024 \<and> is_free s i}" using assms(1) by (auto simp: pool_ok_def)
  then have "i \<in> set xs" using assms by simp
  then obtain as bs where s: "xs = as @ i # bs" by (auto simp: in_set_conv_decomp)
  have "distinct xs" using xs(1) by (simp add: chain_def)
  then have "set (as @ bs) = set xs - {i}" unfolding s by auto
  then have "set (as @ bs) = {j. j < 1024 \<and> j \<noteq> i \<and> is_free (logical_core_remove_from_free_list i s) j}"
    unfolding xs(2) by (auto simp: remove_free_rest)
  then show ?thesis using chain_remove [OF xs(1) [unfolded s]] assms(1)
    unfolding pool_minus_def pool_ok_def remove_free_rest by blast
qed

lemma pool_minus_upd:
  assumes "pool_minus s i" and "lc_id (f (core_at s i)) = lc_id (core_at s i)"
  shows "pool_minus (upd_core i f s) i"
proof -
  obtain xs where xs: "chain s xs" "set xs = {j. j < 1024 \<and> j \<noteq> i \<and> is_free s j}" using assms(1) by (auto simp: pool_minus_def)
  have "chain (upd_core i f s) xs" using xs(2) by (intro chain_cong [OF xs(1)]) auto
  moreover have "set xs = {j. j < 1024 \<and> j \<noteq> i \<and> is_free (upd_core i f s) j}" using xs(2) by auto
  ultimately show ?thesis using assms unfolding pool_minus_def by auto
qed

lemma pool_minus_cong:
  assumes "pool_minus s i" and "core_at s' = core_at s" and "ls_free s' = ls_free s"
  shows "pool_minus s' i"
  using assms unfolding pool_minus_def chain_def by simp

lemma pool_init_block:
  assumes "pool_minus s (unat i)" and "i < MAX_LOGICAL_CORES"
  shows "pool_ok (logical_core_init_block i s)"
proof -
  let ?s = "logical_core_init_block i s"
  obtain xs where xs: "chain s xs" "set xs = {j. j < 1024 \<and> j \<noteq> unat i \<and> is_free s j}" using assms(1) by (auto simp: pool_minus_def)
  have i: "unat i < 1024" using assms(2) by (simp add: hic_consts word_less_nat_alt)
  have c: "chain ?s (unat i # xs)" using xs by (intro chain_init_block) auto
  have o: "lc_state (core_at ?s j) = lc_state (core_at s j)" "lc_flags (core_at ?s j) = lc_flags (core_at s j)"
    "lc_guaranteed_quota (core_at ?s j) = lc_guaranteed_quota (core_at s j)" "lc_id (core_at ?s j) = lc_id (core_at s j)" if "j \<noteq> unat i" for j
    using that by (auto simp: init_block_core)
  have u: "is_free ?s (unat i)" "lc_flags (core_at ?s (unat i)) = 0" "lc_id (core_at ?s (unat i)) = i"
    "lc_guaranteed_quota (core_at ?s (unat i)) = LOGICAL_CORE_DEFAULT_QUOTA"
    by (auto simp: init_block_core logical_core_zero_def)
  have "set (unat i # xs) = {j. j < 1024 \<and> is_free ?s j}"
  proof (rule set_eqI)
    fix j show "j \<in> set (unat i # xs) \<longleftrightarrow> j \<in> {j. j < 1024 \<and> is_free ?s j}"
      using i u(1) o(1) [of j] xs(2) by (cases "j = unat i") auto
  qed
  moreover have "lc_id (core_at ?s j) = of_nat j" if "j < 1024" for j
    using that u(3) o(4) [of j] assms(1) by (cases "j = unat i") (auto simp: pool_minus_def)
  moreover have "lc_guaranteed_quota (core_at ?s j) = LOGICAL_CORE_DEFAULT_QUOTA \<and> lc_flags (core_at ?s j) = 0"
    if "j < 1024" "is_free ?s j" for j
    using that u o [of j] assms(1) by (cases "j = unat i") (auto simp: pool_minus_def)
  ultimately show ?thesis using c unfolding pool_ok_def by blast
qed

lemma pool_free_again:
  assumes "pool_minus s (unat i)" and "i < MAX_LOGICAL_CORES"
  shows "pool_ok (free_core_again i s)"
  unfolding free_core_again_def by (rule pool_init_block [OF pool_minus_upd [OF assms(1)] assms(2)]) simp

section \<open>The lists of physical cores\<close>

lemma append_fields [simp]:
  "core_at (append_to_physical p lid s) = core_at s" "ls_free (append_to_physical p lid s) = ls_free s"
  "ls_cached_min (append_to_physical p lid s) = ls_cached_min s" "lcaps (append_to_physical p lid s) = lcaps s"
  by (simp_all add: append_to_physical_def Let_def)

lemma remove_fields [simp]:
  "core_at (remove_from_physical p lid s) = core_at s" "ls_free (remove_from_physical p lid s) = ls_free s"
  "ls_cached_min (remove_from_physical p lid s) = ls_cached_min s" "lcaps (remove_from_physical p lid s) = lcaps s"
  by (simp_all add: remove_from_physical_def Let_def)

lemma lists_typed_append:
  assumes "lists_typed s" and "ls_load s (unat p) < 16" and "lid < MAX_LOGICAL_CORES"
  shows "lists_typed (append_to_physical p lid s)"
proof -
  have "ls_load s (unat p) + 1 \<le> 16" using assms(2) by (rule inc_le)
  moreover have "unat (ls_load s (unat p)) < 16" using assms(2) by (simp add: word_less_nat_alt)
  ultimately show ?thesis using assms unfolding lists_typed_def append_to_physical_def Let_def by simp
qed

lemma remove_load_le: "ls_load (remove_from_physical p lid s) q \<le> ls_load s q"
proof -
  have "ls_load s (unat p) - 1 \<le> ls_load s (unat p)" if "ucast (ls_index s (unat lid)) < ls_load s (unat p)"
  proof -
    have "ls_load s (unat p) \<noteq> 0" using that by auto
    then show ?thesis by (simp add: word_le_nat_alt unat_minus_one)
  qed
  then show ?thesis by (auto simp: remove_from_physical_def Let_def)
qed

lemma lists_typed_remove:
  assumes "lists_typed s" and "unat p < 256"
  shows "lists_typed (remove_from_physical p lid s)"
proof -
  let ?s = "remove_from_physical p lid s" and ?load = "ls_load s (unat p)"
  have l: "ls_load ?s q \<le> 16" if "q < 256" for q
    using that assms(1) order.trans [OF remove_load_le] unfolding lists_typed_def by blast
  have "ls_p2l s (unat p) (unat (?load - 1)) < MAX_LOGICAL_CORES" if "ucast (ls_index s (unat lid)) < ?load"
  proof -
    have "?load \<noteq> 0" "?load \<le> 16" using that assms by (auto simp: lists_typed_def)
    then have "unat (?load - 1) < 16" by (simp add: unat_minus_one word_le_nat_alt)
    then show ?thesis using assms by (simp add: lists_typed_def)
  qed
  then have "ls_p2l ?s q j < MAX_LOGICAL_CORES" if "q < 256" "j < 16" for q j
    using that assms(1) unfolding remove_from_physical_def Let_def lists_typed_def by auto
  then show ?thesis using l assms(1) unfolding lists_typed_def by simp
qed

lemma invalid_physical_not_less [simp]: "\<not> INVALID_PHYSICAL_CORE < MAX_PHYSICAL_CORES"
  by (simp add: hic_consts)

lemma physical_less: "(p :: u32) < MAX_PHYSICAL_CORES \<longleftrightarrow> unat p < 256"
  by (simp add: hic_consts word_less_nat_alt)

lemma logical_less: "(i :: u32) < MAX_LOGICAL_CORES \<longleftrightarrow> unat i < 1024"
  by (simp add: hic_consts word_less_nat_alt)

section \<open>Migration\<close>

lemma perform_migration_keeps:
  assumes "logical_core_perform_migration lid target s = (ok, s')"
  shows "lc_flags (core_at s' i) = lc_flags (core_at s i)"
    and "\<not> is_free s (unat lid) \<Longrightarrow> pool_same s s'"
    and "lists_typed s \<Longrightarrow> lists_typed s'"
proof -
  show "lc_flags (core_at s' i) = lc_flags (core_at s i)"
    using assms by (auto simp: logical_core_perform_migration_def Let_def hal_get_timestamp_def split: if_splits)
  show "pool_same s s'" if "\<not> is_free s (unat lid)"
    using that assms by (auto simp: logical_core_perform_migration_def Let_def hal_get_timestamp_def pool_same_def core_same_def split: if_splits)
  show "lists_typed s'" if typed: "lists_typed s"
  proof (cases ok)
    case False
    then show ?thesis using assms that by (auto simp: logical_core_perform_migration_def Let_def split: if_splits prod.splits)
  next
    case True
    let ?old = "lc_physical_core (core_at s (unat lid))"
    have g: "lid < MAX_LOGICAL_CORES" "target < MAX_PHYSICAL_CORES" "ls_load s (unat target) < 16"
      using assms True by (auto simp: logical_core_perform_migration_def Let_def not_le split: if_splits prod.splits)
    let ?s1 = "upd_core (unat lid) (\<lambda>x. x\<lparr> lc_state := LOGICAL_CORE_STATE_MIGRATING \<rparr>) s"
    let ?s2 = "if ?old \<noteq> INVALID_PHYSICAL_CORE then remove_from_physical ?old lid ?s1 else ?s1"
    have t1: "lists_typed ?s1" using typed by (auto simp: lists_typed_def)
    moreover have "unat ?old < 256" if "?old \<noteq> INVALID_PHYSICAL_CORE"
      using that typed g(1) by (auto simp: lists_typed_def physical_less [symmetric] logical_less)
    ultimately have t2: "lists_typed ?s2" by (simp add: lists_typed_remove)
    have "ls_load ?s2 (unat target) \<le> ls_load s (unat target)"
      using remove_load_le [of ?old lid ?s1 "unat target"] by simp
    then have "ls_load ?s2 (unat target) < 16" using g(3) by (rule order.strict_trans1)
    then have t3: "lists_typed (append_to_physical target lid ?s2)" by (rule lists_typed_append [OF t2 _ g(1)])
    have f: "ls_load s' = ls_load (append_to_physical target lid ?s2)" "ls_p2l s' = ls_p2l (append_to_physical target lid ?s2)"
      "ls_cached_min s' = ls_cached_min s"
      "\<And>j. lc_physical_core (core_at s' j) = (if j = unat lid then target else lc_physical_core (core_at s j))"
      using assms True unfolding logical_core_perform_migration_def Let_def hal_get_timestamp_def
      by (auto split: if_splits)
    show ?thesis using t3 g(2) typed unfolding lists_typed_def f by auto
  qed
qed

lemma perform_migration_inv:
  assumes "logical_core_perform_migration lid target s = (ok, s')" and "lcore_inv s" and "\<not> is_free s (unat lid)"
  shows "lcore_inv s'"
  using perform_migration_keeps [OF assms(1)] assms(2,3) pool_ok_same by (auto simp: lcore_inv_def)

lemma checked_not_free:
  assumes "checked_core h r s = Inr lid"
  shows "\<not> is_free s (unat lid)" "lid < MAX_LOGICAL_CORES"
  using assms validate_not_free [of "caller_domain s" h s]
  by (auto simp: checked_core_def Let_def split: if_splits sum.splits)

lemma migrate_inv:
  assumes "lcore_inv s"
  shows "lcore_inv (snd (hic_logical_core_migrate h target s))"
  using assms perform_migration_inv [OF prod.collapse [symmetric] assms checked_not_free(1)]
  by (auto simp: hic_logical_core_migrate_def Let_def case_prod_beta split: sum.splits)

lemma evaluate_keeps:
  assumes "logical_core_evaluate_migration u lid t cfg ok s = (r, s')"
  shows "core_at s' = core_at s" and "same s s'"
    and "r = Inr c \<Longrightarrow> cd_recommended c \<Longrightarrow> lc_flags (core_at s (unat lid)) AND LOGICAL_CORE_FLAG_MIGRATABLE \<noteq> 0 \<and>
      lc_flags (core_at s (unat lid)) AND LOGICAL_CORE_FLAG_PINNED = 0 \<and> cd_logical_core_id c = lid \<and> cd_target_core c = t"
proof -
  have l: "core_at (snd (logical_core_calculate_load p b z)) = core_at z" for p b z
    by (auto simp: logical_core_calculate_load_def Let_def hal_get_timestamp_def case_prod_beta)
  show "core_at s' = core_at s"
    using assms by (auto simp: logical_core_evaluate_migration_def Let_def l case_prod_beta split: if_splits)
  have "same s (snd (logical_core_calculate_load t True (snd (logical_core_calculate_load q True (snd (hal_get_timestamp s))))))" for q
    by (rule same_trans [OF same_trans [OF timestamp_same(1) calculate_load_same] calculate_load_same])
  then show "same s s'"
    using assms by (auto simp: logical_core_evaluate_migration_def Let_def case_prod_beta split: if_splits)
  show "lc_flags (core_at s (unat lid)) AND LOGICAL_CORE_FLAG_MIGRATABLE \<noteq> 0 \<and>
      lc_flags (core_at s (unat lid)) AND LOGICAL_CORE_FLAG_PINNED = 0 \<and> cd_logical_core_id c = lid \<and> cd_target_core c = t"
    if "r = Inr c" "cd_recommended c"
    using assms that by (auto simp: logical_core_evaluate_migration_def Let_def case_prod_beta split: if_splits)
qed

text \<open>A core that may be migrated: it carries the flag for it and is not pinned.\<close>

definition movable :: "lcore_state \<Rightarrow> u32 \<Rightarrow> bool" where
  "movable s lid \<longleftrightarrow> lc_flags (core_at s (unat lid)) AND LOGICAL_CORE_FLAG_MIGRATABLE \<noteq> 0 \<and>
     lc_flags (core_at s (unat lid)) AND LOGICAL_CORE_FLAG_PINNED = 0"

lemma target_loop_keeps:
  assumes "target_loop u cfg lid ts (cs, s) = Some (cs', s')" and "\<forall>c\<in>set cs. movable s (cd_logical_core_id c)"
  shows "core_at s' = core_at s \<and> same s s' \<and> (\<forall>c\<in>set cs'. movable s (cd_logical_core_id c))"
  using assms
proof (induction ts arbitrary: cs s)
  case Nil
  then show ?case by simp
next
  case (Cons t ts)
  obtain r s1 where e: "logical_core_evaluate_migration u lid t cfg True s = (r, s1)" by fastforce
  note k = evaluate_keeps [OF e]
  have m: "movable s1 = movable s" using k(1) by (simp add: movable_def fun_eq_iff)
  have skip: ?case if "target_loop u cfg lid ts (cs, s1) = Some (cs', s')"
    using Cons.IH [OF that] Cons.prems(2) k(1,2) m by (auto intro: same_trans)
  show ?case
  proof (cases r)
    case (Inl er)
    then show ?thesis using Cons.prems(1) e by (intro skip) simp
  next
    case (Inr c)
    show ?thesis
    proof (cases "cd_recommended c")
      case False
      then show ?thesis using Cons.prems(1) e Inr by (intro skip) simp
    next
      case True
      then have mc: "movable s (cd_logical_core_id c)" using k(3) [OF Inr] by (simp add: movable_def)
      have full: "\<not> unat MAX_LOGICAL_CORES \<le> length cs" using Cons.prems(1) e Inr True by (auto split: if_splits)
      show ?thesis
      proof (cases "unat MAX_LOGICAL_CORES \<le> length (cs @ [c])")
        case last: True
        then have "cs' = cs @ [c]" "s' = s1" using Cons.prems(1) e Inr True full by simp_all
        then show ?thesis using Cons.prems(2) k(1,2) mc by simp
      next
        case False
        then have "target_loop u cfg lid ts (cs @ [c], s1) = Some (cs', s')" using Cons.prems(1) e Inr True full by simp
        from Cons.IH [OF this] show ?thesis using Cons.prems(2) k(1,2) m mc by (auto intro: same_trans)
      qed
    qed
  qed
qed

lemma source_loop_keeps:
  assumes "source_loop u cfg ts lids (cs, s) = Some (cs', s')" and "\<forall>c\<in>set cs. movable s (cd_logical_core_id c)"
  shows "core_at s' = core_at s \<and> same s s' \<and> (\<forall>c\<in>set cs'. movable s (cd_logical_core_id c))"
  using assms
proof (induction lids arbitrary: cs s)
  case Nil
  then show ?case by simp
next
  case (Cons l lids)
  then obtain cs1 s1 where 1: "target_loop u cfg l ts (cs, s) = Some (cs1, s1)" "source_loop u cfg ts lids (cs1, s1) = Some (cs', s')"
    by (auto split: option.splits)
  note k = target_loop_keeps [OF 1(1) Cons.prems(2)]
  then have "movable s1 = movable s" by (simp add: movable_def fun_eq_iff)
  then show ?case using Cons.IH [OF 1(2)] k by (auto intro: same_trans)
qed

text \<open>The position of the greatest net benefit from \<open>i\<close> on.\<close>

lemma max_index_bound:
  "fold (\<lambda>j m. if g (cs ! j) > g (cs ! m) then j else m) [n..<length cs] m0 = m0 \<or>
   (let m = fold (\<lambda>j m. if g (cs ! j) > g (cs ! m) then j else m) [n..<length cs] m0 in n \<le> m \<and> m < length cs)"
  for g :: "'a \<Rightarrow> int" and cs :: "'a list"
proof -
  have "fold (\<lambda>j m. if g (cs ! j) > g (cs ! m) then j else m) js m0 = m0 \<or>
      fold (\<lambda>j m. if g (cs ! j) > g (cs ! m) then j else m) js m0 \<in> set js" for js
    by (induction js arbitrary: m0) auto
  from this [of "[n..<length cs]"] show ?thesis by (auto simp: Let_def)
qed

lemma sort_step_set: "set (sort_step i cs) = set cs"
proof -
  let ?m = "fold (\<lambda>j m. if net_benefit (cs ! j) > net_benefit (cs ! m) then j else m) [Suc i..<length cs] i"
  have "?m = i \<or> (Suc i \<le> ?m \<and> ?m < length cs)" using max_index_bound [of net_benefit cs "Suc i" i] by (simp add: Let_def)
  then show ?thesis using set_swap [of i cs ?m] by (auto simp: sort_step_def Let_def)
qed

lemma sort_candidates_set: "set (sort_candidates cs) = set cs"
proof -
  have "set (for_range sort_step i n cs) = set cs" for i n by (induction n arbitrary: i cs) (auto simp: sort_step_set)
  then show ?thesis by (simp add: sort_candidates_def)
qed

lemma movable_not_free: "pool_ok s \<Longrightarrow> unat lid < 1024 \<Longrightarrow> movable s lid \<Longrightarrow> \<not> is_free s (unat lid)"
  by (auto simp: pool_ok_def movable_def)

lemma execute_step_keeps:
  assumes "execute_step c (n, s) = (n', s')" and "lcore_inv s" and "movable s (cd_logical_core_id c)"
  shows "lcore_inv s' \<and> movable s' = movable s \<and> (n' = n \<or> n' = n + 1) \<and> ls_clock s' = ls_clock s"
proof -
  obtain ok s1 where m: "logical_core_perform_migration (cd_logical_core_id c) (cd_target_core c) s = (ok, s1)" by fastforce
  have "lcore_inv s1"
  proof (cases "unat (cd_logical_core_id c) < 1024")
    case True
    then have "\<not> is_free s (unat (cd_logical_core_id c))"
      using movable_not_free assms(2,3) by (simp add: lcore_inv_def)
    then show ?thesis by (rule perform_migration_inv [OF m assms(2)])
  next
    case False
    then have "s1 = s" using m by (simp add: logical_core_perform_migration_def logical_less [symmetric] not_less)
    then show ?thesis using assms(2) by simp
  qed
  moreover have "movable s1 = movable s"
    using perform_migration_keeps(1) [OF m] by (simp add: movable_def fun_eq_iff)
  moreover have "ls_clock s1 = ls_clock s"
    using m by (auto simp: logical_core_perform_migration_def Let_def hal_get_timestamp_def append_to_physical_def
        remove_from_physical_def split: if_splits)
  ultimately show ?thesis using assms m by (auto simp: execute_step_def split: if_splits)
qed

lemma execute_keeps:
  assumes "fold execute_step cs (n, s) = (n', s')" and "lcore_inv s" and "\<forall>c\<in>set cs. movable s (cd_logical_core_id c)"
  shows "lcore_inv s' \<and> (\<exists>k\<le>length cs. n' = n + of_nat k)"
  using assms
proof (induction cs arbitrary: n s)
  case Nil
  then show ?case by (auto intro!: exI [of _ 0])
next
  case (Cons c cs)
  obtain n1 s1 where e: "execute_step c (n, s) = (n1, s1)" by fastforce
  note k = execute_step_keeps [OF e Cons.prems(2)]
  have i: "lcore_inv s1" "movable s1 = movable s" "n1 = n \<or> n1 = n + 1" using k Cons.prems(3) by auto
  have "lcore_inv s' \<and> (\<exists>k\<le>length cs. n' = n1 + of_nat k)"
    using Cons.IH [OF _ i(1)] Cons.prems e i(2) by simp
  then obtain j where j: "lcore_inv s'" "j \<le> length cs" "n' = n1 + of_nat j" by blast
  then have "n' = n + of_nat j \<or> n' = n + of_nat (Suc j)" using i(3) by auto
  then show ?case using j(1,2) by (metis Suc_le_mono le_SucI length_Cons)
qed

lemma load_of_keeps:
  assumes "for_range (load_of_step u) i n (f, s) = (g, s')"
  shows "same s s' \<and> core_at s' = core_at s"
  using assms
proof (induction n arbitrary: i f s)
  case 0
  then show ?case by simp
next
  case (Suc n)
  obtain r s1 where e: "logical_core_calculate_load (of_nat i) True s = (r, s1)" by fastforce
  have "core_at s1 = core_at s" "same s s1"
    using arg_cong [OF e, of snd] calculate_load_same [of s "of_nat i" True]
    by (auto simp: logical_core_calculate_load_def Let_def hal_get_timestamp_def case_prod_beta split: if_splits)
  then show ?case using Suc e by (auto simp: load_of_step_def intro: same_trans)
qed

lemma decision_keeps:
  assumes "logical_core_enhanced_migration_decision u ncpu cfg ok s = Some (r, s')" and "lcore_inv s"
  shows "lcore_inv s' \<and> (\<forall>n. r = Inr n \<longrightarrow> n \<le> mc_max_migrations_per_cycle cfg)"
proof (cases ok)
  case False
  then show ?thesis using assms by (auto simp: logical_core_enhanced_migration_decision_def)
next
  case True
  let ?s1 = "logical_core_check_borrow_expiry s" and ?count = "if ncpu = 0 then 1 else ncpu"
  obtain infos s2 where l: "for_range (load_of_step u) 0 (unat ?count) (\<lambda>_. u, ?s1) = (infos, s2)" by fastforce
  have i2: "lcore_inv s2" using assms(2) expiry_same load_of_keeps [OF l] by (blast intro: lcore_inv_same)
  consider (none) "r = Inr 0" "s' = s2"
    | (some) ts lids cs s3 n where "source_loop u cfg ts lids ([], s2) = Some (cs, s3)"
      "fold execute_step (take (if unat (mc_max_migrations_per_cycle cfg) < length cs then unat (mc_max_migrations_per_cycle cfg)
         else length cs) (sort_candidates cs)) (0, s3) = (n, s')" "r = Inr n"
    using assms(1) True unfolding logical_core_enhanced_migration_decision_def Let_def l
    by (simp only: not_True_eq_False if_False prod.case) (auto split: if_splits option.splits prod.splits)
  then show ?thesis
  proof cases
    case none
    then show ?thesis using i2 by simp
  next
    case some
    let ?m = "if unat (mc_max_migrations_per_cycle cfg) < length cs then unat (mc_max_migrations_per_cycle cfg) else length cs"
    have k: "core_at s3 = core_at s2" "same s2 s3" "\<forall>c\<in>set cs. movable s2 (cd_logical_core_id c)"
      using source_loop_keeps [OF some(1)] by auto
    have "\<forall>c\<in>set (take ?m (sort_candidates cs)). movable s3 (cd_logical_core_id c)"
      using k(1,3) set_take_subset [of ?m "sort_candidates cs"] by (auto simp: sort_candidates_set movable_def)
    from execute_keeps [OF some(2) lcore_inv_same [OF i2 k(2)] this]
    obtain j where j: "lcore_inv s'" "j \<le> length (take ?m (sort_candidates cs))" "n = of_nat j" by auto
    then have "j \<le> unat (mc_max_migrations_per_cycle cfg)" by (auto split: if_splits)
    then have "n \<le> mc_max_migrations_per_cycle cfg" unfolding j(3) word_le_nat_alt unat_of_nat
      by (meson le_trans mod_less_eq_dividend)
    then show ?thesis using j(1) some(3) by simp
  qed
qed

section \<open>Allocation\<close>

lemma free_walk_chain:
  "dll (core_at s) p xs None \<Longrightarrow> free_walk fl q a s (hd_opt xs) =
     Some (case find (\<lambda>i. free_core_suits fl q a (core_at s i)) xs of
             None \<Rightarrow> INVALID_LOGICAL_CORE | Some i \<Rightarrow> lc_id (core_at s i))"
proof (induction xs arbitrary: p)
  case Nil
  then show ?case by (simp add: free_walk.simps)
next
  case (Cons x xs)
  then have "lc_next (core_at s x) = hd_opt xs" by (auto split: if_splits)
  then show ?case using Cons.IH [of "Some x"] Cons.prems by (subst free_walk.simps) simp
qed

text \<open>In a well-formed pool the walk ends, at a free core that suits or at none.\<close>

lemma find_free_cases:
  assumes "pool_ok s"
  obtains (none) "logical_core_find_free fl q a s = Some INVALID_LOGICAL_CORE"
      "\<And>i. i < 1024 \<Longrightarrow> is_free s i \<Longrightarrow> \<not> free_core_suits fl q a (core_at s i)"
    | (found) i where "logical_core_find_free fl q a s = Some (of_nat i)" "i < 1024" "is_free s i"
      "free_core_suits fl q a (core_at s i)"
proof -
  obtain xs where xs: "chain s xs" "set xs = {i. i < 1024 \<and> is_free s i}" using assms by (auto simp: pool_ok_def)
  then have w: "logical_core_find_free fl q a s = Some (case find (\<lambda>i. free_core_suits fl q a (core_at s i)) xs of
             None \<Rightarrow> INVALID_LOGICAL_CORE | Some i \<Rightarrow> lc_id (core_at s i))"
    using free_walk_chain [of s None xs fl q a] by (simp add: logical_core_find_free_def chain_def)
  show thesis
  proof (cases "find (\<lambda>i. free_core_suits fl q a (core_at s i)) xs")
    case None
    then have "\<not> free_core_suits fl q a (core_at s i)" if "i < 1024" "is_free s i" for i
      using that xs(2) by (auto simp: find_None_iff)
    then show thesis using w None by (intro none) simp_all
  next
    case (Some i)
    then have "i \<in> set xs" "free_core_suits fl q a (core_at s i)" by (auto simp: find_Some_iff)
    then have i: "i < 1024" "is_free s i" "lc_id (core_at s i) = of_nat i" using xs(2) assms by (auto simp: pool_ok_def)
    show thesis using found [OF _ i(1,2)] w Some i(3) \<open>free_core_suits fl q a (core_at s i)\<close> by simp
  qed
qed

lemma refresh_keeps:
  assumes "for_range refresh_step i n (m, s) = (m', s')" and "i + n \<le> 256" and "ls_cached_min s < MAX_PHYSICAL_CORES"
  shows "core_at s' = core_at s \<and> ls_free s' = ls_free s \<and> ls_p2l s' = ls_p2l s \<and> ls_load s' = ls_load s \<and>
     lcaps s' = lcaps s \<and> ls_borrow s' = ls_borrow s \<and> ls_index s' = ls_index s \<and> ls_cached_min s' < MAX_PHYSICAL_CORES"
  using assms
proof (induction n arbitrary: i m s)
  case 0
  then show ?case by simp
next
  case (Suc n)
  have "(of_nat i :: u32) < MAX_PHYSICAL_CORES" using Suc.prems(2) by (simp add: physical_less unat_of_nat)
  then show ?case
    using Suc.IH [of "Suc i" "if ls_load s i < m then ls_load s i else m"
        "if ls_load s i < m then s\<lparr> ls_cached_min := of_nat i \<rparr> else s"] Suc.prems
    by (auto simp: refresh_step_def split: if_splits)
qed

lemma select_physical_keeps:
  assumes "select_physical aff s = (p, s')" and "ls_cached_min s < MAX_PHYSICAL_CORES"
  shows "core_at s' = core_at s" "ls_free s' = ls_free s" "ls_p2l s' = ls_p2l s" "ls_load s' = ls_load s" "lcaps s' = lcaps s"
    "ls_borrow s' = ls_borrow s" "ls_index s' = ls_index s" "ls_cached_min s' < MAX_PHYSICAL_CORES" "p < MAX_PHYSICAL_CORES"
proof -
  let ?Q = "\<lambda>p s'. core_at s' = core_at s \<and> ls_free s' = ls_free s \<and> ls_p2l s' = ls_p2l s \<and> ls_load s' = ls_load s \<and>
     lcaps s' = lcaps s \<and> ls_borrow s' = ls_borrow s \<and> ls_index s' = ls_index s \<and> ls_cached_min s' < MAX_PHYSICAL_CORES \<and>
     p < MAX_PHYSICAL_CORES"
  let ?s1 = "s\<lparr> ls_check_counter := ls_check_counter s + 1 \<rparr>"
  have m: "unat MAX_PHYSICAL_CORES = 256" by (simp add: hic_consts)
  obtain b t where r: "for_range refresh_step 0 256 (ls_load ?s1 (unat (ls_cached_min s)), ?s1\<lparr> ls_check_counter := 0 \<rparr>) = (b, t)" by fastforce
  have "?Q (ls_cached_min t) t" using refresh_keeps [OF r] assms(2) by simp
  then have c: "?Q (fst (cached_min_core s)) (snd (cached_min_core s))"
    using assms(2) r by (simp add: cached_min_core_def Let_def m)
  have "?Q p s'"
  proof (cases "\<exists>i. p = of_nat i \<and> i < 256 \<and> s' = s")
    case True
    then show ?thesis using assms(2) by (auto simp: physical_less unat_of_nat)
  next
    case False
    then have "(p, s') = cached_min_core s"
      using assms(1) by (auto simp: select_physical_def m split: option.splits dest!: find_first_SomeD(2))
    then show ?thesis using c by (metis fst_conv snd_conv)
  qed
  then show "core_at s' = core_at s" "ls_free s' = ls_free s" "ls_p2l s' = ls_p2l s" "ls_load s' = ls_load s" "lcaps s' = lcaps s"
    "ls_borrow s' = ls_borrow s" "ls_index s' = ls_index s" "ls_cached_min s' < MAX_PHYSICAL_CORES" "p < MAX_PHYSICAL_CORES" by auto
qed

lemma free_again_typed:
  assumes "lists_typed s"
  shows "lists_typed (free_core_again lid s)"
proof -
  have f: "ls_load (free_core_again lid s) = ls_load s" "ls_p2l (free_core_again lid s) = ls_p2l s"
    "ls_cached_min (free_core_again lid s) = ls_cached_min s"
    by (auto simp: free_core_again_def logical_core_init_block_def Let_def split: option.splits)
  have "lc_physical_core (core_at (free_core_again lid s) j) = INVALID_PHYSICAL_CORE \<or>
      lc_physical_core (core_at (free_core_again lid s) j) = lc_physical_core (core_at s j)" for j
    by (auto simp: free_core_again_def init_block_core)
  then show ?thesis using assms unfolding lists_typed_def f by metis
qed

text \<open>
  The state of \<open>logical_core_allocate_to_domain\<close> before the capability is created: the core is out
  of the pool, belongs to the domain and is mapped to a physical core.
\<close>

definition alloc_mapped :: "u32 \<Rightarrow> u32 \<Rightarrow> u32 \<Rightarrow> u8 \<Rightarrow> affinity option \<Rightarrow> lcore_state \<Rightarrow> lcore_state" where
  "alloc_mapped lid d flgs qta aff s =
     (let i = unat lid;
          s1 = logical_core_remove_from_free_list i s;
          s2 = upd_core i (\<lambda>x. x\<lparr> lc_state := LOGICAL_CORE_STATE_ALLOCATED, lc_flags := flgs,
                 lc_owner_domain := d, lc_guaranteed_quota := qta,
                 lc_affinity := (case aff of None \<Rightarrow> lc_affinity x | Some m \<Rightarrow> m) \<rparr>) s1;
          (p, s3) = select_physical aff s2;
          s4 = (upd_core i (\<lambda>x. x\<lparr> lc_physical_core := p \<rparr>) s3)\<lparr> ls_l2p := (ls_l2p s3)(i := p) \<rparr>
      in if p \<noteq> INVALID_PHYSICAL_CORE \<and> ls_load s4 (unat p) < 16 then append_to_physical p lid s4 else s4)"

lemma alloc_to_domain_alt:
  "logical_core_allocate_to_domain lid d flgs qta aff s =
     (if lid \<ge> MAX_LOGICAL_CORES \<or> d \<ge> HIC_DOMAIN_MAX then (CAP_HANDLE_INVALID, s)
      else let s5 = alloc_mapped lid d flgs qta aff s
      in case cap_create_logical_core d lid flgs qta (CAP_LCORE_USE OR CAP_LCORE_QUERY OR CAP_LCORE_BORROW)
                True (lcaps s5) of
           (Inl _, c) \<Rightarrow> (CAP_HANDLE_INVALID, free_core_again lid (put_lcaps c s5))
         | (Inr cap, c) \<Rightarrow>
             let s6 = put_lcaps c s5
             in case cap_grant d cap True (lcaps s6) of
                  Inl _ \<Rightarrow> (CAP_HANDLE_INVALID,
                    free_core_again lid (put_lcaps (snd (cap_revoke cap (lcaps s6))) s6))
                | Inr handle \<Rightarrow> (handle, upd_core (unat lid) (\<lambda>x. x\<lparr> lc_capability_handle := handle \<rparr>) s6))"
  unfolding logical_core_allocate_to_domain_def alloc_mapped_def Let_def case_prod_beta by simp

lemma alloc_mapped_keeps:
  assumes "lcore_inv s" and "lid < MAX_LOGICAL_CORES" and "is_free s (unat lid)"
  shows "pool_minus (alloc_mapped lid d flgs qta aff s) (unat lid)" and "lists_typed (alloc_mapped lid d flgs qta aff s)"
    and "lc_state (core_at (alloc_mapped lid d flgs qta aff s) (unat lid)) = LOGICAL_CORE_STATE_ALLOCATED"
    and "lc_owner_domain (core_at (alloc_mapped lid d flgs qta aff s) (unat lid)) = d"
    and "lcaps (alloc_mapped lid d flgs qta aff s) = lcaps s"
proof -
  let ?i = "unat lid"
  let ?s1 = "logical_core_remove_from_free_list ?i s"
  let ?f = "\<lambda>x. x\<lparr> lc_state := LOGICAL_CORE_STATE_ALLOCATED, lc_flags := flgs,
                 lc_owner_domain := d, lc_guaranteed_quota := qta,
                 lc_affinity := (case aff of None \<Rightarrow> lc_affinity x | Some m \<Rightarrow> m) \<rparr>"
  let ?s2 = "upd_core ?i ?f ?s1"
  have i: "?i < 1024" using assms(2) by (simp add: logical_less)
  have m1: "pool_minus ?s1 ?i" using assms i by (intro pool_minus_remove) (auto simp: lcore_inv_def)
  have m2: "pool_minus ?s2 ?i" by (rule pool_minus_upd [OF m1]) simp
  have t2: "lists_typed ?s2" using assms(1) by (auto simp: lcore_inv_def lists_typed_def remove_free_rest)
  obtain p s3 where sel: "select_physical aff ?s2 = (p, s3)" by fastforce
  have "ls_cached_min ?s2 < MAX_PHYSICAL_CORES" using t2 by (simp add: lists_typed_def)
  note k = select_physical_keeps [OF sel this]
  let ?s4 = "(upd_core ?i (\<lambda>x. x\<lparr> lc_physical_core := p \<rparr>) s3)\<lparr> ls_l2p := (ls_l2p s3)(?i := p) \<rparr>"
  have m3: "pool_minus s3 ?i" by (rule pool_minus_cong [OF m2 k(1,2)])
  have m4: "pool_minus ?s4 ?i" by (rule pool_minus_cong [OF pool_minus_upd [OF m3]]) auto
  have t4: "lists_typed ?s4" using t2 k unfolding lists_typed_def by auto
  have a: "alloc_mapped lid d flgs qta aff s = (if p \<noteq> INVALID_PHYSICAL_CORE \<and> ls_load ?s4 (unat p) < 16 then append_to_physical p lid ?s4 else ?s4)"
    unfolding alloc_mapped_def Let_def sel by simp
  show "pool_minus (alloc_mapped lid d flgs qta aff s) ?i"
    unfolding a using pool_minus_cong [OF m4] by simp
  show "lists_typed (alloc_mapped lid d flgs qta aff s)"
    unfolding a using t4 lists_typed_append [OF t4 _ assms(2)] by auto
  show "lc_state (core_at (alloc_mapped lid d flgs qta aff s) (unat lid)) = LOGICAL_CORE_STATE_ALLOCATED"
    "lc_owner_domain (core_at (alloc_mapped lid d flgs qta aff s) (unat lid)) = d"
    "lcaps (alloc_mapped lid d flgs qta aff s) = lcaps s"
    unfolding a using k by simp_all
qed

lemma alloc_to_domain_inv:
  assumes "lcore_inv s" and "lid < MAX_LOGICAL_CORES" and "is_free s (unat lid)"
  shows "lcore_inv (snd (logical_core_allocate_to_domain lid d flgs qta aff s))"
proof -
  let ?s5 = "alloc_mapped lid d flgs qta aff s"
  note k = alloc_mapped_keeps [OF assms, of d flgs qta aff]
  have ok: "lcore_inv ?s5" using k by (simp add: lcore_inv_def pool_minus_iff)
  have bk: "lcore_inv (free_core_again lid (put_lcaps c ?s5))" for c
  proof -
    have "pool_ok (free_core_again lid (put_lcaps c ?s5))"
      by (rule pool_free_again [OF pool_minus_cong [OF k(1)] assms(2)]) simp_all
    moreover have "lists_typed (put_lcaps c ?s5)" using k(2) by (auto simp: lists_typed_def)
    ultimately show ?thesis by (simp add: lcore_inv_def free_again_typed)
  qed
  have pp: "put_lcaps a (put_lcaps b t) = put_lcaps a t" for a b t by (simp add: put_lcaps_def)
  have fin: "lcore_inv (upd_core (unat lid) (\<lambda>x. x\<lparr> lc_capability_handle := h \<rparr>) (put_lcaps c ?s5))" for h c
    by (rule lcore_inv_same [OF lcore_inv_same [OF ok put_lcaps_same] same_upd_core]) (simp_all add: core_same_def)
  show ?thesis
    unfolding alloc_to_domain_alt Let_def using assms(1) bk fin by (auto simp: pp split: prod.splits sum.splits)
qed

lemma nat_core_id: "i < 1024 \<Longrightarrow> unat (of_nat i :: u32) = i"
  by (simp add: unat_of_nat)

lemma nat_core_valid: "i < 1024 \<Longrightarrow> (of_nat i :: u32) \<noteq> INVALID_LOGICAL_CORE \<and> (of_nat i :: u32) < MAX_LOGICAL_CORES"
proof -
  assume "i < 1024"
  then have "(of_nat i :: u32) < MAX_LOGICAL_CORES" by (simp add: logical_less nat_core_id)
  moreover have "\<not> INVALID_LOGICAL_CORE < MAX_LOGICAL_CORES" by (simp add: hic_consts)
  ultimately show ?thesis by metis
qed

text \<open>
  The allocation loop returns, and keeps the invariant when it succeeds or has nothing to undo.
\<close>

lemma alloc_loop_returns:
  assumes "lcore_inv s"
  obtains r s' where "alloc_loop n u d fl q a hs s = Some (r, s')"
    "(\<exists>xs. r = Inr xs) \<or> (n = 1 \<and> hs = []) \<Longrightarrow> lcore_inv s'"
  using assms
proof (induction n arbitrary: hs s thesis)
  case 0
  then show ?case by simp
next
  case (Suc n)
  have p: "pool_ok s" using Suc.prems(2) by (simp add: lcore_inv_def)
  show ?case
  proof (cases rule: find_free_cases [OF p, of fl q a])
    case 1
    then show ?thesis using Suc.prems(2)
      by (intro Suc.prems(1) [of "Inl HIC_ERROR_NO_RESOURCE" "fold (rollback_one u) (rev hs) s"]) auto
  next
    case (2 i)
    obtain h s1 where al: "logical_core_allocate_to_domain (of_nat i) d fl q a s = (h, s1)" by fastforce
    note v = nat_core_valid [OF 2(2)]
    have i1: "lcore_inv s1"
      using alloc_to_domain_inv [OF Suc.prems(2) conjunct2 [OF v]] 2 nat_core_id [of i] al by (metis snd_conv)
    show ?thesis
    proof (cases "h = CAP_HANDLE_INVALID")
      case True
      then show ?thesis using i1 2(1) al v
        by (intro Suc.prems(1) [of "Inl HIC_ERROR_NO_RESOURCE" "fold (rollback_one u) (rev hs) s1"]) auto
    next
      case False
      obtain r s' where rr: "alloc_loop n u d fl q a (h # hs) s1 = Some (r, s')"
        "(\<exists>xs. r = Inr xs) \<or> (n = 1 \<and> h # hs = []) \<Longrightarrow> lcore_inv s'"
        using Suc.IH [OF _ i1] by blast
      show ?thesis
      proof (rule Suc.prems(1))
        show "alloc_loop (Suc n) u d fl q a hs s = Some (r, s')" using 2(1) al v False rr(1) by simp
        assume "(\<exists>xs. r = Inr xs) \<or> (Suc n = 1 \<and> hs = [])"
        then have "\<exists>xs. r = Inr xs" using rr(1) by (cases n) auto
        then show "lcore_inv s'" using rr(2) by blast
      qed
    qed
  qed
qed

lemma allocate_returns:
  assumes "lcore_inv s"
  obtains r s' where "hic_logical_core_allocate u d n fl q a ok s = Some (r, s')"
    "(\<exists>xs. r = Inr xs) \<or> n = 1 \<Longrightarrow> lcore_inv s'"
proof -
  obtain r s' where l: "alloc_loop (unat n) u d fl q a [] s = Some (r, s')"
    "(\<exists>xs. r = Inr xs) \<or> (unat n = 1 \<and> ([] :: u64 list) = []) \<Longrightarrow> lcore_inv s'"
    using alloc_loop_returns [OF assms] by blast
  show thesis
  proof (cases "hic_logical_core_allocate u d n fl q a ok s = alloc_loop (unat n) u d fl q a [] s")
    case True
    moreover have "(\<exists>xs. r = Inr xs) \<or> n = 1 \<Longrightarrow> lcore_inv s'" using l(2) by auto
    ultimately show thesis using that l(1) by simp
  next
    case False
    then have "\<exists>e. hic_logical_core_allocate u d n fl q a ok s = Some (Inl e, s)"
      by (auto simp: hic_logical_core_allocate_def split: if_splits)
    then show thesis using that assms by blast
  qed
qed

section \<open>Release\<close>

lemma init_block_typed:
  assumes "lists_typed s"
  shows "lists_typed (logical_core_init_block lid s)"
proof -
  have f: "ls_load (logical_core_init_block lid s) = ls_load s" "ls_p2l (logical_core_init_block lid s) = ls_p2l s"
    "ls_cached_min (logical_core_init_block lid s) = ls_cached_min s"
    by (auto simp: logical_core_init_block_def Let_def split: option.splits)
  have "lc_physical_core (core_at (logical_core_init_block lid s) j) = INVALID_PHYSICAL_CORE \<or>
      lc_physical_core (core_at (logical_core_init_block lid s) j) = lc_physical_core (core_at s j)" for j
    by (auto simp: init_block_core)
  then show ?thesis using assms unfolding lists_typed_def f by metis
qed

lemma release_loop_inv: "lcore_inv s \<Longrightarrow> lcore_inv (snd (release_loop d hs s))"
proof (induction d hs s rule: release_loop.induct)
  case (1 d s)
  then show ?case by simp
next
  case (2 d h hs s)
  let ?lid = "logical_core_validate_handle d h s"
  let ?i = "unat ?lid"
  let ?p = "lc_physical_core (core_at s ?i)"
  let ?s1 = "if ?p \<noteq> INVALID_PHYSICAL_CORE then remove_from_physical ?p ?lid s else s"
  let ?s2 = "put_lcaps (snd (cap_revoke (cap_get_cap_id h) (lcaps ?s1))) ?s1"
  let ?s3 = "upd_core ?i (\<lambda>x. x\<lparr> lc_state := LOGICAL_CORE_STATE_FREE, lc_owner_domain := HIC_INVALID_DOMAIN,
                      lc_capability_handle := CAP_HANDLE_INVALID, lc_running_thread := INVALID_THREAD \<rparr>) ?s2"
  show ?case
  proof (cases "?lid = INVALID_LOGICAL_CORE \<or> lc_running_thread (core_at s ?i) \<noteq> INVALID_THREAD")
    case True
    then show ?thesis using "2.prems" by (auto simp: Let_def)
  next
    case False
    then have v: "?lid < MAX_LOGICAL_CORES" "\<not> is_free s ?i" using validate_not_free by auto
    have "pool_minus s ?i" using "2.prems" v(2) by (simp add: lcore_inv_def pool_minus_iff)
    then have "pool_minus ?s2 ?i" by (rule pool_minus_cong) simp_all
    then have "pool_minus ?s3 ?i" by (rule pool_minus_upd) simp
    then have a: "pool_ok (logical_core_init_block ?lid ?s3)" by (rule pool_init_block [OF _ v(1)])
    have "unat ?p < 256" if "?p \<noteq> INVALID_PHYSICAL_CORE"
      using that "2.prems" v(1) by (auto simp: lcore_inv_def lists_typed_def physical_less logical_less)
    then have "lists_typed ?s1" using "2.prems" by (simp add: lcore_inv_def lists_typed_remove)
    then have "lists_typed ?s3" by (auto simp: lists_typed_def)
    then have "lcore_inv (logical_core_init_block ?lid ?s3)" using a by (simp add: lcore_inv_def init_block_typed)
    then have "lcore_inv (snd (release_loop d hs (logical_core_init_block ?lid ?s3)))"
      using "2.IH" [OF refl refl _ _ refl refl refl refl] False by blast
    then show ?thesis using False by (simp add: Let_def)
  qed
qed

lemma release_inv: "lcore_inv s \<Longrightarrow> lcore_inv (snd (hic_logical_core_release d hs ok s))"
  using release_loop_inv by (simp add: hic_logical_core_release_def)

section \<open>Threads\<close>

lemma k_lcores_thread [simp]:
  "k_lcores (set_kpmm p k) = k_lcores k" "k_lcores (put_paging g k) = k_lcores k" "k_lcores (upd_thread i f k) = k_lcores k"
  "k_lcores (map_stack d st k) = k_lcores k" "k_lcores (snd (thread_ready t k)) = k_lcores k"
  "k_lcores (store_word ad v k) = k_lcores k" "k_lcores (snd (init_stack e en st k)) = k_lcores k"
  "k_lcores (snd (take_thread_slot k)) = k_lcores k"
  by (auto simp: set_kpmm_def put_paging_def upd_thread_def map_stack_def Let_def thread_ready_def store_word_def
      init_stack_def push_word_def take_thread_slot_def split: option.splits)

lemma create_bound_lcores:
  assumes "thread_create_bound e d l en pr ok k = (r, k')"
  shows "core_same (k_lcores k j) (k_lcores k' j)" and "lc_physical_core (k_lcores k' j) = lc_physical_core (k_lcores k j)"
proof -
  obtain o1 s1 where t: "take_thread_slot k = (o1, s1)" by fastforce
  have l1: "k_lcores s1 = k_lcores k" using k_lcores_thread(8) [of k] t by simp
  obtain x p where a: "pmm_alloc_frames 2 True (kpmm s1) = (x, p)" by fastforce
  obtain sp s3 where i: "init_stack e en (projr x) (map_stack d (projr x) (set_kpmm p s1)) = (sp, s3)" by fastforce
  have l3: "k_lcores s3 = k_lcores k" using k_lcores_thread(7) [of e en "projr x" "map_stack d (projr x) (set_kpmm p s1)"] i l1 by simp
  show "core_same (k_lcores k j) (k_lcores k' j)"
    using assms t a i l1 l3 by (auto simp: thread_create_bound_def Let_def upd_lcore_def core_same_def split: if_splits option.splits sum.splits)
  show "lc_physical_core (k_lcores k' j) = lc_physical_core (k_lcores k j)"
    using assms t a i l1 l3 by (auto simp: thread_create_bound_def Let_def upd_lcore_def split: if_splits option.splits sum.splits)
qed

lemma create_on_core_inv:
  assumes "lcore_inv s"
  shows "lcore_inv (snd (hic_thread_create_on_core e h en pr ok s))"
proof (cases "fst (hic_thread_create_on_core e h en pr ok s) \<in> {Inl HIC_ERROR_INVALID_PARAM} \<and>
    snd (hic_thread_create_on_core e h en pr ok s) = s")
  case True
  then show ?thesis using assms by simp
next
  case out: False
  let ?k = "ls_k s"
  let ?d = "if k_current ?k \<noteq> TNull then thr_domain (thread_of (k_current ?k) ?k)
     else if domain_switch_get_current (k_pg ?k) \<noteq> HIC_INVALID_DOMAIN then domain_switch_get_current (k_pg ?k) else HIC_DOMAIN_CORE"
  let ?lid = "logical_core_validate_handle ?d h s"
  obtain r k' where c: "thread_create_bound e ?d ?lid en pr True ?k = (r, k')" by fastforce
  have s: "same s (s\<lparr> ls_k := k' \<rparr>)"
    using create_bound_lcores [OF c] by (simp add: same_def pool_same_def lists_same_def core_at_def)
  have u: "same s (upd_core (unat ?lid) (\<lambda>x. x\<lparr> lc_running_thread := t, lc_state := LOGICAL_CORE_STATE_ACTIVE \<rparr>) (s\<lparr> ls_k := k' \<rparr>))"
    if "?lid \<noteq> INVALID_LOGICAL_CORE" for t
  proof (rule same_trans [OF s same_upd_core])
    have "\<not> is_free (s\<lparr> ls_k := k' \<rparr>) (unat ?lid)" using same_free [OF s] validate_not_free(2) [OF that] by metis
    then show "core_same (core_at (s\<lparr> ls_k := k' \<rparr>) (unat ?lid)) (core_at (s\<lparr> ls_k := k' \<rparr>) (unat ?lid)
      \<lparr> lc_running_thread := t, lc_state := LOGICAL_CORE_STATE_ACTIVE \<rparr>)" by (simp add: core_same_def)
  qed simp
  have "same s (snd (hic_thread_create_on_core e h en pr ok s))"
    unfolding hic_thread_create_on_core_def Let_def c using s u by (auto split: sum.splits)
  then show ?thesis by (rule lcore_inv_same [OF assms])
qed

lemma thread_create_returns:
  assumes "lcore_inv s"
  obtains r s' where "thread_create e u d en pr ok s = Some (r, s')" "lcore_inv s'"
proof (cases "\<not> ok \<or> d \<ge> HIC_DOMAIN_MAX")
  case True
  then show thesis using assms by (intro that) (auto simp: thread_create_def)
next
  case ok: False
  define pick where "pick = (case thread_create_core d s of
                   Some i \<Rightarrow> Some (of_nat i, s)
                 | None \<Rightarrow>
                     (case hic_logical_core_allocate u d 1 0 10 None True s of
                        None \<Rightarrow> None
                      | Some (Inl _, s1) \<Rightarrow> Some (INVALID_LOGICAL_CORE, s1)
                      | Some (Inr hs, s1) \<Rightarrow> Some (logical_core_validate_handle d (hd hs) s1, s1)))"
  obtain r0 s0 where al: "hic_logical_core_allocate u d 1 0 10 None True s = Some (r0, s0)" "lcore_inv s0"
    using allocate_returns [OF assms, of u d 1 0 10 None True] by blast
  obtain lid s1 where p: "pick = Some (lid, s1)" "lcore_inv s1"
    using al assms by (cases "thread_create_core d s"; cases r0) (auto simp: pick_def)
  have k: "lcore_inv (s1\<lparr> ls_k := k \<rparr>)" if "k_lcores k = k_lcores (ls_k s1)" for k
    using that by (intro lcore_inv_same [OF p(2)]) (simp add: same_def pool_same_def lists_same_def core_at_def)
  obtain o1 k1 where t: "take_thread_slot (ls_k s1) = (o1, k1)" by fastforce
  have l1: "k_lcores k1 = k_lcores (ls_k s1)" using k_lcores_thread(8) [of "ls_k s1"] t by simp
  obtain x pm where a: "pmm_alloc_frames 2 True (kpmm k1) = (x, pm)" by fastforce
  obtain sp k3 where i: "init_stack e en (projr x) (map_stack d (projr x) (set_kpmm pm k1)) = (sp, k3)" by fastforce
  have l3: "k_lcores k3 = k_lcores (ls_k s1)"
    using k_lcores_thread(7) [of e en "projr x" "map_stack d (projr x) (set_kpmm pm k1)"] i l1 by simp
  show thesis
    using that [OF _ k] ok p(1) t a i l1 l3
    unfolding thread_create_def pick_def [symmetric] by (cases o1; cases x) (auto simp: Let_def)
qed

section \<open>Initialization\<close>

text \<open>After \<open>i\<close> steps of the loop of \<open>logical_core_system_init\<close>.\<close>

definition init_upto :: "nat \<Rightarrow> lcore_state \<Rightarrow> bool" where
  "init_upto i s \<longleftrightarrow> chain s (rev [0..<i]) \<and>
     (\<forall>j<i. lc_id (core_at s j) = of_nat j \<and> is_free s j \<and> lc_flags (core_at s j) = 0 \<and>
        lc_guaranteed_quota (core_at s j) = LOGICAL_CORE_DEFAULT_QUOTA \<and>
        lc_physical_core (core_at s j) = INVALID_PHYSICAL_CORE) \<and>
     (\<forall>p<256. ls_load s p = 0 \<and> (\<forall>j<16. ls_p2l s p j = 0)) \<and> ls_cached_min s = 0"

lemma init_upto_step:
  assumes "init_upto i s" and "i < 1024"
  shows "init_upto (Suc i) (logical_core_init_block (of_nat i) s)"
proof -
  let ?s = "logical_core_init_block (of_nat i) s"
  have c: "chain ?s (i # rev [0..<i])"
    using chain_init_block [of s "rev [0..<i]" "of_nat i"] assms nat_core_id [OF assms(2)] by (simp add: init_upto_def)
  have "lc_id (core_at ?s j) = of_nat j \<and> is_free ?s j \<and> lc_flags (core_at ?s j) = 0 \<and>
        lc_guaranteed_quota (core_at ?s j) = LOGICAL_CORE_DEFAULT_QUOTA \<and>
        lc_physical_core (core_at ?s j) = INVALID_PHYSICAL_CORE" if "j < Suc i" for j
    using that assms by (cases "j = i") (auto simp: init_block_core nat_core_id logical_core_zero_def init_upto_def)
  moreover have "ls_load ?s = ls_load s" "ls_p2l ?s = ls_p2l s" "ls_cached_min ?s = ls_cached_min s"
    by (auto simp: logical_core_init_block_def Let_def split: option.splits)
  ultimately show ?thesis using c assms(1) by (simp add: init_upto_def)
qed

lemma init_upto_loop:
  "init_upto i s \<Longrightarrow> i + n \<le> 1024 \<Longrightarrow> init_upto (i + n) (for_range (\<lambda>i. logical_core_init_block (of_nat i)) i n s)"
proof (induction n arbitrary: i s)
  case 0
  then show ?case by simp
next
  case (Suc n)
  then show ?case using Suc.IH [OF init_upto_step [of i s]] by simp
qed

lemma init_inv:
  assumes "ls_free s = None" and "ls_cached_min s = 0"
  shows "lcore_inv (logical_core_system_init s)"
proof -
  have m: "unat MAX_LOGICAL_CORES = 1024" "unat MAX_PHYSICAL_CORES = 256" by (simp_all add: hic_consts)
  define s1 where "s1 = s\<lparr> ls_k := (ls_k s)\<lparr> k_lcores := (\<lambda>i. if i < unat MAX_LOGICAL_CORES then logical_core_zero
                             else k_lcores (ls_k s) i) \<rparr>,
                 ls_l2p := (\<lambda>i. if i < unat MAX_LOGICAL_CORES then 0 else ls_l2p s i),
                 ls_p2l := (\<lambda>i. if i < unat MAX_PHYSICAL_CORES then (\<lambda>j. if j < 16 then 0 else ls_p2l s i j) else ls_p2l s i),
                 ls_load := (\<lambda>i. if i < unat MAX_PHYSICAL_CORES then 0 else ls_load s i) \<rparr>"
  define s2 where "s2 = for_range (\<lambda>i. logical_core_init_block (of_nat i)) 0 1024 s1"
  have "init_upto 0 s1" using assms by (simp add: init_upto_def chain_def s1_def m)
  then have u: "init_upto 1024 s2" using init_upto_loop [of 0 s1 1024] by (simp add: s2_def)
  have "pool_ok s2" unfolding pool_ok_def
    using u by (intro conjI exI [of _ "rev [0..<1024]"]) (auto simp: init_upto_def)
  moreover have "lists_typed s2" using u by (auto simp: init_upto_def lists_typed_def hic_consts)
  ultimately have "lcore_inv s2" by (simp add: lcore_inv_def)
  moreover have "same s2 (s2\<lparr> ls_next_id := MAX_LOGICAL_CORES \<rparr>)" by (simp add: same_def pool_same_def lists_same_def)
  ultimately have "lcore_inv (s2\<lparr> ls_next_id := MAX_LOGICAL_CORES \<rparr>)" by (rule lcore_inv_same)
  then show ?thesis by (simp add: logical_core_system_init_def Let_def s1_def s2_def m)
qed

section \<open>Histories\<close>

text \<open>
  The states that the operations on logical cores reach from boot. An allocation of several cores
  that fails half-way is left out, because it writes to a control block chosen by an uninitialized
  variable; the scheduler reports only on cores that are allocated. Every other operation of the
  kernel may run in between, as long as it leaves the control blocks alone.
\<close>

inductive lcore_reach :: "lcore_state \<Rightarrow> bool" where
  boot: "ls_free s = None \<Longrightarrow> ls_cached_min s = 0 \<Longrightarrow> lcore_reach (logical_core_system_init s)"
| allocate: "lcore_reach s \<Longrightarrow> hic_logical_core_allocate u d n fl q a ok s = Some (r, s') \<Longrightarrow>
    (\<exists>hs. r = Inr hs) \<or> n = 1 \<Longrightarrow> lcore_reach s'"
| release: "lcore_reach s \<Longrightarrow> lcore_reach (snd (hic_logical_core_release d hs ok s))"
| thread_on_core: "lcore_reach s \<Longrightarrow> lcore_reach (snd (hic_thread_create_on_core e h en pr ok s))"
| thread: "lcore_reach s \<Longrightarrow> thread_create e u d en pr ok s = Some (r, s') \<Longrightarrow> lcore_reach s'"
| set_affinity: "lcore_reach s \<Longrightarrow> lcore_reach (snd (hic_logical_core_set_affinity h aff s))"
| migrate: "lcore_reach s \<Longrightarrow> lcore_reach (snd (hic_logical_core_migrate h target s))"
| reset_perf: "lcore_reach s \<Longrightarrow> lcore_reach (snd (hic_logical_core_reset_perf h s))"
| notify: "lcore_reach s \<Longrightarrow> lc_state (core_at s (unat lid)) \<noteq> LOGICAL_CORE_STATE_FREE \<Longrightarrow>
    lcore_reach (logical_core_schedule_notify lid t starting s)"
| quotas: "lcore_reach s \<Longrightarrow> logical_core_update_quotas s = Some s' \<Longrightarrow> lcore_reach s'"
| borrow: "lcore_reach s \<Longrightarrow> lcore_reach (snd (hic_logical_core_borrow b d t q aff ok s))"
| return: "lcore_reach s \<Longrightarrow> lcore_reach (snd (hic_logical_core_return b h s))"
| expiry: "lcore_reach s \<Longrightarrow> lcore_reach (logical_core_check_borrow_expiry s)"
| decision: "lcore_reach s \<Longrightarrow> logical_core_enhanced_migration_decision ui ncpu cfg ok s = Some (r, s') \<Longrightarrow> lcore_reach s'"
| kernel: "lcore_reach s \<Longrightarrow> k_lcores k = k_lcores (ls_k s) \<Longrightarrow> lcore_reach (s\<lparr> ls_k := k \<rparr>)"

lemma lcore_reach_inv: "lcore_reach s \<Longrightarrow> lcore_inv s"
proof (induction rule: lcore_reach.induct)
  case (allocate s u d n fl q a ok r s')
  then show ?case using allocate_returns [OF allocate.IH, of u d n fl q a ok] by (metis option.inject prod.inject)
next
  case (thread s e u d en pr ok r s')
  then show ?case using thread_create_returns [OF thread.IH, of e u d en pr ok] by (metis option.inject prod.inject)
next
  case (kernel s k)
  then show ?case by (intro lcore_inv_same [OF kernel.IH]) (simp add: same_def pool_same_def lists_same_def core_at_def)
qed (auto intro: init_inv release_inv create_on_core_inv migrate_inv lcore_inv_same [OF _ set_affinity_same]
      lcore_inv_same [OF _ reset_perf_same] lcore_inv_same [OF _ notify_same] lcore_inv_same [OF _ update_quotas_same]
      lcore_inv_same [OF _ borrow_same] lcore_inv_same [OF _ return_same] lcore_inv_same [OF _ expiry_same]
      dest: decision_keeps)

section \<open>Migration as a move\<close>

text \<open>The logical cores on a physical core, and lists that agree with the index and the mapping.\<close>

definition on_physical :: "lcore_state \<Rightarrow> nat \<Rightarrow> u32 set" where
  "on_physical s p = {ls_p2l s p j |j. j < unat (ls_load s p)}"

definition lists_exact :: "lcore_state \<Rightarrow> bool" where
  "lists_exact s \<longleftrightarrow> (\<forall>p<256. unat (ls_load s p) \<le> 16 \<and>
     (\<forall>j<unat (ls_load s p). ls_index s (unat (ls_p2l s p j)) = of_nat j \<and>
        lc_physical_core (core_at s (unat (ls_p2l s p j))) = of_nat p))"

lemma unat_ucast_u8: "unat (ucast (x :: u8) :: u32) = unat x"
proof -
  have "unat x < 2 ^ 8" using unsigned_less [of x] by simp
  then show ?thesis by (simp add: unsigned_ucast_eq take_bit_nat_eq_self)
qed

lemma lists_exact_cong:
  assumes "ls_p2l s' = ls_p2l s" "ls_load s' = ls_load s" "ls_index s' = ls_index s"
    "\<And>j. lc_physical_core (core_at s' j) = lc_physical_core (core_at s j)"
  shows "lists_exact s' = lists_exact s" and "on_physical s' = on_physical s"
  using assms by (simp_all add: lists_exact_def on_physical_def fun_eq_iff)

lemma listed_unique:
  assumes "lists_exact s" and "p < 256" "j < unat (ls_load s p)" and "q < 256" "k < unat (ls_load s q)"
    and "ls_p2l s p j = ls_p2l s q k"
  shows "p = q \<and> j = k"
proof -
  have "(of_nat p :: u32) = of_nat q" "(of_nat j :: u8) = of_nat k" using assms unfolding lists_exact_def by metis+
  moreover have "j < 16" "k < 16" using assms unfolding lists_exact_def by (meson less_le_trans)+
  ultimately have "unat (of_nat p :: u32) = unat (of_nat q :: u32)" "unat (of_nat j :: u8) = unat (of_nat k :: u8)" by simp_all
  then show ?thesis using assms(2,4) \<open>j < 16\<close> \<open>k < 16\<close> by (simp add: unat_of_nat)
qed

lemma remove_exact:
  assumes ex: "lists_exact s" and o: "lc_physical_core (core_at s (unat lid)) = old" "unat old < 256"
    and lid: "lid \<in> on_physical s (unat old)"
  shows "\<And>p. p < 256 \<Longrightarrow> on_physical (remove_from_physical old lid s) p = on_physical s p - {lid}"
    and "lists_exact (remove_from_physical old lid s)"
proof -
  let ?o = "unat old" and ?s = "remove_from_physical old lid s"
  let ?L = "unat (ls_load s ?o)"
  obtain i where i: "i < ?L" "ls_p2l s ?o i = lid" using lid by (auto simp: on_physical_def)
  have L: "?L \<le> 16" using ex o(2) unfolding lists_exact_def by blast
  have "ls_index s (unat (ls_p2l s ?o i)) = of_nat i" using ex o(2) i(1) unfolding lists_exact_def by blast
  then have ix: "ls_index s (unat lid) = of_nat i" unfolding i(2) .
  then have ui: "unat (ls_index s (unat lid)) = i" using i(1) L by (simp add: unat_of_nat)
  define last where "last = ls_p2l s ?o (?L - 1)"
  have nz: "ls_load s ?o \<noteq> 0" using i by auto
  have c: "ucast (ls_index s (unat lid)) < ls_load s ?o" using i(1) ui by (simp add: word_less_nat_alt unat_ucast_u8)
  have f: "ls_p2l ?s = (ls_p2l s)(?o := (ls_p2l s ?o)(i := last))" "ls_index ?s = (ls_index s)(unat last := of_nat i)"
    "ls_load ?s = (ls_load s)(?o := ls_load s ?o - 1)" "core_at ?s = core_at s"
    using c nz ui [unfolded ix] by (simp_all add: remove_from_physical_def Let_def ix last_def unat_minus_one)
  have L': "unat (ls_load s ?o - 1) = ?L - 1" using nz by (rule unat_minus_one)
  have last: "?L - 1 < ?L" using i(1) by simp
  have nl: "ls_p2l s p j \<noteq> last" if "p < 256" "j < unat (ls_load s p)" "p \<noteq> ?o \<or> j \<noteq> ?L - 1" for p j
    using listed_unique [OF ex that(1,2) o(2) last] that(3) unfolding last_def by blast
  have ni: "ls_p2l s p j \<noteq> lid" if "p < 256" "j < unat (ls_load s p)" "p \<noteq> ?o \<or> j \<noteq> i" for p j
    using listed_unique [OF ex that(1,2) o(2) i(1)] that(3) unfolding i(2) by blast
  have lastp: "lc_physical_core (core_at s (unat last)) = old"
    using ex o(2) last unfolding lists_exact_def last_def by simp
  show "on_physical ?s p = on_physical s p - {lid}" if p: "p < 256" for p
  proof (cases "p = ?o")
    case False
    then show ?thesis using ni [OF p] by (auto simp: on_physical_def f)
  next
    case True
    show ?thesis
    proof (rule set_eqI, rule iffI)
      fix x assume "x \<in> on_physical ?s p"
      then obtain j where j: "j < ?L - 1" "x = (if j = i then last else ls_p2l s ?o j)"
        by (auto simp: on_physical_def f True L')
      have "last \<noteq> lid" if "j = i" using that j(1) ni [OF o(2) last] unfolding last_def by auto
      then have "x \<noteq> lid" using j ni [OF o(2), of j] by auto
      moreover have "x \<in> on_physical s p" using j last by (auto simp: on_physical_def True last_def)
      ultimately show "x \<in> on_physical s p - {lid}" by simp
    next
      fix x assume "x \<in> on_physical s p - {lid}"
      then obtain j where j: "j < ?L" "x = ls_p2l s ?o j" "x \<noteq> lid" by (auto simp: on_physical_def True)
      show "x \<in> on_physical ?s p"
      proof (cases "j = ?L - 1")
        case True
        then have x: "x = last" using j(2) by (simp add: last_def)
        have "i \<noteq> ?L - 1" using True j(2,3) i(2) by auto
        then have "i < ?L - 1" using i(1) by simp
        with x show ?thesis by (auto simp: on_physical_def f \<open>p = ?o\<close> L')
      next
        case False
        then have "j < ?L - 1" "j \<noteq> i" using j i by auto
        then show ?thesis using j by (auto simp: on_physical_def f \<open>p = ?o\<close> L' intro!: exI [of _ j])
      qed
    qed
  qed
  show "lists_exact ?s"
    unfolding lists_exact_def
  proof (intro allI impI conjI)
    fix p :: nat assume p: "p < 256"
    show "unat (ls_load ?s p) \<le> 16" using ex p L' by (auto simp: f lists_exact_def)
    fix j assume j: "j < unat (ls_load ?s p)"
    show "ls_index ?s (unat (ls_p2l ?s p j)) = of_nat j"
    proof (cases "p = ?o \<and> j = i")
      case False
      have jl: "j < unat (ls_load s p)" "p \<noteq> ?o \<or> j \<noteq> ?L - 1" using j L' by (auto simp: f split: if_splits)
      have "ls_p2l ?s p j = ls_p2l s p j" using False by (auto simp: f)
      moreover have "unat (ls_p2l s p j) \<noteq> unat last" using nl [OF p jl] by (simp add: word_unat_eq_iff)
      ultimately show ?thesis using ex p jl by (simp add: f lists_exact_def)
    qed (simp add: f)
    show "lc_physical_core (core_at ?s (unat (ls_p2l ?s p j))) = of_nat p"
      using ex p j lastp L' by (auto simp: f lists_exact_def split: if_splits)
  qed
qed

lemma append_exact:
  assumes ex: "lists_exact s" and t: "unat t < 256" "ls_load s (unat t) < 16"
    and new: "\<And>p. p < 256 \<Longrightarrow> lid \<notin> on_physical s p"
    and c: "\<And>j. j \<noteq> unat lid \<Longrightarrow> lc_physical_core (c j) = lc_physical_core (core_at s j)" "lc_physical_core (c (unat lid)) = t"
    and s': "ls_p2l s' = ls_p2l (append_to_physical t lid s)" "ls_load s' = ls_load (append_to_physical t lid s)"
      "ls_index s' = ls_index (append_to_physical t lid s)" "core_at s' = c"
  shows "lists_exact s' \<and> (\<forall>p<256. on_physical s' p = on_physical s p \<union> (if p = unat t then {lid} else {}))"
proof -
  let ?t = "unat t" and ?L = "unat (ls_load s (unat t))"
  have f: "ls_p2l s' = (ls_p2l s)(?t := (ls_p2l s ?t)(?L := lid))" "ls_index s' = (ls_index s)(unat lid := ucast (ls_load s ?t))"
    "ls_load s' = (ls_load s)(?t := ls_load s ?t + 1)"
    using s' by (simp_all add: append_to_physical_def Let_def)
  have nm: "(ls_load s ?t + 1 :: u32) \<noteq> 0"
  proof
    assume "ls_load s ?t + 1 = 0"
    then have "ls_load s ?t = - 1" by (simp add: add_eq_0_iff2)
    then show False using t(2) by simp
  qed
  have L': "unat (ls_load s ?t + 1) = Suc ?L" using nm by (simp add: unatSuc add.commute)
  have nl: "ls_p2l s p j \<noteq> lid" if "p < 256" "j < unat (ls_load s p)" for p j
    using new [OF that(1)] that(2) by (auto simp: on_physical_def)
  have "lists_exact s'"
    unfolding lists_exact_def
  proof (intro allI impI conjI)
    fix p :: nat assume p: "p < 256"
    show "unat (ls_load s' p) \<le> 16" using ex p L' t(2) by (auto simp: f lists_exact_def word_less_nat_alt)
    fix j assume j: "j < unat (ls_load s' p)"
    have d: "(p = ?t \<and> j = ?L) \<or> j < unat (ls_load s p) \<and> ls_p2l s' p j = ls_p2l s p j"
      using j L' by (auto simp: f split: if_splits)
    show "ls_index s' (unat (ls_p2l s' p j)) = of_nat j" "lc_physical_core (core_at s' (unat (ls_p2l s' p j))) = of_nat p"
    proof -
      consider (new) "p = ?t" "j = ?L" | (old) "j < unat (ls_load s p)" "ls_p2l s' p j = ls_p2l s p j" using d by blast
      then have "ls_index s' (unat (ls_p2l s' p j)) = of_nat j \<and> lc_physical_core (core_at s' (unat (ls_p2l s' p j))) = of_nat p"
      proof cases
        case new
        then show ?thesis using c(2) by (simp add: f s'(4))
      next
        case old
        have e: "ls_index s (unat (ls_p2l s p j)) = of_nat j" "lc_physical_core (core_at s (unat (ls_p2l s p j))) = of_nat p"
          using ex p old(1) unfolding lists_exact_def by blast+
        have "unat (ls_p2l s p j) \<noteq> unat lid" using nl [OF p old(1)] by (simp add: word_unat_eq_iff)
        then show ?thesis using e c(1) unfolding old(2) by (simp add: f(2) s'(4))
      qed
      then show "ls_index s' (unat (ls_p2l s' p j)) = of_nat j" "lc_physical_core (core_at s' (unat (ls_p2l s' p j))) = of_nat p" by auto
    qed
  qed
  moreover have "on_physical s' p = on_physical s p \<union> (if p = ?t then {lid} else {})" if "p < 256" for p
  proof (cases "p = ?t")
    case True
    have "on_physical s' p = {if j = ?L then lid else ls_p2l s ?t j |j. j < Suc ?L}"
      unfolding on_physical_def by (auto simp: f True L')
    also have "\<dots> = on_physical s p \<union> {lid}" unfolding on_physical_def True by (auto simp: less_Suc_eq) (metis less_irrefl)
    finally show ?thesis using True by simp
  next
    case False
    then show ?thesis by (simp add: on_physical_def f)
  qed
  ultimately show ?thesis by blast
qed

lemma migration_refines:
  assumes "lists_exact s" and m: "logical_core_perform_migration lid t s = (True, s')"
    and old: "unat (lc_physical_core (core_at s (unat lid))) < 256"
    and on: "lid \<in> on_physical s (unat (lc_physical_core (core_at s (unat lid))))"
  shows "lists_exact s' \<and> (\<forall>p<256. on_physical s' p = on_physical s p - {lid} \<union> (if p = unat t then {lid} else {}))"
proof -
  let ?o = "lc_physical_core (core_at s (unat lid))"
  let ?s1 = "upd_core (unat lid) (\<lambda>x. x\<lparr> lc_state := LOGICAL_CORE_STATE_MIGRATING \<rparr>) s"
  let ?s2 = "remove_from_physical ?o lid ?s1"
  have g: "unat t < 256" "ls_load s (unat t) < 16"
    using m by (auto simp: logical_core_perform_migration_def Let_def not_le physical_less split: if_splits prod.splits)
  have o1: "?o \<noteq> INVALID_PHYSICAL_CORE" using old by (auto simp: hic_consts)
  have 1: "lists_exact ?s1" "on_physical ?s1 = on_physical s"
    using assms(1) lists_exact_cong [of ?s1 s] by simp_all
  have on1: "lid \<in> on_physical ?s1 (unat ?o)" using on 1(2) by simp
  have o2: "lc_physical_core (core_at ?s1 (unat lid)) = ?o" by simp
  note r = remove_exact [OF 1(1) o2 old on1]
  have l2: "ls_load ?s2 (unat t) < 16" by (rule order.strict_trans1 [OF remove_load_le]) (simp add: g)
  have n2: "lid \<notin> on_physical ?s2 p" if "p < 256" for p using r(1) [OF that] by simp
  have f: "ls_p2l s' = ls_p2l (append_to_physical t lid ?s2)" "ls_load s' = ls_load (append_to_physical t lid ?s2)"
    "ls_index s' = ls_index (append_to_physical t lid ?s2)"
    "\<And>j. lc_physical_core (core_at s' j) = (if j = unat lid then t else lc_physical_core (core_at s j))"
    using m o1 by (auto simp: logical_core_perform_migration_def Let_def hal_get_timestamp_def split: if_splits)
  have "lists_exact s' \<and> (\<forall>p<256. on_physical s' p = on_physical ?s2 p \<union> (if p = unat t then {lid} else {}))"
    by (rule append_exact [OF r(2) g(1) l2 n2 _ _ f(1,2,3) refl]) (simp_all add: f(4))
  then show ?thesis using r(1) 1(2) by simp
qed

section \<open>A fresh core\<close>

lemma lo32_of_word0: "ucast (set_hi32 f (set_lo32 l w)) = l"
proof (rule bit_word_eqI)
  fix n :: nat assume "n < LENGTH(32)"
  then show "bit (ucast (set_hi32 f (set_lo32 l w)) :: u32) n = bit l n"
    by (simp add: set_hi32_def set_lo32_def bit_simps)
qed

text \<open>What a successful allocation of one core leaves: the core was free, and the handle opens it.\<close>

lemma allocate_one:
  assumes "lcore_inv s" and "hic_logical_core_allocate u d 1 fl q a True s = Some (Inr hs, s')"
  obtains i h where "hs = [h]" "i < 1024" "is_free s i" "h \<noteq> CAP_HANDLE_INVALID"
    "logical_core_validate_handle d h s' = of_nat i" "lc_state (core_at s' i) = LOGICAL_CORE_STATE_ALLOCATED"
    "lc_owner_domain (core_at s' i) = d" "cap_get_cap_id h < CAP_TABLE_SIZE"
    "capability_exists (cap_get_cap_id h) (lcaps s')" "ce_owner (cap_at (lcaps s') (cap_get_cap_id h)) = d"
    "ce_rights (cap_at (lcaps s') (cap_get_cap_id h)) = CAP_LCORE_USE OR CAP_LCORE_QUERY OR CAP_LCORE_BORROW"
    "cap_get_token h = cap_generate_token (g_domain_keys (lcaps s')) d (cap_get_cap_id h)"
    "lc_capability_handle (core_at s' i) = h"
proof -
  have l: "alloc_loop 1 u d fl q a [] s = Some (Inr hs, s')"
    using assms(2) by (auto simp: hic_logical_core_allocate_def split: if_splits)
  have po: "pool_ok s" using assms(1) by (simp add: lcore_inv_def)
  obtain i where f: "logical_core_find_free fl q a s = Some (of_nat i)" "i < 1024" "is_free s i"
  proof (cases rule: find_free_cases [OF po, of fl q a])
    case 1
    then show ?thesis using l by simp
  next
    case (2 i)
    then show ?thesis using that by blast
  qed
  note v = nat_core_valid [OF f(2)] and un = nat_core_id [OF f(2)]
  obtain h where al: "logical_core_allocate_to_domain (of_nat i) d fl q a s = (h, s')" "h \<noteq> CAP_HANDLE_INVALID" "hs = [h]"
    using l f(1) v by (auto simp: Let_def split: prod.splits if_splits)
  let ?s5 = "alloc_mapped (of_nat i) d fl q a s"
  note k = alloc_mapped_keeps [OF assms(1) conjunct2 [OF v], unfolded un, OF f(3), of d fl q a]
  obtain cap c where cr: "cap_create_logical_core d (of_nat i) fl q (CAP_LCORE_USE OR CAP_LCORE_QUERY OR CAP_LCORE_BORROW) True (lcaps ?s5) = (Inr cap, c)"
      and gr: "cap_grant d cap True c = Inr h"
      and s': "s' = upd_core i (\<lambda>x. x\<lparr> lc_capability_handle := h \<rparr>) (put_lcaps c ?s5)"
    using al(1,2) unfolding alloc_to_domain_alt Let_def by (auto simp: un split: prod.splits sum.splits if_splits)
  have t: "cap < CAP_TABLE_SIZE" "ce_id (cap_at c cap) = cap" and h: "h = cap_make_handle (g_domain_keys c) d cap"
    using gr by (auto simp: cap_grant_def not_le split: if_splits)
  have e: "ce_rights (cap_at c cap) = CAP_LCORE_USE OR CAP_LCORE_QUERY OR CAP_LCORE_BORROW" "ce_owner (cap_at c cap) = d"
    "ce_flags (cap_at c cap) = 0" "(ucast (ce_word0 (cap_at c cap)) :: u32) = of_nat i"
    using cr by (auto simp: cap_create_logical_core_def Let_def lo32_of_word0 upd_cap_def split: if_splits)
  have c': "lcaps s' = c" by (simp add: s')
  have ex: "capability_exists cap c" using t e(3) by (simp add: capability_exists_def entry_revoked_def)
  have id: "cap_get_cap_id h = cap" "cap_get_token h = cap_generate_token (g_domain_keys c) d cap" by (simp_all add: h)
  have st: "lc_state (core_at s' i) = LOGICAL_CORE_STATE_ALLOCATED" "lc_owner_domain (core_at s' i) = d" "lc_capability_handle (core_at s' i) = h"
    using k(3,4) by (simp_all add: s')
  have "cap_check_access d h CAP_LCORE_USE c = Inr ()"
    using t e al(2) id by (simp add: cap_check_access_def Let_def entry_revoked_def cap_validate_token_def not_le hic_consts)
  moreover have "cap_get_logical_core_info cap c = Inr (of_nat i, ucast (drop_bit 32 (ce_word0 (cap_at c cap))), lc_quota (cap_at c cap))"
    using t ex e(4) by (simp add: cap_get_logical_core_info_def Let_def not_le)
  ultimately have "logical_core_validate_handle d h s' = of_nat i"
    using al(2) st un not_le [THEN iffD2, OF conjunct2 [OF v]] by (simp add: logical_core_validate_handle_def c' id)
  then show thesis
    using that [OF al(3) f(2,3) al(2)] st t ex e id c' by simp
qed

section \<open>Properties\<close>


definition ls_boot :: lcore_state where
  "ls_boot = \<lparr> ls_k = ks_ex, ls_l2p = (\<lambda>_. 0), ls_p2l = (\<lambda>_ _. 0), ls_load = (\<lambda>_. 0), ls_free = None,
     ls_free_bitmap = (\<lambda>_. 0), ls_free_count = 0, ls_next_id = 0, ls_borrow = (\<lambda>_. borrow_info_zero), ls_cached_min = 0,
     ls_index = (\<lambda>_. 0), ls_check_counter = 0, ls_clock = of_nat, ls_ticks = 1 \<rparr>"

lemma ls_boot_reach: "lcore_reach (logical_core_system_init ls_boot)"
  by (rule lcore_reach.boot) (simp_all add: ls_boot_def)




text \<open>
  C15. The tables of physical cores are used within their bounds. In every history a physical core
  lists at most the sixteen logical cores its row has room for, every entry of a row is the index of
  a control block, and a logical core is mapped to no physical core or to one in the table.
\<close>

theorem lcore_tables_in_bounds:
  assumes "lcore_reach s" and "p < unat MAX_PHYSICAL_CORES" and "i < unat MAX_LOGICAL_CORES"
  shows "ls_load s p \<le> 16 \<and> {ls_p2l s p j |j. j < 16} \<subseteq> {l. l < MAX_LOGICAL_CORES} \<and>
     lc_physical_core (core_at s i) \<in> insert INVALID_PHYSICAL_CORE {q. q < MAX_PHYSICAL_CORES}"
proof -
  have m: "unat MAX_LOGICAL_CORES = 1024" "unat MAX_PHYSICAL_CORES = 256" by (simp_all add: hic_consts)
  have "lists_typed s" using lcore_reach_inv [OF assms(1)] by (simp add: lcore_inv_def)
  then show ?thesis using assms(2,3) unfolding lists_typed_def m by blast
qed

theorem lcore_tables_in_bounds_witness:
  "ls_load (logical_core_system_init ls_boot) 3 \<le> 16 \<and>
   {ls_p2l (logical_core_system_init ls_boot) 3 j |j. j < 16} \<subseteq> {l. l < MAX_LOGICAL_CORES} \<and>
   lc_physical_core (core_at (logical_core_system_init ls_boot) 5) \<in> insert INVALID_PHYSICAL_CORE {q. q < MAX_PHYSICAL_CORES}"
  by (rule lcore_tables_in_bounds [OF ls_boot_reach]) (simp_all add: hic_consts)

text \<open>
  C13. A migration moves one core. On lists that agree with the index table and the mapping, a
  successful migration removes the core from its old list by moving the last entry into its place,
  appends it to the target's, and leaves the set of cores on every other physical core, and the
  agreement, as they were.
\<close>

theorem migration_moves_one_core:
  assumes "lists_exact s" and "logical_core_perform_migration lid t s = (True, s')"
    and "unat (lc_physical_core (core_at s (unat lid))) < 256"
    and "lid \<in> on_physical s (unat (lc_physical_core (core_at s (unat lid))))" and "p < 256"
  shows "lists_exact s' \<and> on_physical s' p = on_physical s p - {lid} \<union> (if p = unat t then {lid} else {})"
  using migration_refines [OF assms(1,2,3,4)] assms(5) by blast

definition ls_two :: lcore_state where
  "ls_two = ls_boot\<lparr> ls_k := ks_ex\<lparr> k_lcores := (\<lambda>_. logical_core_zero\<lparr> lc_state := LOGICAL_CORE_STATE_ALLOCATED,
       lc_affinity := (\<lambda>_. 0xFF) \<rparr>) \<rparr>,
     ls_load := (\<lambda>p. if p = 0 then 2 else 0), ls_p2l := (\<lambda>_ j. of_nat j), ls_index := (\<lambda>i. of_nat i) \<rparr>"

theorem migration_moves_one_core_witness:
  "on_physical (snd (logical_core_perform_migration 0 3 ls_two)) 0 = {1} \<and>
   on_physical (snd (logical_core_perform_migration 0 3 ls_two)) 3 = {0}"
proof -
  have two: "{of_nat j |j. j < (2 :: nat)} = {0, 1 :: u32}" 
    by (auto simp: less_2_cases_iff intro: exI [of _ 0] exI [of _ "Suc 0"])
  have on: "on_physical ls_two 0 = {0, 1}" "on_physical ls_two 3 = {}" using two by (simp_all add: on_physical_def ls_two_def)
  have ex: "lists_exact ls_two" by (auto simp: lists_exact_def ls_two_def core_at_def logical_core_zero_def unat_of_nat less_2_cases_iff)
  have ok: "fst (logical_core_perform_migration 0 3 ls_two)" by code_simp
  have m: "logical_core_perform_migration 0 3 ls_two = (True, snd (logical_core_perform_migration 0 3 ls_two))"
    using ok by (simp add: prod_eq_iff)
  have c: "unat (lc_physical_core (core_at ls_two (unat 0))) = 0" by (simp add: ls_two_def core_at_def logical_core_zero_def)
  show ?thesis
    using migration_moves_one_core [OF ex m, unfolded c, of 0] migration_moves_one_core [OF ex m, unfolded c, of 3] on by auto
qed

text \<open>
  C37. An allocated core can be used but not moved. After a successful allocation of one core the
  handle opens a core that was free and now belongs to the domain; but the capability lacks the
  rights that migration, setting the affinity and reading or resetting the counters ask for, so all
  of them fail for its owner.
\<close>

theorem allocated_core_usable_not_movable:
  assumes "lcore_reach s" and "hic_logical_core_allocate u d 1 fl q a True s = Some (Inr hs, s')" and "caller_domain s' = d"
    and "t < MAX_PHYSICAL_CORES"
  shows "\<exists>h lid. hs = [h] \<and> lc_state (core_at s (unat lid)) = LOGICAL_CORE_STATE_FREE \<and>
     logical_core_validate_handle d h s' = lid \<and> hic_logical_core_get_info h True s' = Inr (core_at s' (unat lid)) \<and>
     lc_owner_domain (core_at s' (unat lid)) = d \<and>
     hic_logical_core_migrate h t s' = (Inl HIC_ERROR_PERMISSION, s') \<and>
     hic_logical_core_set_affinity h (Some m) s' = (Inl HIC_ERROR_PERMISSION, s') \<and>
     hic_logical_core_get_perf h True s' = Inl HIC_ERROR_PERMISSION \<and>
     hic_logical_core_reset_perf h s' = (Inl HIC_ERROR_PERMISSION, s')"
proof (rule allocate_one [OF lcore_reach_inv [OF assms(1)] assms(2)])
  fix i h
  assume A: "hs = [h]" "i < 1024" "is_free s i" "h \<noteq> CAP_HANDLE_INVALID"
    "logical_core_validate_handle d h s' = of_nat i" "lc_owner_domain (core_at s' i) = d" "cap_get_cap_id h < CAP_TABLE_SIZE"
    "capability_exists (cap_get_cap_id h) (lcaps s')"
    and R: "ce_rights (cap_at (lcaps s') (cap_get_cap_id h)) = CAP_LCORE_USE OR CAP_LCORE_QUERY OR CAP_LCORE_BORROW"
    and T: "cap_get_token h = cap_generate_token (g_domain_keys (lcaps s')) d (cap_get_cap_id h)"
  have chk: "cap_check_access d h r (lcaps s') = (if (CAP_LCORE_USE OR CAP_LCORE_QUERY OR CAP_LCORE_BORROW) AND r = r
      then Inr () else Inl HIC_ERROR_PERMISSION)" for r
    using A R T not_le [THEN iffD2, OF A(7)]
    by (auto simp: cap_check_access_def Let_def capability_exists_def cap_validate_token_def)
  have cc: "checked_core h r s' = (if (CAP_LCORE_USE OR CAP_LCORE_QUERY OR CAP_LCORE_BORROW) AND r = r
      then Inr (of_nat i) else Inl HIC_ERROR_PERMISSION)" for r
    using A(5) nat_core_valid [OF A(2)] by (simp add: checked_core_def Let_def assms(3) chk)
  have q: "checked_core h CAP_LCORE_QUERY s' = Inr (of_nat i)" "checked_core h CAP_LCORE_MIGRATE s' = Inl HIC_ERROR_PERMISSION"
    "checked_core h CAP_LCORE_SET_AFFINITY s' = Inl HIC_ERROR_PERMISSION" "checked_core h CAP_LCORE_MONITOR s' = Inl HIC_ERROR_PERMISSION"
    unfolding cc by (simp_all add: hic_consts)
  show ?thesis
    using A assms(4) q nat_core_id [OF A(2)]
    by (intro exI [of _ h] exI [of _ "of_nat i"])
       (simp add: hic_logical_core_get_info_def hic_logical_core_migrate_def hic_logical_core_set_affinity_def
          hic_logical_core_get_perf_def hic_logical_core_reset_perf_def not_le)
qed

text \<open>A single core can be had from a pool with a free core while the capability table has room.\<close>

lemma allocate_one_succeeds:
  assumes "lcore_inv s" and "i < 1024" and "is_free s i" and "q \<ge> 1" and "q \<le> 10"
    and room: "\<And>lid. \<exists>cap c. cap_create_logical_core HIC_DOMAIN_CORE lid fl q
        (CAP_LCORE_USE OR CAP_LCORE_QUERY OR CAP_LCORE_BORROW) True (lcaps s) = (Inr cap, c) \<and> cap < CAP_TABLE_SIZE"
  shows "\<exists>hs s'. hic_logical_core_allocate u HIC_DOMAIN_CORE 1 fl q None True s = Some (Inr hs, s')"
proof -
  have dm: "\<not> HIC_DOMAIN_CORE \<ge> HIC_DOMAIN_MAX" by (simp add: hic_consts word_le_nat_alt)
  have "lc_guaranteed_quota (core_at s i) = 10"
    using assms(1-3) by (simp add: lcore_inv_def pool_ok_def hic_consts)
  then have suits: "free_core_suits fl q None (core_at s i)" using assms(3,5) by (simp add: free_core_suits_def not_less)
  have po: "pool_ok s" using assms(1) by (simp add: lcore_inv_def)
  obtain j where f: "logical_core_find_free fl q None s = Some (of_nat j)" "j < 1024" "is_free s j"
  proof (cases rule: find_free_cases [OF po, of fl q None])
    case 1
    then show ?thesis using assms(2,3) suits by blast
  next
    case (2 j)
    then show ?thesis using that by blast
  qed
  note v = nat_core_valid [OF f(2)] and un = nat_core_id [OF f(2)]
  let ?s5 = "alloc_mapped (of_nat j) HIC_DOMAIN_CORE fl q None s"
  have l5: "lcaps ?s5 = lcaps s"
    using alloc_mapped_keeps(5) [OF assms(1) conjunct2 [OF v], unfolded un, OF f(3)] .
  obtain cap c where cr: "cap_create_logical_core HIC_DOMAIN_CORE (of_nat j) fl q
        (CAP_LCORE_USE OR CAP_LCORE_QUERY OR CAP_LCORE_BORROW) True (lcaps s) = (Inr cap, c)" "cap < CAP_TABLE_SIZE"
    using room by blast
  have "ce_id (cap_at c cap) = cap"
    using cr(1) by (auto simp: cap_create_logical_core_def Let_def upd_cap_def split: if_splits)
  then have gr: "cap_grant HIC_DOMAIN_CORE cap True c = Inr (cap_make_handle (g_domain_keys c) HIC_DOMAIN_CORE cap)"
    using cr(2) dm by (simp add: cap_grant_def not_le)
  have "\<exists>h s'. logical_core_allocate_to_domain (of_nat j) HIC_DOMAIN_CORE fl q None s = (h, s') \<and> h \<noteq> CAP_HANDLE_INVALID"
    unfolding alloc_to_domain_alt Let_def l5 cr(1) using v dm gr cap_make_handle_valid by (simp add: not_le)
  then obtain h s' where "logical_core_allocate_to_domain (of_nat j) HIC_DOMAIN_CORE fl q None s = (h, s')" "h \<noteq> CAP_HANDLE_INVALID" by blast
  then have al: "alloc_loop (Suc 0) u HIC_DOMAIN_CORE fl q None [] s = Some (Inr [h], s')" using f(1) v by simp
  have g: "\<not> (HIC_DOMAIN_CORE \<ge> HIC_DOMAIN_MAX \<or> (1 :: u32) = 0 \<or> (1 :: u32) > 16 \<or> \<not> True)"
    "\<not> (q < LOGICAL_CORE_QUOTA_MIN \<or> q > LOGICAL_CORE_QUOTA_MAX)"
    using dm assms(4,5) by (auto simp: LOGICAL_CORE_QUOTA_MIN_def LOGICAL_CORE_QUOTA_MAX_def not_less word_le_nat_alt word_less_nat_alt)
  have "hic_logical_core_allocate u HIC_DOMAIN_CORE 1 fl q None True s = alloc_loop (unat (1 :: u32)) u HIC_DOMAIN_CORE fl q None [] s"
    unfolding hic_logical_core_allocate_def using g by (simp only: if_False if_not_P simp_thms)
  then show ?thesis using al by simp
qed

lemma system_init_caps: "lcaps (logical_core_system_init s) = lcaps s" "k_current (ls_k (logical_core_system_init s)) = k_current (ls_k s)"
proof -
  have i: "lcaps (logical_core_init_block i t) = lcaps t" "k_current (ls_k (logical_core_init_block i t)) = k_current (ls_k t)" for i t
    by (auto simp: logical_core_init_block_def Let_def upd_core_def lcaps_def upd_lcore_def split: option.splits)
  have "lcaps (for_range (\<lambda>i. logical_core_init_block (of_nat i)) j n t) = lcaps t \<and>
      k_current (ls_k (for_range (\<lambda>i. logical_core_init_block (of_nat i)) j n t)) = k_current (ls_k t)" for j n t
    by (induction n arbitrary: j t) (simp_all add: i)
  then show "lcaps (logical_core_system_init s) = lcaps s" "k_current (ls_k (logical_core_system_init s)) = k_current (ls_k s)"
    by (simp_all add: logical_core_system_init_def Let_def lcaps_def)
qed

lemma allocate_caller:
  assumes "lcore_inv s" and "hic_logical_core_allocate u d 1 fl q a True s = Some (Inr hs, s')"
    and "k_current (ls_k s) = TNull"
  shows "caller_domain s' = HIC_DOMAIN_CORE"
proof -
  let ?c = "\<lambda>s. k_current (ls_k s)"
  have u: "?c (upd_core i f t) = ?c t" "?c (put_lcaps c t) = ?c t" "?c (append_to_physical p l t) = ?c t"
    "?c (logical_core_init_block l t) = ?c t" "?c (logical_core_remove_from_free_list i t) = ?c t" for i f t c p l
    by (auto simp: upd_core_def upd_lcore_def put_lcaps_def append_to_physical_def Let_def logical_core_init_block_def
        logical_core_remove_from_free_list_def split: option.splits)
  have r: "?c (snd (for_range refresh_step i n (m, t))) = ?c t" for i n m t
    by (induction n arbitrary: i m t) (auto simp: refresh_step_def)
  have sel: "?c (snd (select_physical aff t)) = ?c t" for aff t
    using r by (auto simp: select_physical_def cached_min_core_def Let_def split: option.splits)
  have al: "?c (alloc_mapped l d fl q a t) = ?c t" for l t
    by (simp add: alloc_mapped_def Let_def case_prod_beta u sel)
  have "?c (snd (logical_core_allocate_to_domain l d fl q a t)) = ?c t" for l t
    unfolding alloc_to_domain_alt Let_def by (auto simp: u al free_core_again_def split: prod.splits sum.splits)
  moreover have "alloc_loop 1 u d fl q a [] s = Some (Inr hs, s')"
    using assms(2) by (auto simp: hic_logical_core_allocate_def split: if_splits)
  ultimately have "?c s' = ?c s"
    by (auto simp: Let_def split: option.splits if_splits prod.splits) (metis snd_conv)
  then show ?thesis using assms(3) by (simp add: caller_domain_def)
qed

lemma ls_boot_allocate:
  "\<exists>hs s'. hic_logical_core_allocate 7 HIC_DOMAIN_CORE 1 LOGICAL_CORE_FLAG_MIGRATABLE 10 None True (logical_core_system_init ls_boot) = Some (Inr hs, s')"
proof (rule allocate_one_succeeds [OF lcore_reach_inv [OF ls_boot_reach], of 0])
  let ?s = "logical_core_system_init ls_boot"
  have c: "lcaps ?s = xs_caps xs_ex0" by (simp add: system_init_caps) (simp add: ls_boot_def ks_ex_def lcaps_def)
  let ?cap = "cap_slot_scan (g_global_cap_table (xs_caps xs_ex0)) (unat CAP_TABLE_SIZE - 1) 1 HIC_CAP_INVALID"
  have sl: "?cap \<noteq> HIC_CAP_INVALID \<and> ?cap < CAP_TABLE_SIZE" by code_simp
  have dm: "\<not> HIC_DOMAIN_CORE \<ge> HIC_DOMAIN_MAX" by (simp add: hic_consts word_le_nat_alt)
  show "\<exists>cap c. cap_create_logical_core HIC_DOMAIN_CORE lid LOGICAL_CORE_FLAG_MIGRATABLE 10
      (CAP_LCORE_USE OR CAP_LCORE_QUERY OR CAP_LCORE_BORROW) True (lcaps ?s) = (Inr cap, c) \<and> cap < CAP_TABLE_SIZE" for lid
    using sl dm unfolding c cap_create_logical_core_def Let_def by simp
  have u: "init_upto 1024 (for_range (\<lambda>i. logical_core_init_block (of_nat i)) 0 1024 t)" if "init_upto 0 t" for t
    using init_upto_loop [OF that, of 1024] by simp
  show "is_free ?s 0"
    unfolding logical_core_system_init_def Let_def using u
    by (simp add: hic_consts) (simp add: init_upto_def chain_def ls_boot_def)
qed simp_all

theorem allocated_core_usable_not_movable_witness:
  "\<exists>h s'. hic_logical_core_allocate 7 HIC_DOMAIN_CORE 1 LOGICAL_CORE_FLAG_MIGRATABLE 10 None True
       (logical_core_system_init ls_boot) = Some (Inr [h], s') \<and>
     hic_logical_core_migrate h 3 s' = (Inl HIC_ERROR_PERMISSION, s')"
proof -
  obtain hs s' where al: "hic_logical_core_allocate 7 HIC_DOMAIN_CORE 1 LOGICAL_CORE_FLAG_MIGRATABLE 10 None True
       (logical_core_system_init ls_boot) = Some (Inr hs, s')" using ls_boot_allocate by blast
  have "k_current (ls_k (logical_core_system_init ls_boot)) = TNull"
    by (simp add: system_init_caps) (simp add: ls_boot_def ks_ex_def)
  then have c: "caller_domain s' = HIC_DOMAIN_CORE" by (rule allocate_caller [OF lcore_reach_inv [OF ls_boot_reach] al])
  have t: "(3 :: u32) < MAX_PHYSICAL_CORES" by (simp add: hic_consts)
  from allocated_core_usable_not_movable [OF ls_boot_reach al c t, of "\<lambda>_. 0"]
  obtain h where "hs = [h]" "hic_logical_core_migrate h 3 s' = (Inl HIC_ERROR_PERMISSION, s')" by blast
  then show ?thesis using al by blast
qed

text \<open>
  C38. No core can be borrowed. As long as the capability of every core that may be lent belongs to
  the lender, a request to borrow fails and changes nothing: the capability for the borrower is
  derived in the borrower's name, which \<open>cap_derive\<close> refuses because the parent belongs to the
  lender.
\<close>

theorem borrow_always_refused:
  assumes "\<And>i. i < unat MAX_LOGICAL_CORES \<Longrightarrow> borrowable source s i \<Longrightarrow>
      ce_owner (cap_at (lcaps s) (ucast (lc_capability_handle (core_at s i)))) = source"
  shows "\<exists>e. hic_logical_core_borrow borrower source duration qta aff out_ok s = (Inl e, s)"
proof -
  have p: "put_lcaps (lcaps s) s = s" by (simp add: put_lcaps_def lcaps_def)
  let ?L = "map of_nat (take (unat (16 :: u32)) (filter (borrowable source s) [0..<unat MAX_LOGICAL_CORES])) :: u32 list"
  have der: "\<exists>e. cap_derive borrower (ucast (lc_capability_handle (core_at s (unat lid)))) r True (lcaps s) = (Inl e, lcaps s)"
    if lid: "lid \<in> set ?L" and ne: "borrower \<noteq> source" for lid r
  proof -
    obtain i where i0: "i \<in> set (take (unat (16 :: u32)) (filter (borrowable source s) [0..<unat MAX_LOGICAL_CORES]))" "lid = of_nat i"
      using lid by auto
    then have i: "i < unat MAX_LOGICAL_CORES" "borrowable source s i" "lid = of_nat i"
      using in_set_takeD [OF i0(1)] by auto
    have "unat (of_nat i :: u32) = i" using i(1) by (intro nat_core_id) (simp add: hic_consts)
    then have "ce_owner (cap_at (lcaps s) (ucast (lc_capability_handle (core_at s (unat lid))))) = source"
      using assms [OF i(1,2)] i(3) by simp
    then show ?thesis using ne unfolding cap_derive_def by auto
  qed
  let ?P = "\<lambda>l. case aff of None \<Rightarrow> True | Some m \<Rightarrow> affinity_meet (lc_affinity (core_at s (unat l))) m"
  show ?thesis
  proof (cases "\<not> out_ok \<or> borrower = source \<or> \<not> domain_is_active borrower (ls_k s) \<or> \<not> domain_is_active source (ls_k s)")
    case True
    then show ?thesis by (auto simp: hic_logical_core_borrow_def)
  next
    case False
    show ?thesis
    proof (cases "find ?P ?L")
      case None
      then show ?thesis using False unfolding hic_logical_core_borrow_def hic_logical_core_get_borrowable_def by simp
    next
      case (Some lid)
      then have "lid \<in> set ?L" by (metis find_Some_iff nth_mem)
      then obtain e where "cap_derive borrower (ucast (lc_capability_handle (core_at s (unat lid))))
          (CAP_LCORE_BORROW OR CAP_LCORE_USE) True (lcaps s) = (Inl e, lcaps s)" using der False by blast
      then show ?thesis using False Some p unfolding hic_logical_core_borrow_def hic_logical_core_get_borrowable_def Let_def by simp
    qed
  qed
qed

definition ls_lend :: lcore_state where
  "ls_lend = ls_boot\<lparr> ls_k := ks_ex\<lparr> k_xs := (k_xs ks_ex)\<lparr> xs_caps := ex_two \<rparr>,
     k_doms := (\<lambda>_. domain_zero\<lparr> domain_state := DOMAIN_STATE_RUNNING \<rparr>),
     k_lcores := (\<lambda>i. if i = 0 then logical_core_zero\<lparr> lc_state := LOGICAL_CORE_STATE_ALLOCATED, lc_owner_domain := 1,
       lc_flags := LOGICAL_CORE_FLAG_MIGRATABLE, lc_running_thread := INVALID_THREAD, lc_capability_handle := 2 \<rparr>
       else logical_core_zero) \<rparr> \<rparr>"

theorem borrow_always_refused_witness:
  "borrowable 1 ls_lend 0 \<and> (\<exists>e. hic_logical_core_borrow 3 1 1000 5 None True ls_lend = (Inl e, ls_lend))"
proof -
  have b: "borrowable 1 ls_lend i = (i = 0)" for i
    by (simp add: borrowable_def core_at_def ls_lend_def ls_boot_def borrow_info_zero_def logical_core_zero_def hic_consts)
  have o: "ce_owner (cap_at ex_two 2) = 1" by code_simp
  have "ce_owner (cap_at (lcaps ls_lend) (ucast (lc_capability_handle (core_at ls_lend 0)))) = 1"
    using o by (simp add: ls_lend_def lcaps_def core_at_def)
  then show ?thesis using b borrow_always_refused [of 1 ls_lend 3 1000 5 None True] by simp
qed

text \<open>
  C39. The quota update divides by zero. When a core is active, has been allotted no time and has
  used some, \<open>logical_core_update_quotas\<close> computes its overrun in percent of the allotted time and
  traps. Allotted time is written only by the borrowing operation, so this is the case of every
  core on which a thread has run.
\<close>

theorem quota_update_traps:
  assumes "i < unat MAX_LOGICAL_CORES" and "lc_state (core_at s i) = LOGICAL_CORE_STATE_ACTIVE" and "lc_allocated_time (core_at s i) = 0"
    and "lc_used_time (core_at s i) + (ls_clock s (ls_ticks s) - lc_last_schedule_time (core_at s i)) \<noteq> 0"
  shows "logical_core_update_quotas s = None"
proof -
  let ?now = "ls_clock s (ls_ticks s)"
  have other: "core_at t' i = core_at t i" if "quota_step ?now j t = Some t'" "j \<noteq> i" for j t t'
    using that by (auto simp: quota_step_def Let_def split: if_splits)
  have here: "quota_step ?now i t = None" if "core_at t i = core_at s i" for t
    using that assms(2-4) by (simp add: quota_step_def Let_def word_neq_0_conv)
  have "quota_loop ?now j n t = None" if "j \<le> i" "i < j + n" "core_at t i = core_at s i" for j n t
    using that
  proof (induction n arbitrary: j t)
    case 0
    then show ?case by simp
  next
    case (Suc n)
    show ?case
    proof (cases "j = i")
      case True
      then show ?thesis using here Suc.prems(3) by simp
    next
      case False
      then show ?thesis using Suc.IH [of "Suc j"] Suc.prems other by (auto split: option.splits)
    qed
  qed
  from this [of 0 "unat MAX_LOGICAL_CORES" "snd (hal_get_timestamp s)"] show ?thesis
    using assms(1) by (simp add: logical_core_update_quotas_def hal_get_timestamp_def)
qed

theorem quota_update_traps_witness:
  "logical_core_update_quotas (upd_core 5 (\<lambda>x. x\<lparr> lc_state := LOGICAL_CORE_STATE_ACTIVE \<rparr>) ls_two) = None"
  by (rule quota_update_traps [of 5])
     (simp_all add: hic_consts upd_core_def upd_lcore_def core_at_def ls_two_def ls_boot_def logical_core_zero_def)

text \<open>A request for more than the default quota is refused in every history.\<close>

lemma large_quota_refused:
  assumes "lcore_reach s" and "q > LOGICAL_CORE_DEFAULT_QUOTA"
  shows "\<exists>e. hic_logical_core_allocate u d n fl q a ok s = Some (Inl e, s)"
proof -
  have po: "pool_ok s" using lcore_reach_inv [OF assms(1)] by (simp add: lcore_inv_def)
  have none: "logical_core_find_free fl q a s = Some INVALID_LOGICAL_CORE"
  proof (cases rule: find_free_cases [OF po, of fl q a])
    case 1
    then show ?thesis by simp
  next
    case (2 i)
    then show ?thesis using po assms(2) by (auto simp: pool_ok_def free_core_suits_def)
  qed
  have l: "alloc_loop (Suc m) u d fl q a [] s = Some (Inl HIC_ERROR_NO_RESOURCE, s)" for m using none by simp
  show ?thesis
  proof (cases "unat n")
    case 0
    then show ?thesis by (simp add: hic_logical_core_allocate_def unat_eq_zero)
  next
    case (Suc m)
    then show ?thesis using l by (auto simp: hic_logical_core_allocate_def simp del: alloc_loop.simps)
  qed
qed

end
