(* ===== verification/Spec2Isabelle.thy ===== *)
theory Spec2Isabelle
  imports Hic_Shmem Hic_Cnode_Props Hic_Lib Hic_Ipc3_Props Hic_Lcore_Props
begin

text \<open>
  A verification library for Core-0, the kernel of HIC, a capability microkernel in C (sources under
  \<^verbatim>\<open>src/src/Core-0\<close>).

  \<^bold>\<open>The program.\<close> Core-0 hands out physical frames (\<^verbatim>\<open>pmm.c\<close>), names every resource by an entry
  of one capability table and lets domains refer to entries by handles (\<^verbatim>\<open>capability.c\<close>), builds
  address spaces (\<^verbatim>\<open>pagetable.c\<close>, \<^verbatim>\<open>domain_switch.c\<close>), creates domains out of frames, capabilities and
  page tables (\<^verbatim>\<open>domain.c\<close>), runs threads in them (\<^verbatim>\<open>thread.c\<close>, \<^verbatim>\<open>scheduler.c\<close>, \<^verbatim>\<open>context.S\<close>) on logical
  cores (\<^verbatim>\<open>logical_core.c\<close>), and lets one domain call another through entry pages (\<^verbatim>\<open>ipc3.c\<close>,
  \<^verbatim>\<open>interrupts.S\<close>).

  \<^bold>\<open>The model.\<close> Every C function that changes state is a function from state to result and state; a
  status other than success is \<open>Inl\<close> of the error, and each early return is a branch. Tables are
  functions from indices, integers have the width of the source, structures are records with the
  source's fields. A pointer into a table is its index. Out parameters that the code checks for
  \<open>NULL\<close> are a boolean. Time stamps, linker addresses, register contents, contents of uninitialized
  variables and values read from hardware are arguments or part of the state. Console output,
  interrupt masking, audit records and monitor events are left out.

  \<^item> \<open>Hic_Prelude\<close>: word types, error codes, the loops \<open>find_first\<close> and \<open>for_range\<close>, and the
    interfaces as locales: \<open>bitset\<close>, \<open>slot_table\<close> and \<open>frame_allocator\<close>, interpreted on the bitmaps,
    slot searches and allocators of the components below.
  \<^item> \<open>Hic_Pmm\<close> (\<^verbatim>\<open>pmm.c\<close>): bitmap, regions, allocation and release. Live blocks are disjoint and
    counted; first fit; allocation followed by release restores the state.
  \<^item> \<open>Hic_Handle\<close>, \<open>Hic_Domtab\<close>, \<open>Hic_Capability\<close> (\<^verbatim>\<open>capability.h\<close>, \<^verbatim>\<open>domain.h\<close>, \<^verbatim>\<open>capability.c\<close>): tokens
    and handles, control blocks and policies, and the capability table. \<open>Hic_Cap_Invariant\<close> has the
    well-formedness of the table, \<open>Hic_Cap_Authority\<close> the authority an entry conveys, and
    \<open>Hic_Cap_Props\<close> confinement of authority, effect of revocation and agreement of the access checks.
  \<^item> \<open>Hic_Shmem\<close> (\<^verbatim>\<open>capability.c\<close>): shared memory regions and service instances; exact reference
    counts.
  \<^item> \<open>Hic_Cnode\<close>, \<open>Hic_Cnode_Props\<close> (\<^verbatim>\<open>capability.c\<close>): capability spaces as trees of nodes from a pool;
    memory safety, and lookup as resolution along the tree.
  \<^item> \<open>Hic_Lib\<close> (\<^verbatim>\<open>lib/mem.c\<close>, \<^verbatim>\<open>lib/string.c\<close>): memory and string routines over a byte store.
  \<^item> \<open>Hic_Pagetable\<close> (\<^verbatim>\<open>pagetable.c\<close>, \<^verbatim>\<open>domain_switch.c\<close>): four-level tables in a store of 512-word pages;
    tables are separate, mapping translates, a life cycle leaks nothing.
  \<^item> \<open>Hic_Kernel\<close>, \<open>Hic_Domain\<close>, \<open>Hic_Domain_Props\<close> (\<^verbatim>\<open>domain.c\<close>): the common kernel state and the life
    cycle of domains, quotas, emergencies, atomic switch and shutdown.
  \<^item> \<open>Hic_Thread\<close>, \<open>Hic_Thread_Props\<close> (\<^verbatim>\<open>thread.c\<close>, \<^verbatim>\<open>scheduler.c\<close>, \<^verbatim>\<open>context.S\<close>): threads with stacks in the
    page store, the boot scheduler and the context switch; fairness, one running thread, a new
    thread starts at its entry point.
  \<^item> \<open>Hic_Ipc3\<close>, \<open>Hic_Ipc3_Props\<close> (\<^verbatim>\<open>ipc3.c\<close>, \<^verbatim>\<open>interrupts.S\<close>): services, the machine code of entry pages with
    an executor for its instructions, the page-fault path and the return; the page enforces the
    authorizations made, and an accepted call returns to its caller.
  \<^item> \<open>Hic_Lcore\<close>, \<open>Hic_Lcore_Props\<close> (\<^verbatim>\<open>logical_core.c\<close>, \<open>thread_create\<close> of \<^verbatim>\<open>thread.c\<close>): logical cores with
    their linked free list and the lists per physical core, migration, borrowing and quotas; the
    free list is exact, allocation returns, tables stay in bounds, a migration moves one core.

  \<^bold>\<open>Composition.\<close> \<open>kernel_state\<close> holds the capability spaces, which hold the capability table, which
  holds the memory manager; page tables take frames from that same manager, and stacks and entry
  pages lie in the page store. IPC 3.0 and the logical cores extend this state with their own
  globals, so that an operation that spans components runs on the one state.

  \<^bold>\<open>Bounds and fuel.\<close> Loops over tables run over the size of the table in the source. Recursive
  revocation carries the depth counter of the source. The wait of a graceful shutdown takes a
  number of rounds, and it is proved that it returns by the first round after the deadline. The
  walk along the free list of logical cores is a partial function, and it is proved that it ends in
  every history. An entry page is executed for five instructions, its longest path. Histories of
  logical cores leave out allocations of several cores that fail half-way, because the code then
  writes through an uninitialized variable.

  \<^bold>\<open>Not modelled.\<close> The translation buffer, interrupt controllers, timers, serial port, power
  management and processor detection are hardware. System calls, interrupt routing, audit log,
  monitor, service registry, run-time invariant checks, module loading and configuration are further
  software parts of Core-0 that are not modelled; they call the operations above or only report. The
  boot loader, the services outside the kernel and the other architectures are separate programs.
  Pre-emption between the statements of an operation is not modelled: the operations run in critical
  sections on one processor. In the library routines \<open>atoi\<close> and \<open>atol\<close> are left out, because C leaves
  their overflow undefined.
\<close>

end
